(* ===== verification/Calico_Base.thy ===== *)
theory Calico_Base
  imports Main "HOL-Library.List_Lexorder" "HOL-Library.Char_ord"
begin

text \<open>
  The prelude of the development: the types by which the models speak of Go (results with an
  error, the visiting order of a \<^verbatim>\<open>range\<close> loop over a map), the parts of Go's
  \<^verbatim>\<open>strings\<close> and \<^verbatim>\<open>sort\<close> packages that the sources call, and the
  lemmas on lists, maps and options that the components share.
\<close>

section \<open>Go values\<close>

text \<open>
  A Go string is a sequence of bytes and compares bytewise; with \<open>Char_ord\<close> and
  \<open>List_Lexorder\<close> the order on \<^typ>\<open>string\<close> is that order. A call that returns
  \<^verbatim>\<open>(value, error)\<close> is a sum with the error on the left.
\<close>

type_synonym ('e, 'a) result = "'e + 'a"

text \<open>
  A run that can panic (an index or a slice bound out of range) or, where a loop or a recursion
  runs on fuel, not return: \<open>NoFuel\<close> is the run that has not ended when the fuel is used up.
\<close>

datatype 'a run = Return 'a | Panic | NoFuel

definition and_then ::
  "('e, 'a) result run \<Rightarrow> ('a \<Rightarrow> ('e, 'b) result run) \<Rightarrow> ('e, 'b) result run" where
  "and_then r f =
     (case r of
        Return (Inr x) \<Rightarrow> f x
      | Return (Inl e) \<Rightarrow> Return (Inl e)
      | Panic \<Rightarrow> Panic
      | NoFuel \<Rightarrow> NoFuel)"

lemma and_then_simps [simp]:
  "and_then (Return (Inr x)) f = f x" "and_then (Return (Inl e)) f = Return (Inl e)"
  "and_then Panic f = Panic" "and_then NoFuel f = NoFuel"
  by (simp_all add: and_then_def)

text \<open>Sequencing of runs, reading a slice at an index, and a loop whose body may panic.\<close>

definition run_bind :: "'a run \<Rightarrow> ('a \<Rightarrow> 'b run) \<Rightarrow> 'b run" where
  "run_bind r f = (case r of Return x \<Rightarrow> f x | Panic \<Rightarrow> Panic | NoFuel \<Rightarrow> NoFuel)"

lemma run_bind_simps [simp]:
  "run_bind (Return x) f = f x" "run_bind Panic f = Panic" "run_bind NoFuel f = NoFuel"
  by (simp_all add: run_bind_def)

definition at :: "'a list \<Rightarrow> nat \<Rightarrow> 'a run" where
  "at xs i = (if i < length xs then Return (xs ! i) else Panic)"

lemma at_simps [simp]: "i < length xs \<Longrightarrow> at xs i = Return (xs ! i)"
  by (simp add: at_def)

fun run_fold :: "('a \<Rightarrow> 's \<Rightarrow> 's run) \<Rightarrow> 'a list \<Rightarrow> 's \<Rightarrow> 's run" where
  "run_fold f [] s = Return s"
| "run_fold f (x # xs) s = run_bind (f x s) (run_fold f xs)"

lemma run_fold_append: "run_fold f (xs @ ys) s = run_bind (run_fold f xs s) (run_fold f ys)"
proof (induction xs arbitrary: s)
  case (Cons x xs)
  then show ?case by (cases "f x s") simp_all
qed simp

text \<open>A loop over \<open>0 ..< n\<close> returns when each pass does, and keeps what each pass keeps.\<close>

lemma run_fold_upt:
  assumes "P 0 s" and "\<And>i s. i < n \<Longrightarrow> P i s \<Longrightarrow> \<exists>s'. f i s = Return s' \<and> P (Suc i) s'"
  shows "\<exists>s'. run_fold f [0..<n] s = Return s' \<and> P n s'"
  using assms(2)
proof (induction n)
  case 0
  then show ?case using assms(1) by simp
next
  case (Suc n)
  then obtain s' where "run_fold f [0..<n] s = Return s'" "P n s'" by (auto simp: less_Suc_eq)
  with Suc.prems [of n s'] show ?case by (auto simp: run_fold_append)
qed

named_theorems go_simps \<open>rewriting of the models of Go's library functions\<close>
named_theorems map_views \<open>how an operation acts on the abstract maps of a component\<close>

subsection \<open>Maps and their \<^verbatim>\<open>range\<close> loops\<close>

text \<open>
  A \<^verbatim>\<open>range\<close> loop over a Go map visits the keys in an unspecified order and does
  not visit a key that the body has deleted before the loop reached it. The models take the
  order as an argument: a list without repetition that has every key of the map. Keys that are
  not in the map when the loop reaches them are skipped.
\<close>

definition visits :: "'k list \<Rightarrow> ('k \<rightharpoonup> 'v) \<Rightarrow> bool" where
  "visits ks m \<longleftrightarrow> distinct ks \<and> dom m \<subseteq> set ks"

lemma visitsI [intro]: "distinct ks \<Longrightarrow> dom m \<subseteq> set ks \<Longrightarrow> visits ks m"
  by (simp add: visits_def)

text \<open>
  The order in which a \<^verbatim>\<open>range\<close> statement visits the keys of a Go map: the
  \<open>i\<close>-th statement that runs visits the keys \<open>S\<close> in the order \<open>ord i S\<close>.
\<close>

type_synonym 'k range_order = "nat \<Rightarrow> 'k set \<Rightarrow> 'k list"

definition range_orders :: "'k range_order \<Rightarrow> bool" where
  "range_orders ord \<longleftrightarrow> (\<forall>i S. finite S \<longrightarrow> distinct (ord i S) \<and> set (ord i S) = S)"

text \<open>The order of a single such loop.\<close>

definition map_order :: "('a set \<Rightarrow> 'a list) \<Rightarrow> bool" where
  "map_order order \<longleftrightarrow> (\<forall>S. finite S \<longrightarrow> distinct (order S) \<and> set (order S) = S)"

lemma range_orders_visits: "range_orders ord \<Longrightarrow> finite (dom m) \<Longrightarrow> visits (ord i (dom m)) m"
  by (auto simp: range_orders_def visits_def)

lemma dom_subset_None: "dom m \<subseteq> dom n \<Longrightarrow> n k = None \<Longrightarrow> m k = None"
  by (metis domIff subsetD)

text \<open>Writing one entry to a map.\<close>

definition map_put :: "'k \<times> 'v \<Rightarrow> ('k \<rightharpoonup> 'v) \<Rightarrow> 'k \<rightharpoonup> 'v" where
  "map_put x m = m(fst x \<mapsto> snd x)"

lemma map_put_apply: "map_put x m k = (if k = fst x then Some (snd x) else m k)"
  by (simp add: map_put_def)

lemma fold_map_put_other: "k \<notin> fst ` set xs \<Longrightarrow> fold map_put xs m k = m k"
  by (induction xs arbitrary: m) (auto simp: map_put_apply)

lemma fold_map_put_in: "fold map_put xs m k = m k \<or> (\<exists>v. (k, v) \<in> set xs \<and> fold map_put xs m k = Some v)"
proof (induction xs arbitrary: m)
  case (Cons x xs)
  from Cons.IH [of "map_put x m"] show ?case
    by (cases x) (auto simp: map_put_apply split: if_splits)
qed simp

lemma visits_finite_dom: "visits ks m \<Longrightarrow> finite (dom m)"
  by (auto simp: visits_def intro: finite_subset)

lemma map_eqI_dom:
  assumes "dom m = dom n" and "\<And>k v. m k = Some v \<Longrightarrow> n k = Some v"
  shows "m = n"
proof
  fix k
  show "m k = n k"
    using assms(1) assms(2) [of k] by (metis domIff not_None_eq)
qed

lemma dom_map_upd_None [simp]: "dom (m(k := None)) = dom m - {k}"
  by auto

lemma map_add_None_upd: "n k = None \<Longrightarrow> (m ++ n)(k := None) = m(k := None) ++ n"
  by (auto simp: fun_eq_iff map_add_def split: option.splits)

lemma finite_dom_local:
  assumes "finite (dom m)" and "\<And>j. j \<noteq> k \<Longrightarrow> m' j = m j"
  shows "finite (dom m')"
proof (rule finite_subset)
  show "dom m' \<subseteq> insert k (dom m)"
    by (metis assms(2) domIff insertCI subsetI)
  show "finite (insert k (dom m))"
    using assms(1) by simp
qed

lemma card_dom_insert_new: "finite (dom m) \<Longrightarrow> k \<notin> dom m \<Longrightarrow> card (insert k (dom m)) = Suc (card (dom m))"
  by simp

lemma map_eq_transfer:
  "map f xs = map f ys \<Longrightarrow> (\<And>x y. x \<in> set xs \<Longrightarrow> y \<in> set ys \<Longrightarrow> f x = f y \<Longrightarrow> g x = g y) \<Longrightarrow> map g xs = map g ys"
proof (induction xs arbitrary: ys)
  case (Cons x xs)
  then obtain y ys' where "ys = y # ys'" "f x = f y" "map f xs = map f ys'" by (cases ys) auto
  with Cons.IH [of ys'] Cons.prems(2) show ?case by auto
qed simp

lemma filter_not_taken:
  assumes "distinct xs"
  shows "filter (\<lambda>x. x \<notin> set (take n xs)) xs = drop n xs"
proof -
  have "set (take n xs) \<inter> set (drop n xs) = {}" using assms by (simp add: set_take_disj_set_drop_if_distinct)
  then have "filter (\<lambda>x. x \<notin> set (take n xs)) (drop n xs) = drop n xs" by (intro filter_True) auto
  moreover have "filter (\<lambda>x. x \<notin> set (take n xs)) (take n xs) = []" by (simp add: filter_empty_conv)
  ultimately have "filter (\<lambda>x. x \<notin> set (take n xs)) (take n xs @ drop n xs) = drop n xs"
    by (simp only: filter_append append_Nil)
  then show ?thesis by simp
qed

section \<open>Go's string functions\<close>

text \<open>\<^verbatim>\<open>strings.HasPrefix\<close>, \<^verbatim>\<open>strings.HasSuffix\<close>,
  \<^verbatim>\<open>strings.Contains\<close>, \<^verbatim>\<open>strings.CutPrefix\<close>,
  \<^verbatim>\<open>strings.TrimPrefix\<close>, and \<^verbatim>\<open>strings.Index\<close> of a one-byte string.\<close>

fun go_has_prefix :: "string \<Rightarrow> string \<Rightarrow> bool" where
  "go_has_prefix s [] = True"
| "go_has_prefix [] (p # ps) = False"
| "go_has_prefix (c # s) (p # ps) = (c = p \<and> go_has_prefix s ps)"

definition go_has_suffix :: "string \<Rightarrow> string \<Rightarrow> bool" where
  "go_has_suffix s p = go_has_prefix (rev s) (rev p)"

fun go_contains :: "string \<Rightarrow> string \<Rightarrow> bool" where
  "go_contains [] p = (p = [])"
| "go_contains (c # s) p = (go_has_prefix (c # s) p \<or> go_contains s p)"

definition go_cut_prefix :: "string \<Rightarrow> string \<Rightarrow> string \<times> bool" where
  "go_cut_prefix s p = (if go_has_prefix s p then (drop (length p) s, True) else (s, False))"

definition go_trim_prefix :: "string \<Rightarrow> string \<Rightarrow> string" where
  "go_trim_prefix s p = (if go_has_prefix s p then drop (length p) s else s)"

fun go_index_char :: "string \<Rightarrow> char \<Rightarrow> nat option" where
  "go_index_char [] q = None"
| "go_index_char (c # s) q = (if c = q then Some 0 else map_option Suc (go_index_char s q))"

lemma go_has_prefix_iff [go_simps]: "go_has_prefix s p \<longleftrightarrow> (\<exists>t. s = p @ t)"
  by (induction s p rule: go_has_prefix.induct) auto

lemma go_has_prefix_append [simp]: "go_has_prefix (p @ t) p"
  by (simp add: go_has_prefix_iff)

lemma go_has_suffix_iff [go_simps]: "go_has_suffix s p \<longleftrightarrow> (\<exists>t. s = t @ p)"
proof -
  have "rev s = rev p @ t \<longleftrightarrow> s = rev t @ p" for t
    by (metis rev_append rev_rev_ident)
  then show ?thesis
    by (metis go_has_prefix_iff go_has_suffix_def rev_rev_ident)
qed

lemma go_contains_iff [go_simps]: "go_contains s p \<longleftrightarrow> (\<exists>t u. s = t @ p @ u)"
proof (induction s)
  case Nil
  then show ?case by simp
next
  case (Cons c s)
  have "(\<exists>t u. c # s = t @ p @ u) \<longleftrightarrow> (\<exists>u. c # s = p @ u) \<or> (\<exists>t u. s = t @ p @ u)"
    by (metis append_Cons append_Nil append_eq_Cons_conv)
  with Cons show ?case by (simp add: go_has_prefix_iff)
qed

lemma go_contains_char: "go_contains s [c] \<longleftrightarrow> c \<in> set s"
  by (auto simp: go_contains_iff in_set_conv_decomp)

lemma go_cut_prefix_True:
  "go_cut_prefix s p = (r, True) \<longleftrightarrow> s = p @ r"
  by (auto simp: go_cut_prefix_def go_has_prefix_iff)

lemma go_cut_prefix_append [simp]: "go_cut_prefix (p @ r) p = (r, True)"
  by (simp add: go_cut_prefix_def)

lemma go_index_char_None: "go_index_char s q = None \<longleftrightarrow> q \<notin> set s"
  by (induction s) auto

lemma go_index_char_append [simp]: "q \<notin> set s \<Longrightarrow> go_index_char (s @ q # t) q = Some (length s)"
  by (induction s) auto

lemma go_index_char_Some:
  "go_index_char s q = Some i \<Longrightarrow> i < length s \<and> s ! i = q \<and> q \<notin> set (take i s)"
proof (induction s arbitrary: i)
  case (Cons c s)
  then show ?case by (auto split: if_splits)
qed simp

section \<open>\<^verbatim>\<open>sort.Search\<close>\<close>

text \<open>
  The loop of \<^verbatim>\<open>sort.Search\<close>: the smallest index in \<open>[i, j)\<close> at which a
  monotone predicate holds, or \<open>j\<close>.
\<close>

function go_search :: "(nat \<Rightarrow> bool) \<Rightarrow> nat \<Rightarrow> nat \<Rightarrow> nat" where
  "go_search f i j =
     (if i < j then
        (let h = (i + j) div 2 in
         if \<not> f h then go_search f (h + 1) j else go_search f i h)
      else i)"
  by pat_completeness auto
termination
  by (relation "measure (\<lambda>(f, i, j). j - i)") (auto simp: Let_def)

declare go_search.simps [simp del]

lemma go_search_spec:
  assumes "\<forall>x y. i \<le> x \<and> x \<le> y \<and> y < j \<and> f x \<longrightarrow> f y" and "i \<le> j"
  shows "i \<le> go_search f i j \<and> go_search f i j \<le> j
    \<and> (\<forall>x. i \<le> x \<and> x < go_search f i j \<longrightarrow> \<not> f x)
    \<and> (\<forall>x. go_search f i j \<le> x \<and> x < j \<longrightarrow> f x)"
  using assms
proof (induction f i j rule: go_search.induct)
  case (1 f i j)
  define h where "h = (i + j) div 2"
  show ?case
  proof (cases "i < j")
    case False
    then have "go_search f i j = i"
      by (simp add: go_search.simps [of f i j])
    with False "1.prems" show ?thesis by auto
  next
    case True
    then have h: "i \<le> h" "h < j" by (auto simp: h_def)
    show ?thesis
    proof (cases "f h")
      case False
      then have eq: "go_search f i j = go_search f (h + 1) j"
        using True by (simp add: go_search.simps [of f i j] h_def Let_def)
      have low: "\<not> f x" if "i \<le> x" "x \<le> h" for x
        using False "1.prems"(1) that h by blast
      have IH: "h + 1 \<le> go_search f (h + 1) j \<and> go_search f (h + 1) j \<le> j
          \<and> (\<forall>x. h + 1 \<le> x \<and> x < go_search f (h + 1) j \<longrightarrow> \<not> f x)
          \<and> (\<forall>x. go_search f (h + 1) j \<le> x \<and> x < j \<longrightarrow> f x)"
      proof (rule "1.IH"(1) [OF True h_def False])
        show "\<forall>x y. h + 1 \<le> x \<and> x \<le> y \<and> y < j \<and> f x \<longrightarrow> f y"
          using "1.prems"(1) h(1) by (meson add_leD1 order_trans)
        show "h + 1 \<le> j" using h(2) by simp
      qed
      have "\<not> f x" if "i \<le> x" "x < go_search f (h + 1) j" for x
        using low [of x] IH that by (cases "x \<le> h") auto
      with IH h show ?thesis unfolding eq by auto
    next
      case fh: True
      then have eq: "go_search f i j = go_search f i h"
        using True by (simp add: go_search.simps [of f i j] h_def Let_def)
      have high: "f x" if "h \<le> x" "x < j" for x
        using fh "1.prems"(1) that h by blast
      have IH: "i \<le> go_search f i h \<and> go_search f i h \<le> h
          \<and> (\<forall>x. i \<le> x \<and> x < go_search f i h \<longrightarrow> \<not> f x)
          \<and> (\<forall>x. go_search f i h \<le> x \<and> x < h \<longrightarrow> f x)"
      proof (rule "1.IH"(2) [OF True h_def])
        show "\<not> \<not> f h" using fh by simp
        show "\<forall>x y. i \<le> x \<and> x \<le> y \<and> y < h \<and> f x \<longrightarrow> f y"
          using "1.prems"(1) h(2) by (meson less_trans)
      qed (fact h(1))
      have "f x" if "go_search f i h \<le> x" "x < j" for x
        using high [of x] IH that by (cases "h \<le> x") auto
      with IH h show ?thesis unfolding eq by auto
    qed
  qed
qed

end
