(* ===== verification/Delta_Tracker.thy ===== *)
theory Delta_Tracker
  imports Calico_Base
begin

text \<open>
  The delta tracker of Felix (\<^verbatim>\<open>felix/deltatracker/delta_tracker.go\<close> and
  \<^verbatim>\<open>delta_set.go\<close>): the desired and the dataplane map kept as the three regions
  of a Venn diagram, and the views through which callers read, change and iterate over them.
  The abstract specification is the pair of maps \<open>(desired, dataplane)\<close>; the lemmas show
  that every operation acts on the pair as on two plain maps, and that the two pending views are
  at all times the difference of the pair.
\<close>

section \<open>The tracker\<close>

record ('k, 'v) DeltaTracker =
  inDataplaneAndDesired :: "'k \<rightharpoonup> 'v"
  inDataplaneNotDesired :: "'k \<rightharpoonup> 'v"
  desiredUpdates :: "'k \<rightharpoonup> 'v"
  desiredLen :: int
  valuesEqual :: "'v \<Rightarrow> 'v \<Rightarrow> bool"

text \<open>
  \<^verbatim>\<open>New\<close> applies its options in order to the empty tracker, whose equality is
  \<^verbatim>\<open>reflect.DeepEqual\<close>, and panics when the value type is a Go map.
\<close>

type_synonym ('k, 'v) tracker_option = "('k, 'v) DeltaTracker \<Rightarrow> ('k, 'v) DeltaTracker"

definition WithValuesEqualFn :: "('v \<Rightarrow> 'v \<Rightarrow> bool) \<Rightarrow> ('k, 'v) tracker_option" where
  "WithValuesEqualFn f t = t\<lparr>valuesEqual := f\<rparr>"

definition empty_tracker :: "('k, 'v) DeltaTracker" where
  "empty_tracker =
     \<lparr>inDataplaneAndDesired = Map.empty, inDataplaneNotDesired = Map.empty,
      desiredUpdates = Map.empty, desiredLen = 0, valuesEqual = (\<lambda>a b. a = b)\<rparr>"

definition New :: "bool \<Rightarrow> ('k, 'v) tracker_option list \<Rightarrow> ('k, 'v) DeltaTracker option" where
  "New valueIsMap opts =
     (if valueIsMap then None else Some (fold (\<lambda>opt t. opt t) opts empty_tracker))"

section \<open>The desired view\<close>

definition DesiredView_Get :: "('k, 'v) DeltaTracker \<Rightarrow> 'k \<Rightarrow> 'v option" where
  "DesiredView_Get t k =
     (case desiredUpdates t k of
        Some v \<Rightarrow> Some v
      | None \<Rightarrow> inDataplaneAndDesired t k)"

definition DesiredView_Set :: "'k \<Rightarrow> 'v \<Rightarrow> ('k, 'v) DeltaTracker \<Rightarrow> ('k, 'v) DeltaTracker" where
  "DesiredView_Set k v t =
     (let (t, currentVal) =
        (case inDataplaneNotDesired t k of
           Some c \<Rightarrow>
             (t\<lparr>inDataplaneAndDesired := (inDataplaneAndDesired t)(k \<mapsto> c),
                inDataplaneNotDesired := (inDataplaneNotDesired t)(k := None),
                desiredLen := desiredLen t + 1\<rparr>, Some c)
         | None \<Rightarrow> (t, inDataplaneAndDesired t k))
      in case currentVal of
           None \<Rightarrow>
             (let t = (if desiredUpdates t k = None then t\<lparr>desiredLen := desiredLen t + 1\<rparr> else t)
              in t\<lparr>desiredUpdates := (desiredUpdates t)(k \<mapsto> v)\<rparr>)
         | Some c \<Rightarrow>
             if valuesEqual t c v
             then t\<lparr>desiredUpdates := (desiredUpdates t)(k := None)\<rparr>
             else t\<lparr>desiredUpdates := (desiredUpdates t)(k \<mapsto> v)\<rparr>)"

definition DesiredView_Delete :: "'k \<Rightarrow> ('k, 'v) DeltaTracker \<Rightarrow> ('k, 'v) DeltaTracker" where
  "DesiredView_Delete k t =
     (let presentInDesired = (desiredUpdates t k \<noteq> None);
          t1 = (if presentInDesired
                then t\<lparr>desiredUpdates := (desiredUpdates t)(k := None)\<rparr> else t);
          t2 = (case inDataplaneAndDesired t1 k of
                  Some c \<Rightarrow>
                    t1\<lparr>inDataplaneNotDesired := (inDataplaneNotDesired t1)(k \<mapsto> c),
                       inDataplaneAndDesired := (inDataplaneAndDesired t1)(k := None)\<rparr>
                | None \<Rightarrow> t1)
      in if presentInDesired \<or> inDataplaneAndDesired t1 k \<noteq> None
         then t2\<lparr>desiredLen := desiredLen t2 - 1\<rparr> else t2)"

text \<open>
  \<^verbatim>\<open>Iter\<close> runs its callback over the pending updates and then over the keys that
  are in the dataplane and have no pending update. The callback may change the tracker.
\<close>

fun desired_iter_updates ::
  "('k \<Rightarrow> 'v \<Rightarrow> ('k, 'v) DeltaTracker \<Rightarrow> ('k, 'v) DeltaTracker) \<Rightarrow> 'k list
   \<Rightarrow> ('k, 'v) DeltaTracker \<Rightarrow> ('k, 'v) DeltaTracker" where
  "desired_iter_updates f [] t = t"
| "desired_iter_updates f (k # ks) t =
     desired_iter_updates f ks
       (case desiredUpdates t k of Some v \<Rightarrow> f k v t | None \<Rightarrow> t)"

fun desired_iter_rest ::
  "('k \<Rightarrow> 'v \<Rightarrow> ('k, 'v) DeltaTracker \<Rightarrow> ('k, 'v) DeltaTracker) \<Rightarrow> 'k list
   \<Rightarrow> ('k, 'v) DeltaTracker \<Rightarrow> ('k, 'v) DeltaTracker" where
  "desired_iter_rest f [] t = t"
| "desired_iter_rest f (k # ks) t =
     desired_iter_rest f ks
       (case inDataplaneAndDesired t k of
          Some v \<Rightarrow> if desiredUpdates t k \<noteq> None then t else f k v t
        | None \<Rightarrow> t)"

definition DesiredView_Iter ::
  "('k \<Rightarrow> 'v \<Rightarrow> ('k, 'v) DeltaTracker \<Rightarrow> ('k, 'v) DeltaTracker) \<Rightarrow> 'k list \<Rightarrow> 'k list
   \<Rightarrow> ('k, 'v) DeltaTracker \<Rightarrow> ('k, 'v) DeltaTracker" where
  "DesiredView_Iter f ks1 ks2 t = desired_iter_rest f ks2 (desired_iter_updates f ks1 t)"

definition DesiredView_DeleteAll ::
  "'k list \<Rightarrow> 'k list \<Rightarrow> ('k, 'v) DeltaTracker \<Rightarrow> ('k, 'v) DeltaTracker" where
  "DesiredView_DeleteAll ks1 ks2 t = DesiredView_Iter (\<lambda>k v. DesiredView_Delete k) ks1 ks2 t"

definition DesiredView_Len :: "('k, 'v) DeltaTracker \<Rightarrow> int" where
  "DesiredView_Len t = desiredLen t"

section \<open>The dataplane view\<close>

definition DataplaneView_Get :: "('k, 'v) DeltaTracker \<Rightarrow> 'k \<Rightarrow> 'v option" where
  "DataplaneView_Get t k =
     (case inDataplaneAndDesired t k of
        Some v \<Rightarrow> Some v
      | None \<Rightarrow> inDataplaneNotDesired t k)"

definition DataplaneView_Set :: "'k \<Rightarrow> 'v \<Rightarrow> ('k, 'v) DeltaTracker \<Rightarrow> ('k, 'v) DeltaTracker" where
  "DataplaneView_Set k v t =
     (case DesiredView_Get t k of
        Some desiredV \<Rightarrow>
          (let t = t\<lparr>inDataplaneAndDesired := (inDataplaneAndDesired t)(k \<mapsto> v)\<rparr>
           in if \<not> valuesEqual t desiredV v
              then t\<lparr>desiredUpdates := (desiredUpdates t)(k \<mapsto> desiredV)\<rparr>
              else t\<lparr>desiredUpdates := (desiredUpdates t)(k := None)\<rparr>)
      | None \<Rightarrow> t\<lparr>inDataplaneNotDesired := (inDataplaneNotDesired t)(k \<mapsto> v)\<rparr>)"

definition DataplaneView_Delete :: "'k \<Rightarrow> ('k, 'v) DeltaTracker \<Rightarrow> ('k, 'v) DeltaTracker" where
  "DataplaneView_Delete k t =
     (let desired = DesiredView_Get t k;
          t = t\<lparr>inDataplaneAndDesired := (inDataplaneAndDesired t)(k := None),
                inDataplaneNotDesired := (inDataplaneNotDesired t)(k := None)\<rparr>
      in case desired of
           Some desiredV \<Rightarrow> t\<lparr>desiredUpdates := (desiredUpdates t)(k \<mapsto> desiredV)\<rparr>
         | None \<Rightarrow> t)"

text \<open>
  \<^verbatim>\<open>ReplaceAllIter\<close> uses the old maps as scratch space, so the tracker passed
  through the loop holds them while the two new maps grow beside it. The iterator is the list of
  the pairs it yields and the error with which it ends.
\<close>

type_synonym ('k, 'v) replace_state = "('k, 'v) DeltaTracker \<times> ('k \<rightharpoonup> 'v) \<times> ('k \<rightharpoonup> 'v)"

definition replace_step :: "'k \<times> 'v \<Rightarrow> ('k, 'v) replace_state \<Rightarrow> ('k, 'v) replace_state" where
  "replace_step = (\<lambda>(k, v) (t, newInDPDesired, newInDPNotDesired).
     (let (t, newInDPDesired, newInDPNotDesired) =
        (case DesiredView_Get t k of
           Some desiredV \<Rightarrow>
             (if valuesEqual t desiredV v
              then t\<lparr>desiredUpdates := (desiredUpdates t)(k := None)\<rparr>
              else t\<lparr>desiredUpdates := (desiredUpdates t)(k \<mapsto> desiredV)\<rparr>,
              newInDPDesired(k \<mapsto> v), newInDPNotDesired)
         | None \<Rightarrow> (t, newInDPDesired, newInDPNotDesired(k \<mapsto> v)))
      in (t\<lparr>inDataplaneAndDesired := (inDataplaneAndDesired t)(k := None),
            inDataplaneNotDesired := (inDataplaneNotDesired t)(k := None)\<rparr>,
          newInDPDesired, newInDPNotDesired)))"

fun replace_missing :: "'k list \<Rightarrow> ('k, 'v) DeltaTracker \<Rightarrow> ('k, 'v) DeltaTracker" where
  "replace_missing [] t = t"
| "replace_missing (k # ks) t =
     replace_missing ks
       (if inDataplaneAndDesired t k = None then t
        else (case DesiredView_Get t k of
                Some desiredV \<Rightarrow> t\<lparr>desiredUpdates := (desiredUpdates t)(k \<mapsto> desiredV)\<rparr>
              | None \<Rightarrow> t)
             \<lparr>inDataplaneAndDesired := (inDataplaneAndDesired t)(k := None)\<rparr>)"

definition DataplaneView_ReplaceAllIter ::
  "('k \<times> 'v) list \<Rightarrow> 'e option \<Rightarrow> 'k list \<Rightarrow> ('k, 'v) DeltaTracker
   \<Rightarrow> 'e option \<times> ('k, 'v) DeltaTracker" where
  "DataplaneView_ReplaceAllIter kvs iterErr ks t =
     (let (t, newInDPDesired, newInDPNotDesired) = fold replace_step kvs (t, Map.empty, Map.empty)
      in case iterErr of
           Some e \<Rightarrow>
             (Some e, t\<lparr>inDataplaneAndDesired := inDataplaneAndDesired t ++ newInDPDesired,
                        inDataplaneNotDesired := inDataplaneNotDesired t ++ newInDPNotDesired\<rparr>)
         | None \<Rightarrow>
             (None, (replace_missing ks t)
                      \<lparr>inDataplaneAndDesired := newInDPDesired,
                       inDataplaneNotDesired := newInDPNotDesired\<rparr>))"

definition map_entries :: "'k list \<Rightarrow> ('k \<rightharpoonup> 'v) \<Rightarrow> ('k \<times> 'v) list" where
  "map_entries ks m = List.map_filter (\<lambda>k. map_option (Pair k) (m k)) ks"

definition DataplaneView_ReplaceAllMap ::
  "('k \<rightharpoonup> 'v) \<Rightarrow> 'k list \<Rightarrow> 'k list \<Rightarrow> ('k, 'v) DeltaTracker \<Rightarrow> ('k, 'v) DeltaTracker" where
  "DataplaneView_ReplaceAllMap dpKVs ks1 ks2 t =
     snd (DataplaneView_ReplaceAllIter (map_entries ks1 dpKVs) (None :: unit option) ks2 t)"

definition DataplaneView_DeleteAll :: "'k list \<Rightarrow> ('k, 'v) DeltaTracker \<Rightarrow> ('k, 'v) DeltaTracker" where
  "DataplaneView_DeleteAll ks t = DataplaneView_ReplaceAllMap Map.empty [] ks t"

definition DataplaneView_Iter :: "'k list \<Rightarrow> 'k list \<Rightarrow> ('k, 'v) DeltaTracker \<Rightarrow> ('k \<times> 'v) list" where
  "DataplaneView_Iter ks1 ks2 t =
     map_entries ks1 (inDataplaneAndDesired t) @ map_entries ks2 (inDataplaneNotDesired t)"

definition DataplaneView_Len :: "('k, 'v) DeltaTracker \<Rightarrow> nat" where
  "DataplaneView_Len t =
     card (dom (inDataplaneNotDesired t)) + card (dom (inDataplaneAndDesired t))"

section \<open>The pending views\<close>

definition PendingUpdatesView_Get :: "('k, 'v) DeltaTracker \<Rightarrow> 'k \<Rightarrow> 'v option" where
  "PendingUpdatesView_Get t k = desiredUpdates t k"

definition PendingDeletionsView_Get :: "('k, 'v) DeltaTracker \<Rightarrow> 'k \<Rightarrow> 'v option" where
  "PendingDeletionsView_Get t k = inDataplaneNotDesired t k"

definition PendingUpdatesView_Len :: "('k, 'v) DeltaTracker \<Rightarrow> nat" where
  "PendingUpdatesView_Len t = card (dom (desiredUpdates t))"

definition PendingDeletionsView_Len :: "('k, 'v) DeltaTracker \<Rightarrow> nat" where
  "PendingDeletionsView_Len t = card (dom (inDataplaneNotDesired t))"

definition InSync :: "('k, 'v) DeltaTracker \<Rightarrow> bool" where
  "InSync t \<longleftrightarrow> PendingDeletionsView_Len t = 0 \<and> PendingUpdatesView_Len t = 0"

section \<open>Invariant and abstraction\<close>

text \<open>
  The comment on the struct as a predicate: the two dataplane maps are disjoint, a key that is
  not desired has no pending update, a pending update of a key that is in the dataplane differs
  from the dataplane's value, and the counter is the size of the desired map.
\<close>

definition region_ok :: "('v \<Rightarrow> 'v \<Rightarrow> bool) \<Rightarrow> 'v option \<Rightarrow> 'v option \<Rightarrow> 'v option \<Rightarrow> bool" where
  "region_ok eq a n u \<longleftrightarrow>
     (case n of
        Some _ \<Rightarrow> a = None \<and> u = None
      | None \<Rightarrow> (case (a, u) of (Some x, Some y) \<Rightarrow> \<not> eq x y | _ \<Rightarrow> True))"

definition dt_inv :: "('k, 'v) DeltaTracker \<Rightarrow> bool" where
  "dt_inv t \<longleftrightarrow>
     (\<forall>k. region_ok (valuesEqual t)
            (inDataplaneAndDesired t k) (inDataplaneNotDesired t k) (desiredUpdates t k))
     \<and> finite (dom (inDataplaneAndDesired t)) \<and> finite (dom (inDataplaneNotDesired t))
     \<and> finite (dom (desiredUpdates t))
     \<and> desiredLen t = int (card (dom (inDataplaneAndDesired t) \<union> dom (desiredUpdates t)))
     \<and> symp (valuesEqual t)"

definition desired_map :: "('k, 'v) DeltaTracker \<Rightarrow> 'k \<rightharpoonup> 'v" where
  "desired_map t = inDataplaneAndDesired t ++ desiredUpdates t"

definition dataplane_map :: "('k, 'v) DeltaTracker \<Rightarrow> 'k \<rightharpoonup> 'v" where
  "dataplane_map t = inDataplaneNotDesired t ++ inDataplaneAndDesired t"

text \<open>The difference of two maps, as the specification of the pending views.\<close>

definition map_updates :: "('v \<Rightarrow> 'v \<Rightarrow> bool) \<Rightarrow> ('k \<rightharpoonup> 'v) \<Rightarrow> ('k \<rightharpoonup> 'v) \<Rightarrow> 'k \<rightharpoonup> 'v" where
  "map_updates eq des dp k =
     (case des k of
        None \<Rightarrow> None
      | Some v \<Rightarrow> (case dp k of None \<Rightarrow> Some v | Some d \<Rightarrow> if eq d v then None else Some v))"

definition map_deletions :: "('k \<rightharpoonup> 'v) \<Rightarrow> ('k \<rightharpoonup> 'v) \<Rightarrow> 'k \<rightharpoonup> 'v" where
  "map_deletions des dp k = (if des k = None then dp k else None)"

subsection \<open>Reading the views\<close>

lemma DesiredView_Get_eq [map_views]: "DesiredView_Get t = desired_map t"
  by (auto simp: DesiredView_Get_def desired_map_def fun_eq_iff map_add_def split: option.splits)

lemma DataplaneView_Get_eq [map_views]: "DataplaneView_Get t = dataplane_map t"
  by (auto simp: DataplaneView_Get_def dataplane_map_def fun_eq_iff map_add_def split: option.splits)

lemma dom_desired_map: "dom (desired_map t) = dom (inDataplaneAndDesired t) \<union> dom (desiredUpdates t)"
  by (auto simp: desired_map_def)

lemma dom_dataplane_map:
  "dom (dataplane_map t) = dom (inDataplaneAndDesired t) \<union> dom (inDataplaneNotDesired t)"
  by (auto simp: dataplane_map_def)

text \<open>A key is in exactly one region; the three maps at a key in each of them.\<close>

lemma dt_inv_region:
  assumes "dt_inv t"
  obtains
    (absent) "inDataplaneNotDesired t k = None" "inDataplaneAndDesired t k = None"
      "desiredUpdates t k = None"
  | (unwanted) n where "inDataplaneNotDesired t k = Some n" "inDataplaneAndDesired t k = None"
      "desiredUpdates t k = None"
  | (missing) u where "inDataplaneNotDesired t k = None" "inDataplaneAndDesired t k = None"
      "desiredUpdates t k = Some u"
  | (synced) a where "inDataplaneNotDesired t k = None" "inDataplaneAndDesired t k = Some a"
      "desiredUpdates t k = None"
  | (stale) a u where "inDataplaneNotDesired t k = None" "inDataplaneAndDesired t k = Some a"
      "desiredUpdates t k = Some u" "\<not> valuesEqual t a u"
proof -
  have reg: "region_ok (valuesEqual t)
      (inDataplaneAndDesired t k) (inDataplaneNotDesired t k) (desiredUpdates t k)"
    using assms by (simp add: dt_inv_def)
  show thesis
  proof (cases "inDataplaneNotDesired t k")
    case None
    show thesis
    proof (cases "inDataplaneAndDesired t k")
      case a: None
      show thesis
      proof (cases "desiredUpdates t k")
        case u: None
        from None a u show thesis by (rule that(1))
      next
        case (Some u)
        from None a Some show thesis by (rule that(3))
      qed
    next
      case a: (Some a)
      show thesis
      proof (cases "desiredUpdates t k")
        case u: None
        from None a u show thesis by (rule that(4))
      next
        case (Some u)
        have "\<not> valuesEqual t a u"
          using reg None a Some by (simp add: region_ok_def)
        with None a Some show thesis by (rule that(5))
      qed
    qed
  next
    case (Some n)
    with reg have "inDataplaneAndDesired t k = None" "desiredUpdates t k = None"
      by (simp_all add: region_ok_def)
    with Some show thesis by (rule that(2))
  qed
qed

lemma dt_inv_sym: "dt_inv t \<Longrightarrow> valuesEqual t x y = valuesEqual t y x"
  by (auto simp: dt_inv_def dest: sympD)

lemmas region_maps = desired_map_def dataplane_map_def map_add_def

lemma desiredUpdates_eq:
  assumes "dt_inv t" and same: "\<And>a. valuesEqual t a a"
  shows "desiredUpdates t = map_updates (valuesEqual t) (desired_map t) (dataplane_map t)"
proof
  fix k
  show "desiredUpdates t k = map_updates (valuesEqual t) (desired_map t) (dataplane_map t) k"
    by (rule dt_inv_region [OF assms(1), of k]) (simp_all add: map_updates_def region_maps same)
qed

lemma inDataplaneNotDesired_eq:
  assumes "dt_inv t"
  shows "inDataplaneNotDesired t = map_deletions (desired_map t) (dataplane_map t)"
proof
  fix k
  show "inDataplaneNotDesired t k = map_deletions (desired_map t) (dataplane_map t) k"
    by (rule dt_inv_region [OF assms, of k]) (simp_all add: map_deletions_def region_maps)
qed

subsection \<open>The operations keep the invariant and act as map operations\<close>

lemma dt_len: "dt_inv t \<Longrightarrow> desiredLen t = int (card (dom (desired_map t)))"
  by (simp add: dt_inv_def dom_desired_map)

text \<open>An operation on one key keeps the invariant when it does so at that key and counts right.\<close>

lemma dt_inv_local:
  assumes inv: "dt_inv t"
    and frame: "\<And>j. j \<noteq> k \<Longrightarrow> inDataplaneAndDesired t' j = inDataplaneAndDesired t j"
      "\<And>j. j \<noteq> k \<Longrightarrow> inDataplaneNotDesired t' j = inDataplaneNotDesired t j"
      "\<And>j. j \<noteq> k \<Longrightarrow> desiredUpdates t' j = desiredUpdates t j"
      "valuesEqual t' = valuesEqual t"
    and reg: "region_ok (valuesEqual t)
      (inDataplaneAndDesired t' k) (inDataplaneNotDesired t' k) (desiredUpdates t' k)"
    and len: "desiredLen t' + of_bool (desired_map t k \<noteq> None)
      = desiredLen t + of_bool (desired_map t' k \<noteq> None)"
  shows "dt_inv t'"
proof -
  have regions: "region_ok (valuesEqual t')
      (inDataplaneAndDesired t' j) (inDataplaneNotDesired t' j) (desiredUpdates t' j)" for j
  proof (cases "j = k")
    case True
    with reg frame(4) show ?thesis by simp
  next
    case False
    have "region_ok (valuesEqual t)
        (inDataplaneAndDesired t j) (inDataplaneNotDesired t j) (desiredUpdates t j)"
      using inv by (simp add: dt_inv_def)
    then show ?thesis by (simp only: frame(1-3) [OF False] frame(4))
  qed
  have fin: "finite (dom (inDataplaneAndDesired t))" "finite (dom (inDataplaneNotDesired t))"
      "finite (dom (desiredUpdates t))"
    using inv by (simp_all add: dt_inv_def)
  have fin': "finite (dom (inDataplaneAndDesired t'))" "finite (dom (inDataplaneNotDesired t'))"
      "finite (dom (desiredUpdates t'))"
    by (rule finite_dom_local [OF fin(1) frame(1)] finite_dom_local [OF fin(2) frame(2)]
        finite_dom_local [OF fin(3) frame(3)], assumption)+
  define R where "R = dom (desired_map t) - {k}"
  have finR: "finite R" and kR: "k \<notin> R"
    using fin by (simp_all add: R_def dom_desired_map)
  have off: "desired_map t' j = desired_map t j" if "j \<noteq> k" for j
    using that frame(1,3) by (simp add: region_maps split: option.split)
  have d: "dom (desired_map t) = (if desired_map t k \<noteq> None then insert k R else R)"
    by (auto simp: R_def)
  have d': "dom (desired_map t') = (if desired_map t' k \<noteq> None then insert k R else R)"
  proof -
    have R': "dom (desired_map t') - {k} = R"
      using off by (auto simp: R_def domIff)
    show ?thesis
    proof (cases "desired_map t' k = None")
      case True
      then have "k \<notin> dom (desired_map t')" by (simp add: domIff)
      with R' True show ?thesis by simp
    next
      case False
      then have "k \<in> dom (desired_map t')" by (simp add: domIff)
      with R' have "dom (desired_map t') = insert k R" by blast
      with False show ?thesis by simp
    qed
  qed
  have "desiredLen t = int (card R) + of_bool (desired_map t k \<noteq> None)"
    using finR kR by (simp add: dt_len [OF inv] d)
  with len have len': "desiredLen t' = int (card (dom (desired_map t')))"
    using finR kR by (simp add: d')
  have "symp (valuesEqual t')"
    using inv frame(4) by (simp add: dt_inv_def)
  then show ?thesis
    unfolding dt_inv_def dom_desired_map [symmetric]
    by (intro conjI allI regions fin' len')
qed

lemma dt_inv_DesiredView_Set: "dt_inv t \<Longrightarrow> dt_inv (DesiredView_Set k v t)"
  by (rule dt_inv_region [of t k], assumption; rule dt_inv_local [of t k])
     (simp_all add: DesiredView_Set_def Let_def region_ok_def region_maps)

lemma dt_inv_DesiredView_Delete: "dt_inv t \<Longrightarrow> dt_inv (DesiredView_Delete k t)"
  by (rule dt_inv_region [of t k], assumption; rule dt_inv_local [of t k])
     (simp_all add: DesiredView_Delete_def Let_def region_ok_def region_maps)

lemma dt_inv_DataplaneView_Set: "dt_inv t \<Longrightarrow> dt_inv (DataplaneView_Set k v t)"
  by (rule dt_inv_region [of t k], assumption; rule dt_inv_local [of t k])
     (simp_all add: DataplaneView_Set_def DesiredView_Get_def Let_def dt_inv_sym region_ok_def region_maps)

lemma dt_inv_DataplaneView_Delete: "dt_inv t \<Longrightarrow> dt_inv (DataplaneView_Delete k t)"
  by (rule dt_inv_region [of t k], assumption; rule dt_inv_local [of t k])
     (simp_all add: DataplaneView_Delete_def DesiredView_Get_def Let_def region_ok_def region_maps)

lemmas dt_inv_ops =
  dt_inv_DesiredView_Set dt_inv_DesiredView_Delete dt_inv_DataplaneView_Set dt_inv_DataplaneView_Delete

lemma map_eq_local:
  assumes "\<And>j. j \<noteq> k \<Longrightarrow> m' j = m j" and "m' k = x"
  shows "m' = m(k := x)"
  using assms by (auto simp: fun_eq_iff)

text \<open>
  What each operation does to the two abstract maps. A desired value that the dataplane already
  has, up to \<^const>\<open>valuesEqual\<close>, is stored as the dataplane's.
\<close>

lemma desired_map_DesiredView_Set:
  assumes "dt_inv t"
  shows "desired_map (DesiredView_Set k v t) = (desired_map t)(k \<mapsto>
    (case dataplane_map t k of Some c \<Rightarrow> if valuesEqual t c v then c else v | None \<Rightarrow> v))"
  by (rule dt_inv_region [OF assms, of k]; rule map_eq_local)
     (simp_all add: DesiredView_Set_def Let_def region_maps cong: option.case_cong)

lemma dataplane_map_DesiredView_Set [map_views]:
  assumes "dt_inv t"
  shows "dataplane_map (DesiredView_Set k v t) = dataplane_map t"
proof -
  have "dataplane_map (DesiredView_Set k v t) = (dataplane_map t)(k := dataplane_map t k)"
    by (rule dt_inv_region [OF assms, of k]; rule map_eq_local)
       (simp_all add: DesiredView_Set_def Let_def region_maps cong: option.case_cong)
  then show ?thesis by simp
qed

lemma desired_map_DesiredView_Delete [map_views]:
  assumes "dt_inv t"
  shows "desired_map (DesiredView_Delete k t) = (desired_map t)(k := None)"
  by (rule dt_inv_region [OF assms, of k]; rule map_eq_local)
     (simp_all add: DesiredView_Delete_def Let_def region_maps cong: option.case_cong)

lemma dataplane_map_DesiredView_Delete [map_views]:
  assumes "dt_inv t"
  shows "dataplane_map (DesiredView_Delete k t) = dataplane_map t"
proof -
  have "dataplane_map (DesiredView_Delete k t) = (dataplane_map t)(k := dataplane_map t k)"
    by (rule dt_inv_region [OF assms, of k]; rule map_eq_local)
       (simp_all add: DesiredView_Delete_def Let_def region_maps cong: option.case_cong)
  then show ?thesis by simp
qed

lemma dataplane_map_DataplaneView_Set [map_views]:
  assumes "dt_inv t"
  shows "dataplane_map (DataplaneView_Set k v t) = (dataplane_map t)(k \<mapsto> v)"
  by (rule dt_inv_region [OF assms, of k]; rule map_eq_local)
     (simp_all add: DataplaneView_Set_def DesiredView_Get_def Let_def region_maps cong: option.case_cong)

lemma desired_map_DataplaneView_Set:
  assumes "dt_inv t"
  shows "desired_map (DataplaneView_Set k v t) = (desired_map t)(k :=
    map_option (\<lambda>d. if valuesEqual t d v then v else d) (desired_map t k))"
  by (rule dt_inv_region [OF assms, of k]; rule map_eq_local)
     (simp_all add: DataplaneView_Set_def DesiredView_Get_def Let_def region_maps cong: option.case_cong)

lemma dataplane_map_DataplaneView_Delete [map_views]:
  assumes "dt_inv t"
  shows "dataplane_map (DataplaneView_Delete k t) = (dataplane_map t)(k := None)"
  by (rule dt_inv_region [OF assms, of k]; rule map_eq_local)
     (simp_all add: DataplaneView_Delete_def DesiredView_Get_def Let_def region_maps cong: option.case_cong)

lemma desired_map_DataplaneView_Delete [map_views]:
  assumes "dt_inv t"
  shows "desired_map (DataplaneView_Delete k t) = desired_map t"
proof -
  have "desired_map (DataplaneView_Delete k t) = (desired_map t)(k := desired_map t k)"
    by (rule dt_inv_region [OF assms, of k]; rule map_eq_local)
       (simp_all add: DataplaneView_Delete_def DesiredView_Get_def Let_def region_maps cong: option.case_cong)
  then show ?thesis by simp
qed

lemma valuesEqual_ops [simp]:
  "valuesEqual (DesiredView_Set k v t) = valuesEqual t"
  "valuesEqual (DesiredView_Delete k t) = valuesEqual t"
  "valuesEqual (DataplaneView_Set k v t) = valuesEqual t"
  "valuesEqual (DataplaneView_Delete k t) = valuesEqual t"
  by (simp_all add: DesiredView_Set_def DesiredView_Delete_def DataplaneView_Set_def
      DataplaneView_Delete_def Let_def split: option.splits)

subsection \<open>Trackers that compare with equality\<close>

definition dt_exact :: "('k, 'v) DeltaTracker \<Rightarrow> bool" where
  "dt_exact t \<longleftrightarrow> dt_inv t \<and> valuesEqual t = (\<lambda>a b. a = b)"

lemma dt_exactD: "dt_exact t \<Longrightarrow> dt_inv t" "dt_exact t \<Longrightarrow> valuesEqual t = (\<lambda>a b. a = b)"
  by (simp_all add: dt_exact_def)

lemma dt_exact_ops:
  assumes "dt_exact t"
  shows "dt_exact (DesiredView_Set k v t)" "dt_exact (DesiredView_Delete k t)"
    "dt_exact (DataplaneView_Set k v t)" "dt_exact (DataplaneView_Delete k t)"
  using assms by (simp_all add: dt_exact_def dt_inv_ops)

lemma desired_map_Set_exact [map_views]:
  "dt_exact t \<Longrightarrow> desired_map (DesiredView_Set k v t) = (desired_map t)(k \<mapsto> v)"
  by (simp add: desired_map_DesiredView_Set dt_exactD split: option.split)

lemma desired_map_DataplaneView_Set_exact [map_views]:
  assumes "dt_exact t"
  shows "desired_map (DataplaneView_Set k v t) = desired_map t"
proof -
  have "map_option (\<lambda>d. if valuesEqual t d v then v else d) (desired_map t k) = desired_map t k"
    using dt_exactD(2) [OF assms] by (cases "desired_map t k") simp_all
  then show ?thesis
    by (simp add: desired_map_DataplaneView_Set dt_exactD(1) [OF assms])
qed

lemma empty_tracker_exact [simp]: "dt_exact empty_tracker"
  by (simp add: dt_exact_def dt_inv_def empty_tracker_def region_ok_def symp_def)

lemma empty_tracker_maps [simp]:
  "desired_map empty_tracker = Map.empty" "dataplane_map empty_tracker = Map.empty"
  by (simp_all add: empty_tracker_def desired_map_def dataplane_map_def)

subsection \<open>Deleting every desired key\<close>

lemma desired_iter_updates_Delete:
  assumes "dt_inv t"
  shows "dt_inv (desired_iter_updates (\<lambda>k v. DesiredView_Delete k) ks t)
    \<and> desired_map (desired_iter_updates (\<lambda>k v. DesiredView_Delete k) ks t)
        = desired_map t |` (- (set ks \<inter> dom (desiredUpdates t)))
    \<and> dataplane_map (desired_iter_updates (\<lambda>k v. DesiredView_Delete k) ks t) = dataplane_map t"
  using assms
proof (induction ks arbitrary: t)
  case Nil
  then show ?case by simp
next
  case (Cons k ks)
  show ?case
  proof (cases "desiredUpdates t k")
    case None
    then have "set (k # ks) \<inter> dom (desiredUpdates t) = set ks \<inter> dom (desiredUpdates t)"
      by auto
    with None Cons show ?thesis by simp
  next
    case (Some v)
    define t' where "t' = DesiredView_Delete k t"
    have inv': "dt_inv t'"
      using Cons.prems by (simp add: t'_def dt_inv_DesiredView_Delete)
    have "desiredUpdates t' = (desiredUpdates t)(k := None)"
      by (simp add: t'_def DesiredView_Delete_def Let_def fun_upd_idem split: option.split)
    then have "- (set ks \<inter> dom (desiredUpdates t')) - {k} = - (set (k # ks) \<inter> dom (desiredUpdates t))"
      using Some by auto
    moreover have "desired_map t' = desired_map t |` (- {k})"
      using Cons.prems by (simp add: t'_def map_views restrict_map_def fun_eq_iff)
    ultimately have "desired_map t' |` (- (set ks \<inter> dom (desiredUpdates t')))
        = desired_map t |` (- (set (k # ks) \<inter> dom (desiredUpdates t)))"
      by (simp only: restrict_restrict Diff_eq Int_commute)
    moreover have "dataplane_map t' = dataplane_map t"
      using Cons.prems by (simp add: t'_def map_views)
    moreover have "desired_iter_updates (\<lambda>k v. DesiredView_Delete k) (k # ks) t
        = desired_iter_updates (\<lambda>k v. DesiredView_Delete k) ks t'"
      using Some by (simp add: t'_def)
    ultimately show ?thesis
      using Cons.IH [OF inv'] by simp
  qed
qed

lemma desired_iter_rest_Delete:
  assumes "dt_inv t" and "desiredUpdates t = Map.empty"
  shows "dt_inv (desired_iter_rest (\<lambda>k v. DesiredView_Delete k) ks t)
    \<and> desired_map (desired_iter_rest (\<lambda>k v. DesiredView_Delete k) ks t) = desired_map t |` (- set ks)
    \<and> dataplane_map (desired_iter_rest (\<lambda>k v. DesiredView_Delete k) ks t) = dataplane_map t"
  using assms
proof (induction ks arbitrary: t)
  case Nil
  then show ?case by simp
next
  case (Cons k ks)
  show ?case
  proof (cases "inDataplaneAndDesired t k")
    case None
    then have "desired_map t k = None"
      using Cons.prems(2) by (simp add: desired_map_def)
    then have "desired_map t |` (- set ks) = desired_map t |` (- set (k # ks))"
      by (auto simp: restrict_map_def fun_eq_iff)
    with None Cons show ?thesis by simp
  next
    case (Some v)
    define t' where "t' = DesiredView_Delete k t"
    have inv': "dt_inv t'" "desiredUpdates t' = Map.empty"
      using Cons.prems by (simp add: t'_def dt_inv_DesiredView_Delete,
        simp add: t'_def DesiredView_Delete_def Let_def split: option.split)
    have "desired_map t' |` (- set ks) = desired_map t |` (- set (k # ks))"
      using Cons.prems(1) by (auto simp: t'_def map_views restrict_map_def fun_eq_iff)
    moreover have "dataplane_map t' = dataplane_map t"
      using Cons.prems(1) by (simp add: t'_def map_views)
    moreover have "desired_iter_rest (\<lambda>k v. DesiredView_Delete k) (k # ks) t
        = desired_iter_rest (\<lambda>k v. DesiredView_Delete k) ks t'"
      using Some Cons.prems(2) by (simp add: t'_def)
    ultimately show ?thesis
      using Cons.IH [OF inv'] by simp
  qed
qed

lemma DesiredView_DeleteAll_spec:
  assumes inv: "dt_inv t" and "dom (desiredUpdates t) \<subseteq> set ks1"
    and "dom (inDataplaneAndDesired t) \<subseteq> set ks2"
  shows "dt_inv (DesiredView_DeleteAll ks1 ks2 t)"
    and "desired_map (DesiredView_DeleteAll ks1 ks2 t) = Map.empty"
    and "dataplane_map (DesiredView_DeleteAll ks1 ks2 t) = dataplane_map t"
proof -
  define t1 where "t1 = desired_iter_updates (\<lambda>k v. DesiredView_Delete k) ks1 t"
  have t1: "dt_inv t1" "desired_map t1 = desired_map t |` (- dom (desiredUpdates t))"
      "dataplane_map t1 = dataplane_map t"
    using desired_iter_updates_Delete [OF inv, of ks1] assms(2)
    by (simp_all add: t1_def Int_absorb1)
  have dom1: "dom (desired_map t1) \<subseteq> set ks2 - dom (desiredUpdates t)"
    using assms(3) unfolding t1(2) by (auto simp: dom_desired_map)
  have upd1: "desiredUpdates t1 = Map.empty"
  proof -
    have "desiredUpdates t1 k = None" for k
    proof (rule ccontr)
      assume k: "desiredUpdates t1 k \<noteq> None"
      then have "k \<notin> dom (desiredUpdates t)"
        using dom1 by (auto simp: dom_desired_map)
      moreover have "dom (desiredUpdates (desired_iter_updates (\<lambda>k v. DesiredView_Delete k) ks t))
          \<subseteq> dom (desiredUpdates t)" for ks
      proof (induction ks arbitrary: t)
        case (Cons k ks)
        have "dom (desiredUpdates (DesiredView_Delete k t)) \<subseteq> dom (desiredUpdates t)"
          by (auto simp: DesiredView_Delete_def Let_def split: option.split)
        with Cons show ?case by (auto split: option.split) blast
      qed simp
      ultimately show False
        using k by (auto simp: t1_def)
    qed
    then show ?thesis by auto
  qed
  have "desired_map t1 |` (- set ks2) = Map.empty"
    using dom1 by (auto simp: restrict_map_def fun_eq_iff domIff)
  with desired_iter_rest_Delete [OF t1(1) upd1, of ks2] t1(3)
  show "dt_inv (DesiredView_DeleteAll ks1 ks2 t)"
    "desired_map (DesiredView_DeleteAll ks1 ks2 t) = Map.empty"
    "dataplane_map (DesiredView_DeleteAll ks1 ks2 t) = dataplane_map t"
    by (simp_all add: DesiredView_DeleteAll_def DesiredView_Iter_def t1_def)
qed

subsection \<open>Resynchronisation with the dataplane\<close>

text \<open>
  While \<^verbatim>\<open>ReplaceAllIter\<close> runs, the tracker that the error path would leave
  behind, old entries not yet seen together with the new ones, is an ordinary tracker to which
  each pair has been reported with \<^verbatim>\<open>Dataplane().Set\<close>.
\<close>

definition replace_combine :: "('k, 'v) replace_state \<Rightarrow> ('k, 'v) DeltaTracker" where
  "replace_combine = (\<lambda>(t, nA, nN).
     t\<lparr>inDataplaneAndDesired := inDataplaneAndDesired t ++ nA,
       inDataplaneNotDesired := inDataplaneNotDesired t ++ nN\<rparr>)"

definition replace_inv :: "'k set \<Rightarrow> ('k, 'v) replace_state \<Rightarrow> bool" where
  "replace_inv S = (\<lambda>(t, nA, nN).
     dom nA \<union> dom nN = S \<and> dt_inv (replace_combine (t, nA, nN))
     \<and> dom (inDataplaneAndDesired t) \<inter> S = {} \<and> dom (inDataplaneNotDesired t) \<inter> S = {})"

lemma replace_step_combine:
  assumes inv: "replace_inv S st" and k: "k \<notin> S"
  shows "replace_combine (replace_step (k, v) st) = DataplaneView_Set k v (replace_combine st)"
    and "replace_inv (insert k S) (replace_step (k, v) st)"
proof -
  obtain t nA nN where st: "st = (t, nA, nN)" by (cases st)
  have new: "nA k = None" "nN k = None"
    using inv k by (auto simp: st replace_inv_def)
  define c where "c = replace_combine st"
  have c: "inDataplaneAndDesired c = inDataplaneAndDesired t ++ nA"
      "inDataplaneNotDesired c = inDataplaneNotDesired t ++ nN"
      "desiredUpdates c = desiredUpdates t" "desiredLen c = desiredLen t" "valuesEqual c = valuesEqual t"
    by (simp_all add: c_def st replace_combine_def)
  have "dt_inv c"
    using inv by (simp add: c_def st replace_inv_def)
  then show eq: "replace_combine (replace_step (k, v) st) = DataplaneView_Set k v c"
    by (rule dt_inv_region [of c k])
       (auto simp: c st new replace_combine_def replace_step_def DataplaneView_Set_def
          DesiredView_Get_def Let_def map_add_def fun_eq_iff intro!: DeltaTracker.equality
          split: option.splits)
  have "dt_inv (replace_combine (replace_step (k, v) st))"
    unfolding eq using \<open>dt_inv c\<close> by (rule dt_inv_DataplaneView_Set)
  then show "replace_inv (insert k S) (replace_step (k, v) st)"
    using inv unfolding st replace_inv_def
    by (auto simp: replace_step_def Let_def split: option.splits)
qed

lemma fold_replace_step:
  assumes "replace_inv S st" and "distinct (map fst kvs)" and "fst ` set kvs \<inter> S = {}"
  shows "replace_inv (S \<union> fst ` set kvs) (fold replace_step kvs st)
    \<and> replace_combine (fold replace_step kvs st)
        = fold (\<lambda>(k, v). DataplaneView_Set k v) kvs (replace_combine st)"
  using assms
proof (induction kvs arbitrary: S st)
  case Nil
  then show ?case by simp
next
  case (Cons kv kvs)
  obtain k v where kv: "kv = (k, v)" by (cases kv)
  have "k \<notin> S" using Cons.prems(3) by (simp add: kv)
  note step = replace_step_combine [OF Cons.prems(1) this, of v]
  have "distinct (map fst kvs)" "fst ` set kvs \<inter> insert k S = {}"
    using Cons.prems(2,3) by (auto simp: kv)
  from Cons.IH [OF step(2) this] show ?case
    by (simp add: kv step(1))
qed

lemma replace_missing_maps:
  "inDataplaneAndDesired (replace_missing ks t) = inDataplaneAndDesired t |` (- set ks)"
  "inDataplaneNotDesired (replace_missing ks t) = inDataplaneNotDesired t"
  "desiredUpdates (replace_missing ks t) = (\<lambda>k.
     if k \<in> set ks \<and> inDataplaneAndDesired t k \<noteq> None then desired_map t k else desiredUpdates t k)"
  "desiredLen (replace_missing ks t) = desiredLen t"
  "valuesEqual (replace_missing ks t) = valuesEqual t"
proof (induction ks arbitrary: t)
  case Nil
  {
    case 1
    then show ?case by simp
  next
    case 2
    then show ?case by simp
  next
    case 3
    then show ?case by simp
  next
    case 4
    then show ?case by simp
  next
    case 5
    then show ?case by simp
  }
next
  case (Cons k ks)
  {
    case 1
    then show ?case
      using Cons.IH(1) by (auto simp: restrict_map_def fun_eq_iff split: option.split)
  next
    case 2
    then show ?case
      using Cons.IH(2) by (auto split: option.split)
  next
    case 3
    then show ?case
      using Cons.IH(3)
      by (auto simp: DesiredView_Get_eq region_maps fun_eq_iff split: option.split)
  next
    case 4
    then show ?case
      using Cons.IH(4) by (auto split: option.split)
  next
    case 5
    then show ?case
      using Cons.IH(5) by (auto split: option.split)
  }
qed

lemma replace_finish:
  assumes inv: "replace_inv S (t, nA, nN)" and ks: "dom (inDataplaneAndDesired t) \<subseteq> set ks"
  defines "f \<equiv> (replace_missing ks t)\<lparr>inDataplaneAndDesired := nA, inDataplaneNotDesired := nN\<rparr>"
  shows "dt_inv f" and "desired_map f = desired_map (replace_combine (t, nA, nN))"
    and "dataplane_map f = dataplane_map (replace_combine (t, nA, nN)) |` S"
    and "valuesEqual f = valuesEqual t"
proof -
  define c where "c = replace_combine (t, nA, nN)"
  have invc: "dt_inv c" and S: "dom nA \<union> dom nN = S"
    and old: "\<And>k. k \<in> S \<Longrightarrow> inDataplaneAndDesired t k = None" "\<And>k. k \<in> S \<Longrightarrow> inDataplaneNotDesired t k = None"
    using inv by (auto simp: replace_inv_def c_def)
  have c: "inDataplaneAndDesired c = inDataplaneAndDesired t ++ nA"
      "inDataplaneNotDesired c = inDataplaneNotDesired t ++ nN"
      "desiredUpdates c = desiredUpdates t" "desiredLen c = desiredLen t" "valuesEqual c = valuesEqual t"
    by (simp_all add: c_def replace_combine_def)
  have U: "desiredUpdates f k
      = (if inDataplaneAndDesired t k \<noteq> None then desired_map t k else desiredUpdates t k)" for k
    using ks by (auto simp: f_def replace_missing_maps)
  have f: "inDataplaneAndDesired f = nA" "inDataplaneNotDesired f = nN" "desiredLen f = desiredLen t"
      "valuesEqual f = valuesEqual t"
    by (simp_all add: f_def replace_missing_maps)
  have new: "nA k = None" "nN k = None" if "inDataplaneAndDesired t k \<noteq> None" for k
    using old(1) [of k] S that by (auto simp: domIff)
  have des: "desired_map f k = desired_map c k" for k
    by (cases "inDataplaneAndDesired t k"; cases "desiredUpdates t k")
       (simp_all add: region_maps f U c new split: option.split)
  then show "desired_map f = desired_map (replace_combine (t, nA, nN))"
    unfolding c_def by (rule ext)
  show "valuesEqual f = valuesEqual t" by (fact f(4))
  have reg: "region_ok (valuesEqual f) (inDataplaneAndDesired f k) (inDataplaneNotDesired f k)
      (desiredUpdates f k)" for k
  proof (cases "inDataplaneAndDesired t k")
    case None
    have "region_ok (valuesEqual t) (inDataplaneAndDesired c k) (inDataplaneNotDesired c k) (desiredUpdates c k)"
      using invc by (simp add: dt_inv_def c)
    with None show ?thesis
      by (auto simp: f U c map_add_def region_ok_def split: option.splits)
  next
    case (Some a)
    with new [of k] show ?thesis by (simp add: f U region_ok_def)
  qed
  have fin: "finite (dom nA)" "finite (dom nN)"
      "finite (dom (inDataplaneAndDesired t))" "finite (dom (desiredUpdates t))"
    using invc by (simp_all add: dt_inv_def c)
  have "dom (desiredUpdates f) \<subseteq> dom (inDataplaneAndDesired t) \<union> dom (desiredUpdates t)"
    by (auto simp: U)
  with fin have "finite (dom (desiredUpdates f))"
    by (meson finite_UnI finite_subset)
  moreover have "desired_map f = desired_map c"
    using des by (rule ext)
  then have "desiredLen f = int (card (dom (desired_map f)))"
    using dt_len [OF invc] by (simp add: f c)
  moreover have "symp (valuesEqual f)"
    using invc by (simp add: dt_inv_def f c)
  ultimately show "dt_inv f"
    unfolding dt_inv_def dom_desired_map [symmetric] using reg fin by (simp add: f)
  show "dataplane_map f = dataplane_map (replace_combine (t, nA, nN)) |` S"
  proof
    fix k
    show "dataplane_map f k = (dataplane_map (replace_combine (t, nA, nN)) |` S) k"
      using old S
      by (cases "k \<in> S") (auto simp: region_maps f replace_combine_def split: option.split)
  qed
qed

lemma fold_DataplaneView_Set:
  assumes "dt_inv t"
  shows "dt_inv (fold (\<lambda>(k, v). DataplaneView_Set k v) kvs t)
    \<and> valuesEqual (fold (\<lambda>(k, v). DataplaneView_Set k v) kvs t) = valuesEqual t
    \<and> dataplane_map (fold (\<lambda>(k, v). DataplaneView_Set k v) kvs t) = dataplane_map t ++ map_of (rev kvs)
    \<and> (dt_exact t \<longrightarrow> desired_map (fold (\<lambda>(k, v). DataplaneView_Set k v) kvs t) = desired_map t)"
  using assms
proof (induction kvs arbitrary: t)
  case Nil
  then show ?case by simp
next
  case (Cons kv kvs)
  obtain k v where kv: "kv = (k, v)" by (cases kv)
  note inv' = dt_inv_DataplaneView_Set [OF Cons.prems, of k v]
  have "(dataplane_map t)(k \<mapsto> v) ++ map_of (rev kvs) = dataplane_map t ++ map_of (rev (kv # kvs))"
    by (auto simp: kv map_add_def fun_eq_iff split: option.split)
  moreover have "dataplane_map (DataplaneView_Set k v t) = (dataplane_map t)(k \<mapsto> v)"
    using Cons.prems by (rule dataplane_map_DataplaneView_Set)
  moreover have "dt_exact (DataplaneView_Set k v t)
      \<and> desired_map (DataplaneView_Set k v t) = desired_map t" if "dt_exact t"
    using that by (simp add: dt_exact_ops desired_map_DataplaneView_Set_exact)
  ultimately show ?case
    using Cons.IH [OF inv'] by (simp only: kv fold_Cons o_apply prod.case valuesEqual_ops) simp
qed

lemma replace_inv_start:
  "dt_inv t \<Longrightarrow> replace_inv {} (t, Map.empty, Map.empty)"
  "replace_combine (t, Map.empty, Map.empty) = t"
  by (simp_all add: replace_inv_def replace_combine_def)

lemma ReplaceAllIter_error:
  assumes "dt_inv t" and "distinct (map fst kvs)"
  shows "DataplaneView_ReplaceAllIter kvs (Some e) ks t
    = (Some e, fold (\<lambda>(k, v). DataplaneView_Set k v) kvs t)"
proof -
  have "replace_combine (fold replace_step kvs (t, Map.empty, Map.empty))
      = fold (\<lambda>(k, v). DataplaneView_Set k v) kvs t"
    using fold_replace_step [OF replace_inv_start(1) [OF assms(1)] assms(2)]
    by (simp add: replace_inv_start(2))
  then show ?thesis
    by (auto simp: DataplaneView_ReplaceAllIter_def replace_combine_def split: prod.splits)
qed

lemma ReplaceAllIter_ok:
  assumes inv: "dt_inv t" and dist: "distinct (map fst kvs)"
    and ks: "dom (inDataplaneAndDesired t) \<subseteq> set ks"
    and run: "DataplaneView_ReplaceAllIter kvs None ks t = (err, t')"
  shows "err = None" and "dt_inv t'" and "valuesEqual t' = valuesEqual t"
    and "dataplane_map t' = map_of kvs"
    and "dt_exact t \<Longrightarrow> desired_map t' = desired_map t"
proof -
  obtain s nA nN where st: "fold replace_step kvs (t, Map.empty, Map.empty) = (s, nA, nN)"
    by (cases "fold replace_step kvs (t, Map.empty, Map.empty)")
  have ri: "replace_inv (fst ` set kvs) (s, nA, nN)"
    and rc: "replace_combine (s, nA, nN) = fold (\<lambda>(k, v). DataplaneView_Set k v) kvs t"
    using fold_replace_step [OF replace_inv_start(1) [OF inv] dist]
    by (simp_all add: st replace_inv_start(2))
  have "dom (inDataplaneAndDesired (fst (fold replace_step kvs (u, mA, mN)))) \<subseteq> dom (inDataplaneAndDesired u)"
    for u :: "('a, 'b) DeltaTracker" and mA mN
  proof (induction kvs arbitrary: u mA mN)
    case (Cons kv kvs)
    obtain u' mA' mN' where st': "replace_step kv (u, mA, mN) = (u', mA', mN')"
      by (cases "replace_step kv (u, mA, mN)")
    have "dom (inDataplaneAndDesired u') \<subseteq> dom (inDataplaneAndDesired u)"
      using st' by (cases kv) (auto simp: replace_step_def Let_def split: option.splits if_splits)
    with Cons [of u' mA' mN'] show ?case by (simp add: st')
  qed simp
  from this [of t Map.empty Map.empty] ks have ks': "dom (inDataplaneAndDesired s) \<subseteq> set ks"
    by (simp add: st)
  have t': "t' = (replace_missing ks s)\<lparr>inDataplaneAndDesired := nA, inDataplaneNotDesired := nN\<rparr>"
    and err: "err = None"
    using run by (simp_all add: DataplaneView_ReplaceAllIter_def st)
  show "err = None" by (fact err)
  note fin = replace_finish [OF ri ks']
  note sets = fold_DataplaneView_Set [OF inv, of kvs]
  show "dt_inv t'" unfolding t' by (fact fin(1))
  have "valuesEqual (replace_combine (s, nA, nN)) = valuesEqual s"
    by (simp add: replace_combine_def)
  with fin(4) sets show "valuesEqual t' = valuesEqual t"
    unfolding t' by (simp add: rc)
  have "(dataplane_map t ++ map_of (rev kvs)) |` (fst ` set kvs) = map_of kvs"
  proof -
    have "map_of (rev kvs) = map_of kvs"
      by (rule map_of_inject_set [THEN iffD2]) (use dist in \<open>simp_all add: rev_map [symmetric]\<close>)
    then show ?thesis
      by (auto simp: restrict_map_def fun_eq_iff map_add_def dom_map_of_conv_image_fst [symmetric]
          split: option.splits)
  qed
  with fin(3) sets show "dataplane_map t' = map_of kvs"
    unfolding t' by (simp add: rc)
  show "desired_map t' = desired_map t" if "dt_exact t"
    using fin(2) sets that unfolding t' by (simp add: rc)
qed

lemma map_entries_simps [simp]:
  "map_entries [] m = []"
  "map_entries (k # ks) m = (case m k of None \<Rightarrow> map_entries ks m | Some v \<Rightarrow> (k, v) # map_entries ks m)"
  by (simp_all add: map_entries_def map_filter_simps split: option.split)

lemma map_entries_keys:
  "fst ` set (map_entries ks m) = set ks \<inter> dom m"
  "distinct ks \<Longrightarrow> distinct (map fst (map_entries ks m))"
proof -
  show keys: "fst ` set (map_entries ks m) = set ks \<inter> dom m" for ks
    by (induction ks) (auto split: option.splits)
  show "distinct (map fst (map_entries ks m))" if "distinct ks"
    using that by (induction ks) (auto simp: keys split: option.split)
qed

lemma map_of_map_entries: "map_of (map_entries ks m) = m |` set ks"
  by (induction ks) (auto simp: restrict_map_def fun_eq_iff split: option.splits)

lemma restrict_map_visits: "visits ks m \<Longrightarrow> m |` set ks = m"
  unfolding visits_def restrict_map_def by (rule ext) (metis domIff subsetD)

text \<open>A snapshot of the dataplane replaces the dataplane map and leaves the desired map alone.\<close>

lemma ReplaceAllMap_spec:
  assumes inv: "dt_inv t" and ks1: "visits ks1 dpKVs" and ks2: "visits ks2 (inDataplaneAndDesired t)"
  shows "dt_inv (DataplaneView_ReplaceAllMap dpKVs ks1 ks2 t)"
    and "valuesEqual (DataplaneView_ReplaceAllMap dpKVs ks1 ks2 t) = valuesEqual t"
    and "dataplane_map (DataplaneView_ReplaceAllMap dpKVs ks1 ks2 t) = dpKVs"
    and "dt_exact t \<Longrightarrow> desired_map (DataplaneView_ReplaceAllMap dpKVs ks1 ks2 t) = desired_map t"
proof -
  obtain err t' where run: "DataplaneView_ReplaceAllIter (map_entries ks1 dpKVs) (None :: unit option) ks2 t = (err, t')"
    by (cases "DataplaneView_ReplaceAllIter (map_entries ks1 dpKVs) (None :: unit option) ks2 t")
  have "distinct (map fst (map_entries ks1 dpKVs))" and "dom (inDataplaneAndDesired t) \<subseteq> set ks2"
    using ks1 ks2 by (simp_all add: visits_def map_entries_keys)
  note spec = ReplaceAllIter_ok [OF inv this run]
  show "dt_inv (DataplaneView_ReplaceAllMap dpKVs ks1 ks2 t)"
    "valuesEqual (DataplaneView_ReplaceAllMap dpKVs ks1 ks2 t) = valuesEqual t"
    "dataplane_map (DataplaneView_ReplaceAllMap dpKVs ks1 ks2 t) = dpKVs"
    "dt_exact t \<Longrightarrow> desired_map (DataplaneView_ReplaceAllMap dpKVs ks1 ks2 t) = desired_map t"
    using spec ks1
    by (simp_all add: DataplaneView_ReplaceAllMap_def run map_of_map_entries restrict_map_visits)
qed

lemma DataplaneView_DeleteAll_spec:
  assumes "dt_inv t" and "visits ks (inDataplaneAndDesired t)"
  shows "dt_inv (DataplaneView_DeleteAll ks t)"
    and "valuesEqual (DataplaneView_DeleteAll ks t) = valuesEqual t"
    and "dataplane_map (DataplaneView_DeleteAll ks t) = Map.empty"
    and "dt_exact t \<Longrightarrow> desired_map (DataplaneView_DeleteAll ks t) = desired_map t"
  using ReplaceAllMap_spec [OF assms(1) _ assms(2), of "[]" Map.empty]
  by (simp_all add: DataplaneView_DeleteAll_def visits_def)

end
