(* ===== verification/Pending_Views.thy ===== *)
theory Pending_Views
  imports Delta_Tracker
begin

text \<open>
  Iterating over the pending updates and the pending deletions of a delta tracker, one key at a
  time (\<^verbatim>\<open>Iter\<close>) and in batches of 128 (\<^verbatim>\<open>IterBatched\<close>), from
  \<^verbatim>\<open>felix/deltatracker/delta_tracker.go\<close>. The two views have the same loops and
  differ in the map they range over and in what they do with an applied entry, so the loops are
  defined once over these two operations. What the loops need of them is the locale
  \<open>pending_view\<close>, which both views satisfy.
\<close>

section \<open>The loops\<close>

datatype IterAction = IterActionNoOp | IterActionUpdateDataplane | IterActionNoOpStopIteration

text \<open>
  The callback of a loop carries its own state \<open>'s\<close> (the dataplane and the errors it has
  collected). The \<^verbatim>\<open>break\<close> that answers
  \<^const>\<open>IterActionNoOpStopIteration\<close> leaves the \<^verbatim>\<open>switch\<close>, not the
  loop, so the loop goes on.
\<close>

fun iter_pending ::
  "('t \<Rightarrow> 'k \<Rightarrow> 'x option) \<Rightarrow> ('x \<Rightarrow> 't \<Rightarrow> 't) \<Rightarrow> ('x \<Rightarrow> 's \<Rightarrow> IterAction \<times> 's)
   \<Rightarrow> 'k list \<Rightarrow> 't \<Rightarrow> 's \<Rightarrow> 't \<times> 's" where
  "iter_pending sel commit f [] t s = (t, s)"
| "iter_pending sel commit f (k # ks) t s =
     (case sel t k of
        None \<Rightarrow> iter_pending sel commit f ks t s
      | Some x \<Rightarrow>
          (case f x s of
             (IterActionNoOp, s') \<Rightarrow> iter_pending sel commit f ks t s'
           | (IterActionUpdateDataplane, s') \<Rightarrow> iter_pending sel commit f ks (commit x t) s'
           | (IterActionNoOpStopIteration, s') \<Rightarrow> iter_pending sel commit f ks t s'))"

definition batchSize :: nat where
  "batchSize = 128"

type_synonym ('x, 'e, 's) applyFn = "'x list \<Rightarrow> 's \<Rightarrow> (nat \<times> 'e option) \<times> 's"

definition batch_call ::
  "('x, 'e, 's) applyFn \<Rightarrow> ('x \<Rightarrow> 't \<Rightarrow> 't) \<Rightarrow> 'x list \<Rightarrow> 't \<Rightarrow> 's \<Rightarrow> ('t \<times> nat \<times> 's) run" where
  "batch_call applyFn commit xs t s =
     (case applyFn xs s of
        ((applied, err), s') \<Rightarrow>
          if length xs < applied then Panic
          else Return (fold commit (take applied xs) t,
                       if err \<noteq> None then applied + 1 else applied, s'))"

fun batch_fill ::
  "('t \<Rightarrow> 'k \<Rightarrow> 'x option) \<Rightarrow> ('x \<Rightarrow> 't \<Rightarrow> 't) \<Rightarrow> ('x, 'e, 's) applyFn
   \<Rightarrow> 'k list \<Rightarrow> 'x list \<Rightarrow> int \<Rightarrow> 't \<Rightarrow> 's \<Rightarrow> ('x list \<times> int \<times> 't \<times> 's) run" where
  "batch_fill sel commit f [] xs count t s = Return (xs, count, t, s)"
| "batch_fill sel commit f (k # ks) xs count t s =
     (case sel t k of
        None \<Rightarrow> batch_fill sel commit f ks xs count t s
      | Some x \<Rightarrow>
          (let xs = xs @ [x]; count = count + 1
           in if count = int batchSize then
                (case batch_call f commit xs t s of
                   Return (t', applied, s') \<Rightarrow>
                     (let count = int batchSize - int applied
                      in if count = 0 then batch_fill sel commit f ks [] count t' s'
                         else if length xs < applied then Panic
                         else batch_fill sel commit f ks (drop applied xs) count t' s')
                 | Panic \<Rightarrow> Panic
                 | NoFuel \<Rightarrow> NoFuel)
              else batch_fill sel commit f ks xs count t s))"

fun batch_drain ::
  "('x \<Rightarrow> 't \<Rightarrow> 't) \<Rightarrow> ('x, 'e, 's) applyFn \<Rightarrow> nat \<Rightarrow> 'x list \<Rightarrow> int \<Rightarrow> 't \<Rightarrow> 's \<Rightarrow> ('t \<times> 's) run" where
  "batch_drain commit f fuel xs count t s =
     (if count > 0 then
        (case fuel of
           0 \<Rightarrow> NoFuel
         | Suc fuel' \<Rightarrow>
             (case batch_call f commit xs t s of
                Return (t', applied, s') \<Rightarrow>
                  if length xs < applied then Panic
                  else batch_drain commit f fuel' (drop applied xs) (count - int applied) t' s'
              | Panic \<Rightarrow> Panic
              | NoFuel \<Rightarrow> NoFuel))
      else Return (t, s))"

declare batch_drain.simps [simp del]

text \<open>Every pass of the last loop that makes progress takes an entry out of the batch, so its
  fuel is the length of the batch.\<close>

definition iter_batched ::
  "('t \<Rightarrow> 'k \<Rightarrow> 'x option) \<Rightarrow> ('x \<Rightarrow> 't \<Rightarrow> 't) \<Rightarrow> ('x, 'e, 's) applyFn
   \<Rightarrow> 'k list \<Rightarrow> 't \<Rightarrow> 's \<Rightarrow> ('t \<times> 's) run" where
  "iter_batched sel commit f ks t s =
     (case batch_fill sel commit f ks [] 0 t s of
        Return (xs, count, t', s') \<Rightarrow> batch_drain commit f (length xs) xs count t' s'
      | Panic \<Rightarrow> Panic
      | NoFuel \<Rightarrow> NoFuel)"

subsection \<open>The two views\<close>

definition pending_update :: "('k, 'v) DeltaTracker \<Rightarrow> 'k \<Rightarrow> ('k \<times> 'v) option" where
  "pending_update t k = map_option (Pair k) (desiredUpdates t k)"

definition commit_update :: "'k \<times> 'v \<Rightarrow> ('k, 'v) DeltaTracker \<Rightarrow> ('k, 'v) DeltaTracker" where
  "commit_update = (\<lambda>(k, v) t.
     t\<lparr>desiredUpdates := (desiredUpdates t)(k := None),
       inDataplaneAndDesired := (inDataplaneAndDesired t)(k \<mapsto> v)\<rparr>)"

definition pending_deletion :: "('k, 'v) DeltaTracker \<Rightarrow> 'k \<Rightarrow> 'k option" where
  "pending_deletion t k = map_option (\<lambda>_. k) (inDataplaneNotDesired t k)"

definition commit_deletion :: "'k \<Rightarrow> ('k, 'v) DeltaTracker \<Rightarrow> ('k, 'v) DeltaTracker" where
  "commit_deletion k t = t\<lparr>inDataplaneNotDesired := (inDataplaneNotDesired t)(k := None)\<rparr>"

definition PendingUpdatesView_Iter ::
  "('k \<Rightarrow> 'v \<Rightarrow> 's \<Rightarrow> IterAction \<times> 's) \<Rightarrow> 'k list \<Rightarrow> ('k, 'v) DeltaTracker \<Rightarrow> 's
   \<Rightarrow> ('k, 'v) DeltaTracker \<times> 's" where
  "PendingUpdatesView_Iter f = iter_pending pending_update commit_update (\<lambda>(k, v). f k v)"

definition PendingDeletionsView_Iter ::
  "('k \<Rightarrow> 's \<Rightarrow> IterAction \<times> 's) \<Rightarrow> 'k list \<Rightarrow> ('k, 'v) DeltaTracker \<Rightarrow> 's
   \<Rightarrow> ('k, 'v) DeltaTracker \<times> 's" where
  "PendingDeletionsView_Iter f = iter_pending pending_deletion commit_deletion f"

definition PendingUpdatesView_IterBatched ::
  "('k list \<Rightarrow> 'v list \<Rightarrow> 's \<Rightarrow> (nat \<times> 'e option) \<times> 's) \<Rightarrow> 'k list \<Rightarrow> ('k, 'v) DeltaTracker \<Rightarrow> 's
   \<Rightarrow> (('k, 'v) DeltaTracker \<times> 's) run" where
  "PendingUpdatesView_IterBatched applyFn =
     iter_batched pending_update commit_update (\<lambda>xs. applyFn (map fst xs) (map snd xs))"

definition PendingDeletionsView_IterBatched ::
  "('k list \<Rightarrow> 's \<Rightarrow> (nat \<times> 'e option) \<times> 's) \<Rightarrow> 'k list \<Rightarrow> ('k, 'v) DeltaTracker \<Rightarrow> 's
   \<Rightarrow> (('k, 'v) DeltaTracker \<times> 's) run" where
  "PendingDeletionsView_IterBatched applyFn = iter_batched pending_deletion commit_deletion applyFn"

section \<open>The loops return\<close>

text \<open>
  What the batched loops ask of \<^verbatim>\<open>applyFn\<close>: it reports at most the entries it was
  given; an error is about an entry it did not report; without an error it makes progress. It may
  rely on, and has to keep, a condition \<open>P\<close> on its own state.
\<close>

definition batch_contract :: "('s \<Rightarrow> bool) \<Rightarrow> ('x, 'e, 's) applyFn \<Rightarrow> bool" where
  "batch_contract P f \<longleftrightarrow>
     (\<forall>xs s n e s'. P s \<and> xs \<noteq> [] \<and> f xs s = ((n, e), s') \<longrightarrow>
        P s' \<and> (case e of None \<Rightarrow> 0 < n \<and> n \<le> length xs | Some _ \<Rightarrow> n < length xs))"

lemma batch_call_returns:
  assumes "batch_contract P f" and "P s" and "xs \<noteq> []"
  obtains t' applied s' where "batch_call f commit xs t s = Return (t', applied, s')"
    and "0 < applied" and "applied \<le> length xs" and "P s'"
proof -
  obtain n e s' where f: "f xs s = ((n, e), s')" by (metis prod.exhaust)
  with assms have "P s' \<and> (case e of None \<Rightarrow> 0 < n \<and> n \<le> length xs | Some _ \<Rightarrow> n < length xs)"
    unfolding batch_contract_def by blast
  with f that show thesis
    by (cases e) (auto simp: batch_call_def)
qed

lemma batch_drain_returns:
  assumes "batch_contract P f" and "P s" and "length xs \<le> fuel"
  shows "\<exists>t' s'. batch_drain commit f fuel xs (int (length xs)) t s = Return (t', s')"
  using assms(2,3)
proof (induction fuel arbitrary: xs t s)
  case 0
  then show ?case by (simp add: batch_drain.simps)
next
  case (Suc fuel)
  show ?case
  proof (cases "xs = []")
    case True
    then show ?thesis by (simp add: batch_drain.simps)
  next
    case False
    then obtain t' n s' where call: "batch_call f commit xs t s = Return (t', n, s')"
        and n: "0 < n" "n \<le> length xs" and P: "P s'"
      by (rule batch_call_returns [OF assms(1) Suc.prems(1)])
    have "length (drop n xs) \<le> fuel"
      using Suc.prems n by simp
    from Suc.IH [OF P this] False call n show ?thesis
      by (subst batch_drain.simps) (simp add: of_nat_diff)
  qed
qed

lemma batch_fill_returns:
  assumes "batch_contract P f" and "P s" and "length xs < batchSize"
  shows "\<exists>xs' t' s'. P s' \<and> batch_fill sel commit f ks xs (int (length xs)) t s
      = Return (xs', int (length xs'), t', s')"
  using assms(2,3)
proof (induction ks arbitrary: xs t s)
  case Nil
  then show ?case by simp
next
  case (Cons k ks)
  show ?case
  proof (cases "sel t k")
    case None
    with Cons show ?thesis by simp
  next
    case (Some x)
    define ys where "ys = xs @ [x]"
    have len: "int (length xs) + 1 = int (length ys)" by (simp add: ys_def)
    show ?thesis
    proof (cases "length ys = batchSize")
      case False
      then have "length ys < batchSize"
        using Cons.prems by (simp add: ys_def)
      from Cons.IH [OF Cons.prems(1) this, of t] False Some show ?thesis
        by (simp add: len ys_def [symmetric] Let_def)
    next
      case True
      have "ys \<noteq> []" by (simp add: ys_def)
      then obtain t' n s' where call: "batch_call f commit ys t s = Return (t', n, s')"
          and n: "0 < n" "n \<le> length ys" and P: "P s'"
        by (rule batch_call_returns [OF assms(1) Cons.prems(1)])
      have left: "int batchSize - int n = int (length (drop n ys))"
        using n True by (simp add: of_nat_diff)
      have "length (drop n ys) < batchSize"
        using n True by simp
      from Cons.IH [OF P this, of t'] show ?thesis
        using Some True call n left
        by (cases "drop n ys") (simp_all add: len ys_def [symmetric] Let_def)
    qed
  qed
qed

lemma iter_batched_returns:
  assumes "batch_contract P f" and "P s"
  shows "\<exists>t' s'. iter_batched sel commit f ks t s = Return (t', s')"
proof -
  from batch_fill_returns [OF assms, of "[]" sel commit ks t]
  obtain xs' t' s' where P: "P s'"
    and fill: "batch_fill sel commit f ks [] 0 t s = Return (xs', int (length xs'), t', s')"
    by (auto simp: batchSize_def)
  with batch_drain_returns [OF assms(1) P, of xs' "length xs'" commit t'] show ?thesis
    by (simp add: iter_batched_def)
qed

section \<open>What a view promises to the loops\<close>

text \<open>
  The interface between a pending view and the loops over it: reading an entry by its key, and
  committing an entry, which takes exactly that key out of the view. The client's lemmas are an
  invariant rule for each loop and that a loop without errors leaves nothing pending.
\<close>

locale pending_view =
  fixes sel :: "'t \<Rightarrow> 'k \<Rightarrow> 'x option"
    and commit :: "'x \<Rightarrow> 't \<Rightarrow> 't"
    and key :: "'x \<Rightarrow> 'k"
  assumes sel_key: "sel t k = Some x \<Longrightarrow> key x = k"
    and sel_commit_other: "key x \<noteq> k \<Longrightarrow> sel (commit x t) k = sel t k"
    and sel_commit_same: "sel (commit x t) (key x) = None"
begin

definition pend :: "'t \<Rightarrow> 'k set" where
  "pend t = {k. sel t k \<noteq> None}"

definition live :: "'t \<Rightarrow> 'x list \<Rightarrow> bool" where
  "live t xs \<longleftrightarrow> distinct (map key xs) \<and> (\<forall>x \<in> set xs. sel t (key x) = Some x)"

lemma sel_fold_commit:
  "sel (fold commit xs t) k = (if k \<in> key ` set xs then None else sel t k)"
proof (induction xs arbitrary: t)
  case (Cons x xs)
  then show ?case
    using sel_commit_same [of x t] sel_commit_other [of x k t] by auto
qed simp

lemma pend_fold_commit: "pend (fold commit xs t) = pend t - key ` set xs"
  by (auto simp: pend_def sel_fold_commit)

lemma live_append: "live t xs \<Longrightarrow> sel t k = Some x \<Longrightarrow> k \<notin> key ` set xs \<Longrightarrow> live t (xs @ [x])"
  using sel_key [of t k x] by (auto simp: live_def)

lemma live_drop_commit:
  assumes "live t xs" and "n \<le> m"
  shows "live (fold commit (take n xs) t) (drop m xs)"
proof -
  have disj: "key ` set (take n xs) \<inter> key ` set (drop m xs) = {}"
    using assms set_take_disj_set_drop_if_distinct [of "map key xs" n m]
    by (auto simp: live_def take_map drop_map)
  have "set (drop m xs) \<subseteq> set xs" by (rule set_drop_subset)
  with assms(1) disj show ?thesis
    by (auto simp: live_def sel_fold_commit drop_map [symmetric])
qed

lemma live_take: "live t xs \<Longrightarrow> live t (take n xs)"
  using set_take_subset [of n xs] by (auto simp: live_def distinct_take take_map [symmetric])

lemma iter_pending_inv:
  assumes step: "\<And>t s k x. I t s \<Longrightarrow> sel t k = Some x \<Longrightarrow>
      (case f x s of (IterActionUpdateDataplane, s') \<Rightarrow> I (commit x t) s' | (_, s') \<Rightarrow> I t s')"
    and "I t s"
  shows "case iter_pending sel commit f ks t s of (t', s') \<Rightarrow> I t' s'"
  using assms(2)
proof (induction ks arbitrary: t s)
  case Nil
  then show ?case by simp
next
  case (Cons k ks)
  show ?case
  proof (cases "sel t k")
    case None
    with Cons show ?thesis by simp
  next
    case (Some x)
    obtain a s' where f: "f x s = (a, s')" by (cases "f x s")
    from step [OF Cons.prems Some] f Some Cons.IH show ?thesis
      by (cases a) auto
  qed
qed

lemma iter_pending_pend:
  assumes ok: "\<And>x s s' a. f x s = (a, s') \<Longrightarrow> ok s' \<Longrightarrow> a = IterActionUpdateDataplane \<and> ok s"
    and "iter_pending sel commit f ks t s = (t', s')" and "ok s'"
  shows "ok s \<and> pend t' = pend t - set ks"
  using assms(2,3)
proof (induction ks arbitrary: t s)
  case Nil
  then show ?case by simp
next
  case (Cons k ks)
  show ?case
  proof (cases "sel t k")
    case None
    then have "k \<notin> pend t" by (simp add: pend_def)
    moreover have "ok s \<and> pend t' = pend t - set ks"
      using Cons.prems None by (intro Cons.IH) simp_all
    ultimately show ?thesis by auto
  next
    case (Some x)
    obtain a s1 where f: "f x s = (a, s1)" by (cases "f x s")
    define t1 where "t1 = (if a = IterActionUpdateDataplane then commit x t else t)"
    have "iter_pending sel commit f ks t1 s1 = (t', s')"
      using Cons.prems(1) Some f by (cases a) (simp_all add: t1_def)
    then have rest: "ok s1 \<and> pend t' = pend t1 - set ks"
      using Cons.prems(2) by (rule Cons.IH)
    then have a: "a = IterActionUpdateDataplane \<and> ok s"
      using ok [OF f] by blast
    have "key x = k" using Some by (rule sel_key)
    then have "pend t1 = pend t - {k}"
      using pend_fold_commit [of "[x]" t] a by (simp add: t1_def)
    with rest a show ?thesis by auto
  qed
qed

text \<open>
  What the loops need of a batch callback: it \<open>keeps\<close> a relation between tracker and
  callback state when the tracker commits the entries it says it has applied, and the callback
  state \<open>reports\<close> every error (once an error has been recorded the state is never
  \<open>ok\<close> again).
\<close>

definition keeps :: "('x list \<Rightarrow> 's \<Rightarrow> (nat \<times> 'e option) \<times> 's) \<Rightarrow> ('t \<Rightarrow> 's \<Rightarrow> bool) \<Rightarrow> bool" where
  "keeps f I \<longleftrightarrow> (\<forall>xs t s n e s'. I t s \<longrightarrow> live t xs \<longrightarrow> f xs s = ((n, e), s') \<longrightarrow> n \<le> length xs
    \<longrightarrow> I (fold commit (take n xs) t) s')"

definition reports :: "('x list \<Rightarrow> 's \<Rightarrow> (nat \<times> 'e option) \<times> 's) \<Rightarrow> ('s \<Rightarrow> bool) \<Rightarrow> bool" where
  "reports f ok \<longleftrightarrow> (\<forall>xs s n e s'. f xs s = ((n, e), s') \<longrightarrow> ok s' \<longrightarrow> e = None \<and> ok s)"

lemma batch_call_inv:
  assumes step: "keeps f I" and ok: "reports f ok"
    and call: "batch_call f commit xs t s = Return (t', n, s')"
    and "I t s" and live: "live t xs"
  shows "I t' s'" and "live t' (drop n xs)"
    and "ok s' \<Longrightarrow> ok s \<and> pend t' = pend t - key ` set (take n xs)"
proof -
  obtain m e where f: "f xs s = ((m, e), s')" and m: "m \<le> length xs"
    and t': "t' = fold commit (take m xs) t" and n: "n = (if e \<noteq> None then m + 1 else m)"
    using call by (auto simp: batch_call_def split: prod.splits if_splits)
  show "I t' s'"
    unfolding t' using step assms(4) live f m by (simp add: keeps_def)
  show "live t' (drop n xs)"
    unfolding t' using live n by (intro live_drop_commit) auto
  show "ok s \<and> pend t' = pend t - key ` set (take n xs)" if "ok s'"
    using ok f that n by (auto simp: reports_def t' pend_fold_commit)
qed

lemma batch_fill_inv:
  assumes step: "keeps f I" and ok: "reports f ok"
    and "batch_fill sel commit f ks xs (int (length xs)) t s = Return (xs', count', t', s')"
    and "I t s" and "live t xs" and "distinct ks" and "key ` set xs \<inter> set ks = {}"
  shows "I t' s' \<and> live t' xs' \<and> count' = int (length xs')
    \<and> (ok s' \<longrightarrow> ok s \<and> (pend t \<subseteq> key ` set xs \<union> set ks \<longrightarrow> pend t' \<subseteq> key ` set xs'))"
  using assms(3-7)
proof (induction ks arbitrary: xs t s)
  case Nil
  then show ?case by auto
next
  case (Cons k ks)
  show ?case
  proof (cases "sel t k")
    case None
    have "k \<notin> pend t" using None by (simp add: pend_def)
    moreover have "I t' s' \<and> live t' xs' \<and> count' = int (length xs')
        \<and> (ok s' \<longrightarrow> ok s \<and> (pend t \<subseteq> key ` set xs \<union> set ks \<longrightarrow> pend t' \<subseteq> key ` set xs'))"
      using Cons.prems None by (intro Cons.IH) auto
    ultimately show ?thesis by auto
  next
    case (Some x)
    define ys where "ys = xs @ [x]"
    have key: "key x = k" using Some by (rule sel_key)
    have live: "live t ys"
      unfolding ys_def using Cons.prems(3,5) Some by (intro live_append) auto
    have ys: "key ` set ys = insert k (key ` set xs)" by (auto simp: ys_def key)
    have len: "int (length xs) + 1 = int (length ys)" by (simp add: ys_def)
    have dist: "distinct ks" "key ` set ys \<inter> set ks = {}"
      using Cons.prems(4,5) by (auto simp: ys)
    show ?thesis
    proof (cases "length ys = batchSize")
      case False
      then have "batch_fill sel commit f ks ys (int (length ys)) t s = Return (xs', count', t', s')"
        using Cons.prems(1) Some by (simp add: len ys_def [symmetric] Let_def)
      from Cons.IH [OF this Cons.prems(2) live dist] show ?thesis
        by (simp add: ys)
    next
      case True
      then obtain t1 n s1 where call: "batch_call f commit ys t s = Return (t1, n, s1)"
        using Cons.prems(1) Some
        by (cases "batch_call f commit ys t s") (auto simp: len ys_def [symmetric] Let_def)
      then have rest: "batch_fill sel commit f ks (drop n ys) (int (length (drop n ys))) t1 s1
          = Return (xs', count', t', s')"
        using Cons.prems(1) Some True
        by (cases "length ys < n"; cases "length ys = n")
           (auto simp: len ys_def [symmetric] Let_def of_nat_diff)
      note called = batch_call_inv [OF step ok call Cons.prems(2) live]
      have "key ` set (drop n ys) \<inter> set ks = {}"
        using dist(2) set_drop_subset [of n ys] by blast
      from Cons.IH [OF rest called(1,2) dist(1) this]
      have IH: "I t' s' \<and> live t' xs' \<and> count' = int (length xs')"
        "ok s' \<Longrightarrow> ok s1 \<and> (pend t1 \<subseteq> key ` set (drop n ys) \<union> set ks \<longrightarrow> pend t' \<subseteq> key ` set xs')"
        by auto
      have "ok s \<and> (pend t \<subseteq> key ` set xs \<union> set (k # ks) \<longrightarrow> pend t' \<subseteq> key ` set xs')" if "ok s'"
      proof -
        have ok1: "ok s1" using IH(2) that by blast
        have "set ys = set (take n ys) \<union> set (drop n ys)"
          by (metis append_take_drop_id set_append)
        then have "pend t1 \<subseteq> key ` set (drop n ys) \<union> set ks" if "pend t \<subseteq> key ` set ys \<union> set ks"
          using called(3) [OF ok1] that by auto
        with IH(2) [OF that] called(3) [OF ok1] show ?thesis by (simp add: ys)
      qed
      with IH(1) show ?thesis by blast
    qed
  qed
qed

lemma batch_drain_inv:
  assumes step: "keeps f I" and ok: "reports f ok"
    and "batch_drain commit f fuel xs (int (length xs)) t s = Return (t', s')"
    and "I t s" and "live t xs"
  shows "I t' s' \<and> (ok s' \<longrightarrow> ok s \<and> (pend t \<subseteq> key ` set xs \<longrightarrow> pend t' = {}))"
  using assms(3-5)
proof (induction fuel arbitrary: xs t s)
  case 0
  then show ?case by (auto simp: batch_drain.simps split: if_splits)
next
  case (Suc fuel)
  show ?case
  proof (cases "xs = []")
    case True
    with Suc.prems show ?thesis by (auto simp: batch_drain.simps)
  next
    case False
    then obtain t1 n s1 where call: "batch_call f commit xs t s = Return (t1, n, s1)"
      using Suc.prems(1) by (subst (asm) batch_drain.simps) (cases "batch_call f commit xs t s", auto)
    have rest: "batch_drain commit f fuel (drop n xs) (int (length (drop n xs))) t1 s1 = Return (t', s')"
      using Suc.prems(1) False call
      by (subst (asm) batch_drain.simps) (auto simp: of_nat_diff split: if_splits)
    note called = batch_call_inv [OF step ok call Suc.prems(2,3)]
    note IH = Suc.IH [OF rest called(1,2)]
    have "ok s \<and> (pend t \<subseteq> key ` set xs \<longrightarrow> pend t' = {})" if "ok s'"
    proof -
      have ok1: "ok s1" using IH that by blast
      have "set xs = set (take n xs) \<union> set (drop n xs)"
        by (metis append_take_drop_id set_append)
      then have "pend t1 \<subseteq> key ` set (drop n xs)" if "pend t \<subseteq> key ` set xs"
        using called(3) [OF ok1] that by auto
      with IH that called(3) [OF ok1] show ?thesis by blast
    qed
    with IH show ?thesis by blast
  qed
qed

lemma iter_batched_inv:
  assumes step: "keeps f I" and ok: "reports f ok"
    and run: "iter_batched sel commit f ks t s = Return (t', s')" and I: "I t s" and dist: "distinct ks"
  shows "I t' s'" and "ok s' \<Longrightarrow> pend t \<subseteq> set ks \<Longrightarrow> pend t' = {}"
proof -
  obtain xs c t1 s1 where fill: "batch_fill sel commit f ks [] (int (length ([] :: 'x list))) t s = Return (xs, c, t1, s1)"
    and drain: "batch_drain commit f (length xs) xs c t1 s1 = Return (t', s')"
    using run
    by (cases "batch_fill sel commit f ks [] 0 t s") (auto simp: iter_batched_def)
  have "live t []" by (simp add: live_def)
  note filled = batch_fill_inv [OF step ok fill I this dist]
  have f1: "I t1 s1" "live t1 xs" "c = int (length xs)"
    and f2: "ok s1 \<Longrightarrow> pend t \<subseteq> set ks \<Longrightarrow> pend t1 \<subseteq> key ` set xs"
    using filled by auto
  note drained = batch_drain_inv [OF step ok drain [unfolded f1(3)] f1(1,2)]
  show "I t' s'" using drained by blast
  show "pend t' = {}" if "ok s'" "pend t \<subseteq> set ks"
    using drained f2 that by blast
qed

end

text \<open>Both views keep the interface.\<close>

interpretation updates: pending_view pending_update commit_update fst
proof
  fix t :: "('a, 'b) DeltaTracker" and k x
  show "pending_update t k = Some x \<Longrightarrow> fst x = k"
    by (auto simp: pending_update_def)
  show "fst x \<noteq> k \<Longrightarrow> pending_update (commit_update x t) k = pending_update t k"
    by (auto simp: pending_update_def commit_update_def split: prod.split)
  show "pending_update (commit_update x t) (fst x) = None"
    by (simp add: pending_update_def commit_update_def split: prod.split)
qed

interpretation deletions: pending_view pending_deletion commit_deletion "\<lambda>k. k"
proof
  fix t :: "('a, 'b) DeltaTracker" and k x
  show "pending_deletion t k = Some x \<Longrightarrow> x = k"
    by (auto simp: pending_deletion_def)
  show "x \<noteq> k \<Longrightarrow> pending_deletion (commit_deletion x t) k = pending_deletion t k"
    by (auto simp: pending_deletion_def commit_deletion_def)
  show "pending_deletion (commit_deletion x t) x = None"
    by (simp add: pending_deletion_def commit_deletion_def)
qed

section \<open>What applying an entry does to the two maps\<close>

lemma valuesEqual_commit [simp]:
  "valuesEqual (commit_update x t) = valuesEqual t" "valuesEqual (commit_deletion k t) = valuesEqual t"
  by (simp_all add: commit_update_def commit_deletion_def split: prod.split)

lemma commit_update_spec:
  assumes inv: "dt_inv t" and pend: "pending_update t (fst x) = Some x"
  shows "dt_inv (commit_update x t)"
    and "desired_map (commit_update x t) = desired_map t"
    and "dataplane_map (commit_update x t) = map_put x (dataplane_map t)"
proof -
  obtain k v where x: "x = (k, v)" by (cases x)
  have u: "desiredUpdates t k = Some v" using pend x by (auto simp: pending_update_def)
  have n: "inDataplaneNotDesired t k = None"
    by (rule dt_inv_region [OF inv, of k]) (use u in simp_all)
  show "dt_inv (commit_update x t)"
    by (rule dt_inv_local [OF inv, of k])
       (simp_all add: x commit_update_def region_ok_def region_maps u n)
  have "desired_map (commit_update x t) = (desired_map t)(k := desired_map t k)"
    by (rule map_eq_local) (simp_all add: x commit_update_def region_maps u cong: option.case_cong)
  then show "desired_map (commit_update x t) = desired_map t" by simp
  show "dataplane_map (commit_update x t) = map_put x (dataplane_map t)"
    unfolding map_put_def
    by (rule map_eq_local) (simp_all add: x commit_update_def region_maps cong: option.case_cong)
qed

lemma commit_deletion_spec:
  assumes inv: "dt_inv t" and pend: "pending_deletion t k = Some k"
  shows "dt_inv (commit_deletion k t)"
    and "desired_map (commit_deletion k t) = desired_map t"
    and "dataplane_map (commit_deletion k t) = (dataplane_map t)(k := None)"
proof -
  obtain c where n: "inDataplaneNotDesired t k = Some c"
    using pend by (auto simp: pending_deletion_def)
  have a: "inDataplaneAndDesired t k = None" "desiredUpdates t k = None"
    by (rule dt_inv_region [OF inv, of k]; use n in simp)+
  show "dt_inv (commit_deletion k t)"
    by (rule dt_inv_local [OF inv, of k])
       (simp_all add: commit_deletion_def region_ok_def region_maps n a)
  show "desired_map (commit_deletion k t) = desired_map t"
    by (simp add: commit_deletion_def region_maps)
  show "dataplane_map (commit_deletion k t) = (dataplane_map t)(k := None)"
    by (rule map_eq_local) (simp_all add: commit_deletion_def region_maps a cong: option.case_cong)
qed

lemma live_commit_updates:
  assumes "updates.live t xs" and "dt_inv t"
  shows "dt_inv (fold commit_update xs t) \<and> desired_map (fold commit_update xs t) = desired_map t
    \<and> dataplane_map (fold commit_update xs t) = fold map_put xs (dataplane_map t)
    \<and> valuesEqual (fold commit_update xs t) = valuesEqual t"
  using assms
proof (induction xs arbitrary: t)
  case (Cons x xs)
  have "updates.live (commit_update x t) xs"
    using updates.live_drop_commit [OF Cons.prems(1), of 1 1] by simp
  moreover note spec = commit_update_spec [OF Cons.prems(2), of x]
  ultimately show ?case
    using Cons.IH [of "commit_update x t"] Cons.prems by (simp add: updates.live_def)
qed simp

lemma live_commit_deletions:
  assumes "deletions.live t ks" and "dt_inv t"
  shows "dt_inv (fold commit_deletion ks t) \<and> desired_map (fold commit_deletion ks t) = desired_map t
    \<and> dataplane_map (fold commit_deletion ks t) = dataplane_map t |` (- set ks)
    \<and> valuesEqual (fold commit_deletion ks t) = valuesEqual t"
  using assms
proof (induction ks arbitrary: t)
  case (Cons k ks)
  have "deletions.live (commit_deletion k t) ks"
    using deletions.live_drop_commit [OF Cons.prems(1), of 1 1] by simp
  moreover note spec = commit_deletion_spec [OF Cons.prems(2), of k]
  moreover have "(dataplane_map t)(k := None) |` (- set ks) = dataplane_map t |` (- set (k # ks))"
    by (auto simp: restrict_map_def fun_eq_iff)
  ultimately show ?case
    using Cons.IH [of "commit_deletion k t"] Cons.prems by (simp add: deletions.live_def)
qed (simp add: restrict_map_def)

lemma updates_pend: "updates.pend t = dom (desiredUpdates t)"
  by (auto simp: updates.pend_def pending_update_def)

lemma deletions_pend: "deletions.pend t = dom (inDataplaneNotDesired t)"
  by (auto simp: deletions.pend_def pending_deletion_def)

lemma updates_pend_live: "pending_update t k = Some x \<Longrightarrow> updates.live t [x]"
  using updates.sel_key [of t k x] by (simp add: updates.live_def)

lemma deletions_pend_live: "pending_deletion t k = Some x \<Longrightarrow> deletions.live t [x]"
  using deletions.sel_key [of t k x] by (simp add: deletions.live_def)

text \<open>What an empty view says about the two maps, and the two maps about
  \<^const>\<open>InSync\<close>.\<close>

lemma no_updates_pending:
  assumes "updates.pend t = {}" and "k \<in> dom (desired_map t)"
  shows "dataplane_map t k = desired_map t k"
  using assms by (auto simp: updates_pend region_maps)

lemma no_deletions_pending:
  "deletions.pend t = {} \<Longrightarrow> dom (dataplane_map t) \<subseteq> dom (desired_map t)"
  by (auto simp: deletions_pend dom_dataplane_map dom_desired_map)

lemma InSync_iff_pend:
  assumes "dt_inv t"
  shows "InSync t \<longleftrightarrow> updates.pend t = {} \<and> deletions.pend t = {}"
  using assms
  by (auto simp: InSync_def PendingDeletionsView_Len_def PendingUpdatesView_Len_def updates_pend
      deletions_pend dt_inv_def)

lemma InSync_iff_maps:
  assumes "dt_exact t"
  shows "InSync t \<longleftrightarrow> desired_map t = dataplane_map t"
proof
  note inv = dt_exactD [OF assms]
  assume "InSync t"
  then have none: "updates.pend t = {}" "deletions.pend t = {}"
    using InSync_iff_pend [OF inv(1)] by simp_all
  show "desired_map t = dataplane_map t"
  proof
    fix k
    show "desired_map t k = dataplane_map t k"
      using no_updates_pending [OF none(1), of k] dom_subset_None [OF no_deletions_pending [OF none(2)], of k]
      by (cases "desired_map t k") (auto simp: domIff)
  qed
next
  note inv = dt_exactD [OF assms]
  assume "desired_map t = dataplane_map t"
  with inv have "desiredUpdates t = Map.empty" "inDataplaneNotDesired t = Map.empty"
    by (simp_all add: desiredUpdates_eq inDataplaneNotDesired_eq map_updates_def map_deletions_def
        fun_eq_iff split: option.split)
  then show "InSync t"
    by (simp add: InSync_iff_pend [OF inv(1)] updates_pend deletions_pend)
qed

end
