(* ===== verification/Tracker_Refinement.thy ===== *)
theory Tracker_Refinement
  imports Pending_Views
begin

text \<open>
  The delta tracker as its clients use it. The interface \<^verbatim>\<open>ReadWriteMap\<close>
  (\<^verbatim>\<open>felix/cachingmap/caching_map.go\<close>), through which callers use the desired and
  the dataplane view, is the locale \<open>read_write_map\<close> with both views as interpretations. The locale
  \<open>pending_refinement\<close> shows that a loop over a pending view does to an abstract state what it does to
  the tracker. Together they give that any sequence of calls that change a tracker acts as the same
  sequence on a pair of plain maps.
\<close>

section \<open>The read-write interface of a view\<close>

text \<open>
  \<open>deleteAll\<close> relates the states before and after, because the order in which the keys go is
  not fixed; \<open>rest\<close> is what the view must leave alone.
\<close>

locale read_write_map =
  fixes inv :: "'t \<Rightarrow> bool"
    and get :: "'t \<Rightarrow> 'k \<Rightarrow> 'v option"
    and set :: "'k \<Rightarrow> 'v \<Rightarrow> 't \<Rightarrow> 't"
    and delete :: "'k \<Rightarrow> 't \<Rightarrow> 't"
    and deleteAll :: "'t \<Rightarrow> 't \<Rightarrow> bool"
    and rest :: "'t \<Rightarrow> 'k \<Rightarrow> 'v option"
  assumes inv_set: "inv t \<Longrightarrow> inv (set k v t)"
    and inv_delete: "inv t \<Longrightarrow> inv (delete k t)"
    and inv_deleteAll: "inv t \<Longrightarrow> deleteAll t t' \<Longrightarrow> inv t'"
    and get_set: "inv t \<Longrightarrow> get (set k v t) = (get t)(k \<mapsto> v)"
    and get_delete: "inv t \<Longrightarrow> get (delete k t) = (get t)(k := None)"
    and get_deleteAll: "inv t \<Longrightarrow> deleteAll t t' \<Longrightarrow> get t' = Map.empty"
    and rest_set: "inv t \<Longrightarrow> rest (set k v t) = rest t"
    and rest_delete: "inv t \<Longrightarrow> rest (delete k t) = rest t"
    and rest_deleteAll: "inv t \<Longrightarrow> deleteAll t t' \<Longrightarrow> rest t' = rest t"
begin

lemma set_delete_absent:
  "inv t \<Longrightarrow> get t k = None \<Longrightarrow> get (delete k (set k v t)) = get t"
  by (simp add: get_set get_delete inv_set fun_upd_idem)

lemma set_all:
  assumes "inv t" and "distinct (map fst kvs)"
  shows "inv (fold (\<lambda>(k, v). set k v) kvs t)
    \<and> get (fold (\<lambda>(k, v). set k v) kvs t) = get t ++ map_of kvs
    \<and> rest (fold (\<lambda>(k, v). set k v) kvs t) = rest t"
  using assms
proof (induction kvs arbitrary: t)
  case (Cons kv kvs)
  obtain k v where kv: "kv = (k, v)" by (cases kv)
  have "k \<notin> dom (map_of kvs)" using Cons.prems(2) by (simp add: kv dom_map_of_conv_image_fst)
  then have eq: "get (set k v t) ++ map_of kvs = get t ++ map_of ((k, v) # kvs)"
    using Cons.prems(1) by (auto simp: get_set map_add_def fun_eq_iff split: option.split)
  have "distinct (map fst kvs)" using Cons.prems(2) by simp
  note IH = Cons.IH [OF inv_set [OF Cons.prems(1), of k v] this, unfolded eq rest_set [OF Cons.prems(1)]]
  show ?case
    unfolding kv fold_simps case_prod_conv by (rule IH)
qed simp

lemma replace_contents:
  assumes "inv t" and "deleteAll t t'" and "distinct (map fst kvs)"
  shows "get (fold (\<lambda>(k, v). set k v) kvs t') = map_of kvs
    \<and> rest (fold (\<lambda>(k, v). set k v) kvs t') = rest t"
  using set_all [OF inv_deleteAll [OF assms(1,2)] assms(3)] assms(1,2)
  by (simp add: get_deleteAll rest_deleteAll)

end

definition desired_deletes_all :: "('k, 'v) DeltaTracker \<Rightarrow> ('k, 'v) DeltaTracker \<Rightarrow> bool" where
  "desired_deletes_all t t' \<longleftrightarrow>
     (\<exists>ks1 ks2. visits ks1 (desiredUpdates t) \<and> visits ks2 (inDataplaneAndDesired t)
        \<and> t' = DesiredView_DeleteAll ks1 ks2 t)"

definition dataplane_deletes_all :: "('k, 'v) DeltaTracker \<Rightarrow> ('k, 'v) DeltaTracker \<Rightarrow> bool" where
  "dataplane_deletes_all t t' \<longleftrightarrow>
     (\<exists>ks. visits ks (inDataplaneAndDesired t) \<and> t' = DataplaneView_DeleteAll ks t)"

lemma valuesEqual_DesiredView_DeleteAll [simp]:
  fixes t :: "('k, 'v) DeltaTracker"
  shows "valuesEqual (DesiredView_DeleteAll ks1 ks2 t) = valuesEqual t"
proof -
  have "valuesEqual (desired_iter_updates (\<lambda>k v. DesiredView_Delete k) ks u) = valuesEqual u"
    for ks and u :: "('k, 'v) DeltaTracker"
    by (induction ks arbitrary: u) (simp_all split: option.split)
  moreover have "valuesEqual (desired_iter_rest (\<lambda>k v. DesiredView_Delete k) ks u) = valuesEqual u"
    for ks and u :: "('k, 'v) DeltaTracker"
    by (induction ks arbitrary: u) (simp_all split: option.split)
  ultimately show ?thesis
    by (simp add: DesiredView_DeleteAll_def DesiredView_Iter_def)
qed

lemma desired_deletes_all_spec:
  assumes "dt_exact t" and "desired_deletes_all t t'"
  shows "dt_exact t'" "desired_map t' = Map.empty" "dataplane_map t' = dataplane_map t"
proof -
  obtain ks1 ks2 where "visits ks1 (desiredUpdates t)" "visits ks2 (inDataplaneAndDesired t)"
    and t': "t' = DesiredView_DeleteAll ks1 ks2 t"
    using assms(2) by (auto simp: desired_deletes_all_def)
  with DesiredView_DeleteAll_spec [of t ks1 ks2] assms(1)
  show "dt_exact t'" "desired_map t' = Map.empty" "dataplane_map t' = dataplane_map t"
    by (simp_all add: dt_exact_def visits_def)
qed

lemma dataplane_deletes_all_spec:
  assumes "dt_exact t" and "dataplane_deletes_all t t'"
  shows "dt_exact t'" "dataplane_map t' = Map.empty" "desired_map t' = desired_map t"
proof -
  obtain ks where ks: "visits ks (inDataplaneAndDesired t)" and t': "t' = DataplaneView_DeleteAll ks t"
    using assms(2) by (auto simp: dataplane_deletes_all_def)
  from DataplaneView_DeleteAll_spec [OF dt_exactD(1) [OF assms(1)] ks] assms(1)
  show "dt_exact t'" "dataplane_map t' = Map.empty" "desired_map t' = desired_map t"
    by (simp_all add: t' dt_exact_def)
qed

interpretation desired_view: read_write_map
  dt_exact DesiredView_Get DesiredView_Set DesiredView_Delete desired_deletes_all DataplaneView_Get
  by unfold_locales
     (simp_all add: map_views dt_exact_ops desired_deletes_all_spec dt_exactD(1))

interpretation dataplane_view: read_write_map
  dt_exact DataplaneView_Get DataplaneView_Set DataplaneView_Delete dataplane_deletes_all DesiredView_Get
  by unfold_locales
     (simp_all add: map_views dt_exact_ops dataplane_deletes_all_spec dt_exactD(1))

section \<open>The loops over a pending view on an abstract state\<close>

locale pending_refinement = pending_view sel commit key
  for sel :: "'t \<Rightarrow> 'k \<Rightarrow> 'x option" and commit :: "'x \<Rightarrow> 't \<Rightarrow> 't" and key :: "'x \<Rightarrow> 'k" +
  fixes inv :: "'t \<Rightarrow> bool"
    and abs :: "'t \<Rightarrow> 'm"
    and sel' :: "'m \<Rightarrow> 'k \<Rightarrow> 'x option"
    and commit' :: "'x \<Rightarrow> 'm \<Rightarrow> 'm"
  assumes sel_abs: "inv t \<Longrightarrow> sel' (abs t) k = sel t k"
    and inv_commit: "inv t \<Longrightarrow> sel t (key x) = Some x \<Longrightarrow> inv (commit x t)"
    and commit_abs: "inv t \<Longrightarrow> sel t (key x) = Some x \<Longrightarrow> abs (commit x t) = commit' x (abs t)"
begin

lemma iter_pending_abs:
  assumes "inv t" and "iter_pending sel commit f ks t s = (t', s')"
  shows "iter_pending sel' commit' f ks (abs t) s = (abs t', s') \<and> inv t'"
  using assms
proof (induction ks arbitrary: t s)
  case (Cons k ks)
  show ?case
  proof (cases "sel t k")
    case None
    with Cons show ?thesis by (simp add: sel_abs)
  next
    case (Some x)
    have x: "sel t (key x) = Some x" using Some sel_key [OF Some] by simp
    obtain a s1 where f: "f x s = (a, s1)" by (cases "f x s")
    from Cons.IH [OF Cons.prems(1), of s1] Cons.IH [OF inv_commit [OF Cons.prems(1) x], of s1]
      Cons.prems Some f commit_abs [OF Cons.prems(1) x] show ?thesis
      by (cases a) (simp_all add: sel_abs)
  qed
qed simp

lemma fold_commit_abs:
  assumes "inv t" and "live t xs"
  shows "inv (fold commit xs t) \<and> abs (fold commit xs t) = fold commit' xs (abs t)"
  using assms
proof (induction xs arbitrary: t)
  case (Cons x xs)
  have x: "sel t (key x) = Some x" using Cons.prems(2) by (simp add: live_def)
  have "live (commit x t) xs" using live_drop_commit [OF Cons.prems(2), of 1 1] by simp
  with Cons.IH [OF inv_commit [OF Cons.prems(1) x]] commit_abs [OF Cons.prems(1) x] show ?case by simp
qed simp

lemma batch_call_abs:
  assumes "inv t" and "live t xs"
  shows "batch_call f commit' xs (abs t) s = map_run (\<lambda>(t, n, s). (abs t, n, s)) (batch_call f commit xs t s)"
    and "batch_call f commit xs t s = Return (t', n, s') \<Longrightarrow> inv t' \<and> live t' (drop n xs)"
proof -
  obtain m e s1 where f: "f xs s = ((m, e), s1)" by (metis prod.exhaust)
  note commits = fold_commit_abs [OF assms(1) live_take [OF assms(2)]]
  show "batch_call f commit' xs (abs t) s = map_run (\<lambda>(t, n, s). (abs t, n, s)) (batch_call f commit xs t s)"
    using commits [of m] by (simp add: batch_call_def f)
  show "inv t' \<and> live t' (drop n xs)" if "batch_call f commit xs t s = Return (t', n, s')"
    using that commits [of m] live_drop_commit [OF assms(2), of m n]
    by (auto simp: batch_call_def f split: if_splits)
qed

definition fill_abs :: "('x list \<times> int \<times> 't \<times> 's) run \<Rightarrow> ('x list \<times> int \<times> 'm \<times> 's) run" where
  "fill_abs = map_run (\<lambda>(xs, c, t, s). (xs, c, abs t, s))"

definition fill_inv :: "('x list \<times> int \<times> 't \<times> 's) run \<Rightarrow> bool" where
  "fill_inv r \<longleftrightarrow> (case r of Return (xs, c, t, s) \<Rightarrow> inv t \<and> live t xs | _ \<Rightarrow> True)"

lemma batch_fill_abs:
  assumes "inv t" and "live t xs" and "distinct ks" and "key ` set xs \<inter> set ks = {}"
  shows "batch_fill sel' commit' f ks xs c (abs t) s = fill_abs (batch_fill sel commit f ks xs c t s)
    \<and> fill_inv (batch_fill sel commit f ks xs c t s)"
  using assms
proof (induction ks arbitrary: xs c t s)
  case Nil
  then show ?case by (simp add: fill_abs_def fill_inv_def)
next
  case (Cons k ks)
  note sel' = sel_abs [OF Cons.prems(1), of k]
  show ?case
  proof (cases "sel t k")
    case None
    have "distinct ks" "key ` set xs \<inter> set ks = {}" using Cons.prems(3,4) by auto
    from Cons.IH [OF Cons.prems(1,2) this] show ?thesis using sel' None by simp
  next
    case (Some x)
    define ys where "ys = xs @ [x]"
    have live: "live t ys" unfolding ys_def using Cons.prems Some by (intro live_append) auto
    have dist: "distinct ks" "key ` set ys \<inter> set ks = {}"
      using Cons.prems sel_key [OF Some] by (auto simp: ys_def)
    show ?thesis
    proof (cases "c + 1 = int batchSize")
      case False
      from Cons.IH [OF Cons.prems(1) live dist, of "c + 1" s] show ?thesis
        using False sel' Some by (simp add: ys_def [symmetric] Let_def)
    next
      case True
      note call = batch_call_abs [OF Cons.prems(1) live, of f s]
      show ?thesis
      proof (cases "batch_call f commit ys t s")
        case (Return r)
        obtain t1 n s1 where r: "r = (t1, n, s1)" by (cases r)
        have t1: "inv t1" "live t1 (drop n ys)" "live t1 []" using call(2) [OF Return [unfolded r]] by (simp_all add: live_def)
        have drop: "key ` set (drop n ys) \<inter> set ks = {}" using dist(2) set_drop_subset [of n ys] by blast
        note IH = Cons.IH [OF t1(1,2) dist(1) drop] Cons.IH [OF t1(1,3) dist(1)]
        have "batch_call f commit' ys (abs t) s = Return (abs t1, n, s1)" using call(1) Return r by simp
        with Return r True sel' Some IH [of "int batchSize - int n" s1] IH [of 0 s1] show ?thesis
          by (simp add: ys_def [symmetric] Let_def) (simp add: fill_abs_def fill_inv_def)
      qed (use call(1) True Some sel' in \<open>simp_all add: ys_def [symmetric] Let_def fill_abs_def fill_inv_def\<close>)
    qed
  qed
qed

definition drain_abs :: "('t \<times> 's) run \<Rightarrow> ('m \<times> 's) run" where
  "drain_abs = map_run (\<lambda>(t, s). (abs t, s))"

definition drain_inv :: "('t \<times> 's) run \<Rightarrow> bool" where
  "drain_inv r \<longleftrightarrow> (case r of Return (t, s) \<Rightarrow> inv t | _ \<Rightarrow> True)"

lemma batch_drain_abs:
  assumes "inv t" and "live t xs"
  shows "batch_drain commit' f fuel xs c (abs t) s = drain_abs (batch_drain commit f fuel xs c t s)
    \<and> drain_inv (batch_drain commit f fuel xs c t s)"
  using assms
proof (induction fuel arbitrary: xs c t s)
  case 0
  then show ?case by (simp add: batch_drain.simps drain_abs_def drain_inv_def)
next
  case (Suc fuel)
  note call = batch_call_abs [OF Suc.prems, of f s]
  note unfold = batch_drain.simps [of commit' f "Suc fuel" xs c "abs t" s] batch_drain.simps [of commit f "Suc fuel" xs c t s]
  show ?case
  proof (cases "batch_call f commit xs t s")
    case (Return r)
    obtain t1 n s1 where r: "r = (t1, n, s1)" by (cases r)
    have "inv t1" "live t1 (drop n xs)" using call(2) [OF Return [unfolded r]] by simp_all
    from Suc.IH [OF this, of "c - int n" s1] call(1) Return r Suc.prems(1) show ?thesis
      unfolding unfold by (simp add: drain_abs_def drain_inv_def)
  next
    case Panic
    then show ?thesis using call(1) Suc.prems(1) unfolding unfold by (simp add: drain_abs_def drain_inv_def)
  next
    case NoFuel
    then show ?thesis using call(1) Suc.prems(1) unfolding unfold by (simp add: drain_abs_def drain_inv_def)
  qed
qed

lemma iter_batched_abs:
  assumes "inv t" and "distinct ks"
  shows "iter_batched sel' commit' f ks (abs t) s = map_run (\<lambda>(t, s). (abs t, s)) (iter_batched sel commit f ks t s)"
    and "iter_batched sel commit f ks t s = Return (t', s') \<Longrightarrow> inv t'"
proof -
  have "live t []" by (simp add: live_def)
  note fill = batch_fill_abs [OF assms(1) this assms(2), of f 0 s]
  have "iter_batched sel' commit' f ks (abs t) s = drain_abs (iter_batched sel commit f ks t s)
    \<and> drain_inv (iter_batched sel commit f ks t s)"
  proof (cases "batch_fill sel commit f ks [] 0 t s")
    case (Return r)
    obtain xs c t1 s1 where r: "r = (xs, c, t1, s1)" by (cases r)
    have "inv t1" "live t1 xs" using fill Return r by (simp_all add: fill_inv_def)
    from batch_drain_abs [OF this, of f "length xs" c s1] fill Return r show ?thesis
      by (simp add: iter_batched_def fill_abs_def)
  qed (use fill in \<open>simp_all add: iter_batched_def fill_abs_def drain_abs_def drain_inv_def\<close>)
  then show "iter_batched sel' commit' f ks (abs t) s = map_run (\<lambda>(t, s). (abs t, s)) (iter_batched sel commit f ks t s)"
    "iter_batched sel commit f ks t s = Return (t', s') \<Longrightarrow> inv t'"
    by (simp_all add: drain_abs_def drain_inv_def)
qed

end

section \<open>Sequences of calls\<close>

text \<open>
  The pair of plain maps (desired, dataplane), and how the pending entries are read off it and applied to it.
\<close>

type_synonym ('k, 'v) map_pair = "('k \<rightharpoonup> 'v) \<times> ('k \<rightharpoonup> 'v)"

definition tracker_maps :: "('k, 'v) DeltaTracker \<Rightarrow> ('k, 'v) map_pair" where
  "tracker_maps t = (desired_map t, dataplane_map t)"

definition diff_update :: "('k, 'v) map_pair \<Rightarrow> 'k \<Rightarrow> ('k \<times> 'v) option" where
  "diff_update m k = map_option (Pair k) (map_updates (\<lambda>a b. a = b) (fst m) (snd m) k)"

definition put_update :: "'k \<times> 'v \<Rightarrow> ('k, 'v) map_pair \<Rightarrow> ('k, 'v) map_pair" where
  "put_update x m = (fst m, (snd m)(fst x \<mapsto> snd x))"

definition diff_deletion :: "('k, 'v) map_pair \<Rightarrow> 'k \<Rightarrow> 'k option" where
  "diff_deletion m k = map_option (\<lambda>_. k) (map_deletions (fst m) (snd m) k)"

definition put_deletion :: "'k \<Rightarrow> ('k, 'v) map_pair \<Rightarrow> ('k, 'v) map_pair" where
  "put_deletion k m = (fst m, (snd m)(k := None))"

lemma pending_maps:
  assumes "dt_exact t"
  shows "desiredUpdates t = map_updates (\<lambda>a b. a = b) (desired_map t) (dataplane_map t)"
    and "inDataplaneNotDesired t = map_deletions (desired_map t) (dataplane_map t)"
  using desiredUpdates_eq [of t] inDataplaneNotDesired_eq [of t] dt_exactD [OF assms] by simp_all

interpretation update_loops: pending_refinement pending_update commit_update fst dt_exact tracker_maps diff_update put_update
proof
  fix t :: "('a, 'b) DeltaTracker" and k x
  assume t: "dt_exact t"
  show "diff_update (tracker_maps t) k = pending_update t k"
    by (simp add: diff_update_def tracker_maps_def pending_update_def pending_maps(1) [OF t])
  assume x: "pending_update t (fst x) = Some x"
  note spec = commit_update_spec [OF dt_exactD(1) [OF t] x]
  show "dt_exact (commit_update x t)" using spec(1) t by (simp add: dt_exact_def)
  show "tracker_maps (commit_update x t) = put_update x (tracker_maps t)"
    using spec by (simp add: tracker_maps_def put_update_def map_put_def)
qed

interpretation deletion_loops: pending_refinement pending_deletion commit_deletion "\<lambda>k. k" dt_exact tracker_maps diff_deletion put_deletion
proof
  fix t :: "('a, 'b) DeltaTracker" and k x
  assume t: "dt_exact t"
  show "diff_deletion (tracker_maps t) k = pending_deletion t k"
    by (simp add: diff_deletion_def tracker_maps_def pending_deletion_def pending_maps(2) [OF t])
  assume x: "pending_deletion t x = Some x"
  note spec = commit_deletion_spec [OF dt_exactD(1) [OF t] x]
  show "dt_exact (commit_deletion x t)" using spec(1) t by (simp add: dt_exact_def)
  show "tracker_maps (commit_deletion x t) = put_deletion x (tracker_maps t)"
    using spec by (simp add: tracker_maps_def put_deletion_def)
qed

text \<open>
  The calls that change a tracker. A call that loops over a map has the order of the loop with it, and the
  callbacks of the iterations share a state \<open>'s\<close>, which stands for what they act on.
\<close>

type_synonym 'k order = "'k set \<Rightarrow> 'k list"

datatype ('k, 'v, 's, 'e) tracker_call =
    DesiredSet 'k 'v
  | DesiredDelete 'k
  | DesiredDeleteAll "'k order" "'k order"
  | DataplaneSet 'k 'v
  | DataplaneDelete 'k
  | DataplaneDeleteAll "'k order"
  | ReplaceAllMap "'k \<rightharpoonup> 'v" "'k order" "'k order"
  | ReplaceAllIter "('k \<times> 'v) list" "'e option" "'k order"
  | UpdatesIter "'k \<Rightarrow> 'v \<Rightarrow> 's \<Rightarrow> IterAction \<times> 's" "'k order"
  | DeletionsIter "'k \<Rightarrow> 's \<Rightarrow> IterAction \<times> 's" "'k order"
  | UpdatesIterBatched "'k list \<Rightarrow> 'v list \<Rightarrow> 's \<Rightarrow> (nat \<times> 'e option) \<times> 's" "'k order"
  | DeletionsIterBatched "'k list \<Rightarrow> 's \<Rightarrow> (nat \<times> 'e option) \<times> 's" "'k order"

fun tracker_step ::
  "('k, 'v, 's, 'e) tracker_call \<Rightarrow> ('k, 'v) DeltaTracker \<times> 's \<Rightarrow> (('k, 'v) DeltaTracker \<times> 's) run" where
  "tracker_step (DesiredSet k v) (t, s) = Return (DesiredView_Set k v t, s)"
| "tracker_step (DesiredDelete k) (t, s) = Return (DesiredView_Delete k t, s)"
| "tracker_step (DesiredDeleteAll o1 o2) (t, s) =
     Return (DesiredView_DeleteAll (o1 (dom (desiredUpdates t))) (o2 (dom (inDataplaneAndDesired t))) t, s)"
| "tracker_step (DataplaneSet k v) (t, s) = Return (DataplaneView_Set k v t, s)"
| "tracker_step (DataplaneDelete k) (t, s) = Return (DataplaneView_Delete k t, s)"
| "tracker_step (DataplaneDeleteAll o1) (t, s) =
     Return (DataplaneView_DeleteAll (o1 (dom (inDataplaneAndDesired t))) t, s)"
| "tracker_step (ReplaceAllMap m o1 o2) (t, s) =
     Return (DataplaneView_ReplaceAllMap m (o1 (dom m)) (o2 (dom (inDataplaneAndDesired t))) t, s)"
| "tracker_step (ReplaceAllIter kvs err o1) (t, s) =
     Return (snd (DataplaneView_ReplaceAllIter kvs err (o1 (dom (inDataplaneAndDesired t))) t), s)"
| "tracker_step (UpdatesIter f o1) (t, s) =
     Return (PendingUpdatesView_Iter f (o1 (dom (desiredUpdates t))) t s)"
| "tracker_step (DeletionsIter f o1) (t, s) =
     Return (PendingDeletionsView_Iter f (o1 (dom (inDataplaneNotDesired t))) t s)"
| "tracker_step (UpdatesIterBatched f o1) (t, s) =
     PendingUpdatesView_IterBatched f (o1 (dom (desiredUpdates t))) t s"
| "tracker_step (DeletionsIterBatched f o1) (t, s) =
     PendingDeletionsView_IterBatched f (o1 (dom (inDataplaneNotDesired t))) t s"

text \<open>The same calls on the pair of maps: an iteration runs over the difference of the two maps.\<close>

fun maps_step :: "('k, 'v, 's, 'e) tracker_call \<Rightarrow> ('k, 'v) map_pair \<times> 's \<Rightarrow> (('k, 'v) map_pair \<times> 's) run" where
  "maps_step (DesiredSet k v) ((des, dp), s) = Return ((des(k \<mapsto> v), dp), s)"
| "maps_step (DesiredDelete k) ((des, dp), s) = Return ((des(k := None), dp), s)"
| "maps_step (DesiredDeleteAll o1 o2) ((des, dp), s) = Return ((Map.empty, dp), s)"
| "maps_step (DataplaneSet k v) ((des, dp), s) = Return ((des, dp(k \<mapsto> v)), s)"
| "maps_step (DataplaneDelete k) ((des, dp), s) = Return ((des, dp(k := None)), s)"
| "maps_step (DataplaneDeleteAll o1) ((des, dp), s) = Return ((des, Map.empty), s)"
| "maps_step (ReplaceAllMap m o1 o2) ((des, dp), s) = Return ((des, m), s)"
| "maps_step (ReplaceAllIter kvs err o1) ((des, dp), s) =
     Return ((des, if err = None then map_of kvs else dp ++ map_of kvs), s)"
| "maps_step (UpdatesIter f o1) ((des, dp), s) =
     Return (iter_pending diff_update put_update (\<lambda>(k, v). f k v)
       (o1 (dom (map_updates (\<lambda>a b. a = b) des dp))) (des, dp) s)"
| "maps_step (DeletionsIter f o1) ((des, dp), s) =
     Return (iter_pending diff_deletion put_deletion f (o1 (dom (map_deletions des dp))) (des, dp) s)"
| "maps_step (UpdatesIterBatched f o1) ((des, dp), s) =
     iter_batched diff_update put_update (\<lambda>xs. f (map fst xs) (map snd xs))
       (o1 (dom (map_updates (\<lambda>a b. a = b) des dp))) (des, dp) s"
| "maps_step (DeletionsIterBatched f o1) ((des, dp), s) =
     iter_batched diff_deletion put_deletion f (o1 (dom (map_deletions des dp))) (des, dp) s"

text \<open>What a call has to meet: its loops visit every key once, the snapshot is a finite map, and an
  iterator yields each key at most once.\<close>

fun tracker_call_ok :: "('k, 'v, 's, 'e) tracker_call \<Rightarrow> bool" where
  "tracker_call_ok (DesiredDeleteAll o1 o2) \<longleftrightarrow> map_order o1 \<and> map_order o2"
| "tracker_call_ok (DataplaneDeleteAll o1) \<longleftrightarrow> map_order o1"
| "tracker_call_ok (ReplaceAllMap m o1 o2) \<longleftrightarrow> finite (dom m) \<and> map_order o1 \<and> map_order o2"
| "tracker_call_ok (ReplaceAllIter kvs err o1) \<longleftrightarrow> distinct (map fst kvs) \<and> map_order o1"
| "tracker_call_ok (UpdatesIter f o1) \<longleftrightarrow> map_order o1"
| "tracker_call_ok (DeletionsIter f o1) \<longleftrightarrow> map_order o1"
| "tracker_call_ok (UpdatesIterBatched f o1) \<longleftrightarrow> map_order o1"
| "tracker_call_ok (DeletionsIterBatched f o1) \<longleftrightarrow> map_order o1"
| "tracker_call_ok c \<longleftrightarrow> True"

abbreviation (input) tracker_abs :: "('k, 'v) DeltaTracker \<times> 's \<Rightarrow> ('k, 'v) map_pair \<times> 's" where
  "tracker_abs \<equiv> \<lambda>(t, s). (tracker_maps t, s)"

text \<open>One call: the result on the maps is the abstraction of the result on the tracker.\<close>

definition refines :: "('k, 'v, 's, 'e) tracker_call \<Rightarrow> ('k, 'v) DeltaTracker \<Rightarrow> 's \<Rightarrow> bool" where
  "refines c t s \<longleftrightarrow> maps_step c (tracker_maps t, s) = map_run tracker_abs (tracker_step c (t, s))
     \<and> (\<forall>t' s'. tracker_step c (t, s) = Return (t', s') \<longrightarrow> dt_exact t')"

lemma order_visits: "map_order ord \<Longrightarrow> finite (dom m) \<Longrightarrow> visits (ord (dom m)) m"
  by (simp add: map_order_def visits_def)

lemma refines_replace:
  fixes t :: "('k, 'v) DeltaTracker" and err :: "'e option"
  assumes t: "dt_exact t"
  shows "tracker_call_ok (DesiredDeleteAll o1 o2) \<Longrightarrow> refines (DesiredDeleteAll o1 o2) t s"
    and "tracker_call_ok (DataplaneDeleteAll o1) \<Longrightarrow> refines (DataplaneDeleteAll o1) t s"
    and "tracker_call_ok (ReplaceAllMap m o1 o2) \<Longrightarrow> refines (ReplaceAllMap m o1 o2) t s"
    and "tracker_call_ok (ReplaceAllIter kvs err o1) \<Longrightarrow> refines (ReplaceAllIter kvs err o1) t s"
proof -
  note inv = dt_exactD(1) [OF t]
  have fin: "finite (dom (desiredUpdates t))" "finite (dom (inDataplaneAndDesired t))" using inv by (simp_all add: dt_inv_def)
  have vis: "visits (o1 (dom (inDataplaneAndDesired t))) (inDataplaneAndDesired t)" if "map_order o1" for o1
    using order_visits [OF that] fin by blast
  show "refines (DesiredDeleteAll o1 o2) t s" if ok: "tracker_call_ok (DesiredDeleteAll o1 o2)"
  proof -
    have "desired_deletes_all t (DesiredView_DeleteAll (o1 (dom (desiredUpdates t))) (o2 (dom (inDataplaneAndDesired t))) t)"
      using ok vis order_visits fin unfolding desired_deletes_all_def tracker_call_ok.simps by blast
    from desired_deletes_all_spec [OF t this] show ?thesis by (simp add: refines_def tracker_maps_def)
  qed
  show "refines (DataplaneDeleteAll o1) t s" if ok: "tracker_call_ok (DataplaneDeleteAll o1)"
  proof -
    have "dataplane_deletes_all t (DataplaneView_DeleteAll (o1 (dom (inDataplaneAndDesired t))) t)"
      using ok vis unfolding dataplane_deletes_all_def tracker_call_ok.simps by blast
    from dataplane_deletes_all_spec [OF t this] show ?thesis by (simp add: refines_def tracker_maps_def)
  qed
  show "refines (ReplaceAllMap m o1 o2) t s" if ok: "tracker_call_ok (ReplaceAllMap m o1 o2)"
    using ReplaceAllMap_spec [OF inv order_visits vis, of o1 m o2] t ok
    by (simp add: refines_def tracker_maps_def dt_exact_def)
  show "refines (ReplaceAllIter kvs err o1) t s" if ok: "tracker_call_ok (ReplaceAllIter kvs err o1)"
  proof (cases err)
    case None
    let ?ks = "o1 (dom (inDataplaneAndDesired t))"
    obtain err' t' where run: "DataplaneView_ReplaceAllIter kvs (None :: 'e option) ?ks t = (err', t')" by fastforce
    have "dom (inDataplaneAndDesired t) \<subseteq> set ?ks" using vis ok by (simp add: visits_def)
    from ReplaceAllIter_ok [OF inv _ this run] ok t None show ?thesis
      by (simp add: refines_def tracker_maps_def run dt_exact_def)
  next
    case (Some e)
    have "map_of (rev kvs) = map_of kvs"
      by (rule map_of_inject_set [THEN iffD2]) (use ok in \<open>simp_all add: rev_map [symmetric]\<close>)
    with fold_DataplaneView_Set [OF inv, of kvs] ReplaceAllIter_error [OF inv, of kvs e] ok t Some show ?thesis
      by (simp add: refines_def tracker_maps_def dt_exact_def)
  qed
qed

lemma refines_iter:
  assumes t: "dt_exact t"
  shows "tracker_call_ok (UpdatesIter f o1) \<Longrightarrow> refines (UpdatesIter f o1) t s"
    and "tracker_call_ok (DeletionsIter g o1) \<Longrightarrow> refines (DeletionsIter g o1) t s"
    and "tracker_call_ok (UpdatesIterBatched bf o1) \<Longrightarrow> refines (UpdatesIterBatched bf o1) t s"
    and "tracker_call_ok (DeletionsIterBatched bg o1) \<Longrightarrow> refines (DeletionsIterBatched bg o1) t s"
proof -
  note pend = pending_maps [OF t]
  have fin: "finite (dom (desiredUpdates t))" "finite (dom (inDataplaneNotDesired t))"
    using dt_exactD(1) [OF t] by (simp_all add: dt_inv_def)
  have maps: "tracker_maps t = (desired_map t, dataplane_map t)" by (simp add: tracker_maps_def)
  show "refines (UpdatesIter f o1) t s"
    using update_loops.iter_pending_abs [OF t, of "\<lambda>(k, v). f k v" "o1 (dom (desiredUpdates t))" s]
    by (cases "iter_pending pending_update commit_update (\<lambda>(k, v). f k v) (o1 (dom (desiredUpdates t))) t s")
       (simp add: refines_def PendingUpdatesView_Iter_def maps pend(1) [symmetric])
  show "refines (DeletionsIter g o1) t s"
    using deletion_loops.iter_pending_abs [OF t, of g "o1 (dom (inDataplaneNotDesired t))" s]
    by (cases "iter_pending pending_deletion commit_deletion g (o1 (dom (inDataplaneNotDesired t))) t s")
       (simp add: refines_def PendingDeletionsView_Iter_def maps pend(2) [symmetric])
  show "refines (UpdatesIterBatched bf o1) t s" if "tracker_call_ok (UpdatesIterBatched bf o1)"
    using update_loops.iter_batched_abs [OF t, of "o1 (dom (desiredUpdates t))" "\<lambda>xs. bf (map fst xs) (map snd xs)" s] that fin(1)
    by (simp add: refines_def PendingUpdatesView_IterBatched_def maps pend(1) [symmetric] map_order_def)
  show "refines (DeletionsIterBatched bg o1) t s" if "tracker_call_ok (DeletionsIterBatched bg o1)"
    using deletion_loops.iter_batched_abs [OF t, of "o1 (dom (inDataplaneNotDesired t))" bg s] that fin(2)
    by (simp add: refines_def PendingDeletionsView_IterBatched_def maps pend(2) [symmetric] map_order_def)
qed

lemma refines_key:
  assumes "dt_exact t"
  shows "refines (DesiredSet k v) t s" "refines (DesiredDelete k) t s" "refines (DataplaneSet k v) t s" "refines (DataplaneDelete k) t s"
  using assms by (simp_all add: refines_def tracker_maps_def dt_exact_ops map_views dt_exactD(1))

lemma tracker_step_refines: "dt_exact t \<Longrightarrow> tracker_call_ok c \<Longrightarrow> refines c t s"
  by (cases c; simp only:) (assumption | rule refines_key refines_replace refines_iter)+

lemma tracker_run_refines:
  assumes "dt_exact t" and "list_all tracker_call_ok cs"
  shows "run_fold maps_step cs (tracker_maps t, s) = map_run tracker_abs (run_fold tracker_step cs (t, s))
    \<and> (\<forall>t' s'. run_fold tracker_step cs (t, s) = Return (t', s') \<longrightarrow> dt_exact t')"
  using assms
proof (induction cs arbitrary: t s)
  case (Cons c cs)
  have step: "refines c t s" using tracker_step_refines [OF Cons.prems(1), of c] Cons.prems(2) by simp
  show ?case
  proof (cases "tracker_step c (t, s)")
    case (Return r)
    obtain t' s' where r: "r = (t', s')" by (cases r)
    with step Return Cons.IH [of t' s'] Cons.prems(2) show ?thesis by (simp add: refines_def)
  qed (use step in \<open>simp_all add: refines_def\<close>)
qed simp

end
