(* ===== verification/Delta_Set.thy ===== *)
theory Delta_Set
  imports Tracker_Refinement
begin

text \<open>
  The set trackers (\<^verbatim>\<open>felix/deltatracker/delta_set.go\<close>): the delta tracker at the empty struct.
  Every operation of a set tracker is one of the tracker, so a sequence of them refines a pair of maps.
\<close>

section \<open>Set trackers\<close>

type_synonym 'k SetDeltaTracker = "('k, unit) DeltaTracker"

definition NewSetDeltaTracker :: "'k SetDeltaTracker option" where
  "NewSetDeltaTracker = New False [WithValuesEqualFn (\<lambda>a b. True)]"

definition DesiredSetView_Add :: "'k \<Rightarrow> 'k SetDeltaTracker \<Rightarrow> 'k SetDeltaTracker" where
  "DesiredSetView_Add k s = DesiredView_Set k () s"

definition DesiredSetView_Contains :: "'k SetDeltaTracker \<Rightarrow> 'k \<Rightarrow> bool" where
  "DesiredSetView_Contains s k = (DesiredView_Get s k \<noteq> None)"

definition DesiredSetView_Delete :: "'k \<Rightarrow> 'k SetDeltaTracker \<Rightarrow> 'k SetDeltaTracker" where
  "DesiredSetView_Delete k s = DesiredView_Delete k s"

definition DesiredSetView_DeleteAll :: "'k list \<Rightarrow> 'k list \<Rightarrow> 'k SetDeltaTracker \<Rightarrow> 'k SetDeltaTracker" where
  "DesiredSetView_DeleteAll ks1 ks2 s = DesiredView_DeleteAll ks1 ks2 s"

definition DesiredSetView_Iter ::
  "('k \<Rightarrow> 'k SetDeltaTracker \<Rightarrow> 'k SetDeltaTracker) \<Rightarrow> 'k list \<Rightarrow> 'k list \<Rightarrow> 'k SetDeltaTracker
   \<Rightarrow> 'k SetDeltaTracker" where
  "DesiredSetView_Iter f ks1 ks2 s = DesiredView_Iter (\<lambda>k _. f k) ks1 ks2 s"

definition DesiredSetView_LenUpperBound :: "'k SetDeltaTracker \<Rightarrow> nat" where
  "DesiredSetView_LenUpperBound s = card (dom (inDataplaneAndDesired s)) + card (dom (desiredUpdates s))"

definition DataplaneSetView_ReplaceFromIter ::
  "'k list \<Rightarrow> 'e option \<Rightarrow> 'k list \<Rightarrow> 'k SetDeltaTracker \<Rightarrow> 'e option \<times> 'k SetDeltaTracker" where
  "DataplaneSetView_ReplaceFromIter ks err order s =
     DataplaneView_ReplaceAllIter (map (\<lambda>k. (k, ())) ks) err order s"

definition DataplaneSetView_Add :: "'k \<Rightarrow> 'k SetDeltaTracker \<Rightarrow> 'k SetDeltaTracker" where
  "DataplaneSetView_Add k s = DataplaneView_Set k () s"

definition DataplaneSetView_Delete :: "'k \<Rightarrow> 'k SetDeltaTracker \<Rightarrow> 'k SetDeltaTracker" where
  "DataplaneSetView_Delete k s = DataplaneView_Delete k s"

definition DataplaneSetView_DeleteAll :: "'k list \<Rightarrow> 'k SetDeltaTracker \<Rightarrow> 'k SetDeltaTracker" where
  "DataplaneSetView_DeleteAll ks s = DataplaneView_DeleteAll ks s"

definition DataplaneSetView_Contains :: "'k SetDeltaTracker \<Rightarrow> 'k \<Rightarrow> bool" where
  "DataplaneSetView_Contains s k = (DataplaneView_Get s k \<noteq> None)"

definition PendingUpdatesSetView_Contains :: "'k SetDeltaTracker \<Rightarrow> 'k \<Rightarrow> bool" where
  "PendingUpdatesSetView_Contains s k = (desiredUpdates s k \<noteq> None)"

definition PendingUpdatesSetView_Iter ::
  "('k \<Rightarrow> 's \<Rightarrow> IterAction \<times> 's) \<Rightarrow> 'k list \<Rightarrow> 'k SetDeltaTracker \<Rightarrow> 's \<Rightarrow> 'k SetDeltaTracker \<times> 's" where
  "PendingUpdatesSetView_Iter f = PendingUpdatesView_Iter (\<lambda>k _. f k)"

definition PendingDeletionsSetView_Contains :: "'k SetDeltaTracker \<Rightarrow> 'k \<Rightarrow> bool" where
  "PendingDeletionsSetView_Contains s k = (PendingDeletionsView_Get s k \<noteq> None)"

definition PendingDeletionsSetView_Iter ::
  "('k \<Rightarrow> 's \<Rightarrow> IterAction \<times> 's) \<Rightarrow> 'k list \<Rightarrow> 'k SetDeltaTracker \<Rightarrow> 's \<Rightarrow> 'k SetDeltaTracker \<times> 's" where
  "PendingDeletionsSetView_Iter f = PendingDeletionsView_Iter f"

definition PendingUpdatesSetView_Len :: "'k SetDeltaTracker \<Rightarrow> nat" where
  "PendingUpdatesSetView_Len s = PendingUpdatesView_Len s"

definition PendingDeletionsSetView_Len :: "'k SetDeltaTracker \<Rightarrow> nat" where
  "PendingDeletionsSetView_Len s = PendingDeletionsView_Len s"

definition desired_set :: "'k SetDeltaTracker \<Rightarrow> 'k set" where
  "desired_set s = {k. DesiredSetView_Contains s k}"

definition dataplane_set :: "'k SetDeltaTracker \<Rightarrow> 'k set" where
  "dataplane_set s = {k. DataplaneSetView_Contains s k}"

lemma WithValuesEqualFn_unit [simp]:
  "WithValuesEqualFn (\<lambda>a b. True) (empty_tracker :: 'k SetDeltaTracker) = empty_tracker"
  by (simp add: WithValuesEqualFn_def empty_tracker_def fun_eq_iff)

lemma NewSetDeltaTracker_ok:
  "\<exists>s. NewSetDeltaTracker = Some s \<and> dt_exact s \<and> desired_set s = {} \<and> dataplane_set s = {}"
  by (simp add: NewSetDeltaTracker_def New_def desired_set_def dataplane_set_def
      DesiredSetView_Contains_def DataplaneSetView_Contains_def map_views)

lemma desired_set_dom: "desired_set s = dom (desired_map s)"
  by (auto simp: desired_set_def DesiredSetView_Contains_def map_views)

lemma dataplane_set_dom: "dataplane_set s = dom (dataplane_map s)"
  by (auto simp: dataplane_set_def DataplaneSetView_Contains_def map_views)

text \<open>In a set a key is never both in the dataplane and waiting to be updated, so the upper bound
  on the length is the length.\<close>

lemma set_regions_disjoint:
  fixes s :: "'k SetDeltaTracker"
  assumes "dt_exact s"
  shows "dom (inDataplaneAndDesired s) \<inter> dom (desiredUpdates s) = {}"
proof -
  have "\<not> (inDataplaneAndDesired s k \<noteq> None \<and> desiredUpdates s k \<noteq> None)" for k
    by (rule dt_inv_region [OF dt_exactD(1) [OF assms], of k]) (simp_all add: dt_exactD(2) [OF assms])
  then show ?thesis by auto
qed

lemma set_pending:
  fixes s :: "'k SetDeltaTracker"
  assumes "dt_exact s"
  shows "PendingUpdatesSetView_Contains s k \<longleftrightarrow> k \<in> desired_set s - dataplane_set s"
    and "PendingDeletionsSetView_Contains s k \<longleftrightarrow> k \<in> dataplane_set s - desired_set s"
  using desiredUpdates_eq [of s] inDataplaneNotDesired_eq [of s] dt_exactD [OF assms]
  by (auto simp: PendingUpdatesSetView_Contains_def PendingDeletionsSetView_Contains_def
      PendingDeletionsView_Get_def desired_set_dom dataplane_set_dom map_updates_def map_deletions_def
      split: option.splits if_splits)

section \<open>Sequences of calls on a set tracker\<close>

datatype ('k, 's, 'e) set_call =
    DesiredAdd 'k
  | DesiredRemove 'k
  | DesiredRemoveAll "'k order" "'k order"
  | DataplaneAdd 'k
  | DataplaneRemove 'k
  | DataplaneRemoveAll "'k order"
  | ReplaceFromIter "'k list" "'e option" "'k order"
  | SetUpdatesIter "'k \<Rightarrow> 's \<Rightarrow> IterAction \<times> 's" "'k order"
  | SetDeletionsIter "'k \<Rightarrow> 's \<Rightarrow> IterAction \<times> 's" "'k order"

fun set_step :: "('k, 's, 'e) set_call \<Rightarrow> 'k SetDeltaTracker \<times> 's \<Rightarrow> 'k SetDeltaTracker \<times> 's" where
  "set_step (DesiredAdd k) (t, s) = (DesiredSetView_Add k t, s)"
| "set_step (DesiredRemove k) (t, s) = (DesiredSetView_Delete k t, s)"
| "set_step (DesiredRemoveAll o1 o2) (t, s) =
     (DesiredSetView_DeleteAll (o1 (dom (desiredUpdates t))) (o2 (dom (inDataplaneAndDesired t))) t, s)"
| "set_step (DataplaneAdd k) (t, s) = (DataplaneSetView_Add k t, s)"
| "set_step (DataplaneRemove k) (t, s) = (DataplaneSetView_Delete k t, s)"
| "set_step (DataplaneRemoveAll o1) (t, s) = (DataplaneSetView_DeleteAll (o1 (dom (inDataplaneAndDesired t))) t, s)"
| "set_step (ReplaceFromIter ks err o1) (t, s) =
     (snd (DataplaneSetView_ReplaceFromIter ks err (o1 (dom (inDataplaneAndDesired t))) t), s)"
| "set_step (SetUpdatesIter f o1) (t, s) = PendingUpdatesSetView_Iter f (o1 (dom (desiredUpdates t))) t s"
| "set_step (SetDeletionsIter f o1) (t, s) = PendingDeletionsSetView_Iter f (o1 (dom (inDataplaneNotDesired t))) t s"

text \<open>The call on the tracker that a call on the set stands for.\<close>

fun as_tracker_call :: "('k, 's, 'e) set_call \<Rightarrow> ('k, unit, 's, 'e) tracker_call" where
  "as_tracker_call (DesiredAdd k) = DesiredSet k ()"
| "as_tracker_call (DesiredRemove k) = DesiredDelete k"
| "as_tracker_call (DesiredRemoveAll o1 o2) = DesiredDeleteAll o1 o2"
| "as_tracker_call (DataplaneAdd k) = DataplaneSet k ()"
| "as_tracker_call (DataplaneRemove k) = DataplaneDelete k"
| "as_tracker_call (DataplaneRemoveAll o1) = DataplaneDeleteAll o1"
| "as_tracker_call (ReplaceFromIter ks err o1) = ReplaceAllIter (map (\<lambda>k. (k, ())) ks) err o1"
| "as_tracker_call (SetUpdatesIter f o1) = UpdatesIter (\<lambda>k _. f k) o1"
| "as_tracker_call (SetDeletionsIter f o1) = DeletionsIter f o1"

lemma set_step_tracker: "Return (set_step c st) = tracker_step (as_tracker_call c) st"
  by (cases c; cases st)
     (simp_all add: DesiredSetView_Add_def DesiredSetView_Delete_def DesiredSetView_DeleteAll_def DataplaneSetView_Add_def
        DataplaneSetView_Delete_def DataplaneSetView_DeleteAll_def DataplaneSetView_ReplaceFromIter_def
        PendingUpdatesSetView_Iter_def PendingDeletionsSetView_Iter_def)

lemma set_steps_tracker: "run_fold tracker_step (map as_tracker_call cs) st = Return (fold set_step cs st)"
  by (induction cs arbitrary: st) (simp_all add: set_step_tracker [symmetric])

lemma set_run_refines:
  assumes "list_all (tracker_call_ok \<circ> as_tracker_call) cs" and "fold set_step cs (empty_tracker, e) = (s, e')"
  shows "dt_exact s"
    and "run_fold maps_step (map as_tracker_call cs) ((Map.empty, Map.empty), e) = Return ((desired_map s, dataplane_map s), e')"
proof -
  have "list_all tracker_call_ok (map as_tracker_call cs)" using assms(1) by (simp add: list.pred_map)
  from tracker_run_refines [OF empty_tracker_exact this, of e]
  show "dt_exact s" and "run_fold maps_step (map as_tracker_call cs) ((Map.empty, Map.empty), e) = Return ((desired_map s, dataplane_map s), e')"
    by (simp_all add: set_steps_tracker assms(2) tracker_maps_def)
qed

end
