(* ===== verification/Caching_Map.thy ===== *)
theory Caching_Map
  imports Pending_Views
begin

text \<open>
  The caching layer in front of a BPF map (\<^verbatim>\<open>felix/cachingmap/caching_map.go\<close>).
  The backing map is reached through the interfaces \<^verbatim>\<open>DataplaneMap\<close> and
  \<^verbatim>\<open>DataplaneBatchedMap\<close>; they are a record of operations here, over a state
  \<open>'d\<close> that stands for the kernel's map, and what they promise is the locale
  \<open>dataplane_contract\<close>. The lemmas show that an apply returns, keeps the cache equal to the
  backing map whatever fails, moves keys only from their old to their desired value, and that an
  apply without an error leaves the backing map equal to the desired one.
\<close>

section \<open>The interfaces to the backing map\<close>

record ('k, 'v, 'd, 'e) DataplaneMap =
  dp_Update :: "'k \<Rightarrow> 'v \<Rightarrow> 'd \<Rightarrow> 'e option \<times> 'd"
  dp_Delete :: "'k \<Rightarrow> 'd \<Rightarrow> 'e option \<times> 'd"
  dp_Load :: "'d \<Rightarrow> ('e, 'k \<rightharpoonup> 'v) result \<times> 'd"
  dp_ErrIsNotExists :: "'e \<Rightarrow> bool"
  dp_Batched :: "(('k list \<Rightarrow> 'v list \<Rightarrow> 'd \<Rightarrow> (nat \<times> 'e option) \<times> 'd)
    \<times> ('k list \<Rightarrow> 'd \<Rightarrow> (nat \<times> 'e option) \<times> 'd)) option"

text \<open>
  \<^const>\<open>dp_Batched\<close> is the type assertion \<^verbatim>\<open>dpMap.(DataplaneBatchedMap)\<close>:
  the batch operations when the map has them.
\<close>

datatype 'e apply_error = DPError 'e | ErrSlice "'e apply_error list"

section \<open>The caching map\<close>

record ('k, 'v) CachingMap =
  cm_name :: string
  deltaTracker :: "('k, 'v) DeltaTracker"
  cacheLoaded :: bool

definition CachingMap_New :: "string \<Rightarrow> ('k, 'v) CachingMap option" where
  "CachingMap_New n =
     map_option (\<lambda>t. \<lparr>cm_name = n, deltaTracker = t, cacheLoaded = False\<rparr>)
       (New False [WithValuesEqualFn (\<lambda>a b. a = b)])"

definition LoadCacheFromDataplane ::
  "('k, 'v, 'd, 'e) DataplaneMap \<Rightarrow> 'k range_order \<Rightarrow> ('k, 'v) CachingMap \<Rightarrow> 'd
   \<Rightarrow> 'e option \<times> ('k, 'v) CachingMap \<times> 'd" where
  "LoadCacheFromDataplane dp ord c d =
     (case dp_Load dp d of
        (Inl e, d') \<Rightarrow> (Some e, c, d')
      | (Inr m, d') \<Rightarrow>
          (None, c\<lparr>deltaTracker :=
                     DataplaneView_ReplaceAllMap m (ord 0 (dom m))
                       (ord 1 (dom (inDataplaneAndDesired (deltaTracker c)))) (deltaTracker c),
                   cacheLoaded := True\<rparr>, d'))"

definition maybeLoadCache ::
  "('k, 'v, 'd, 'e) DataplaneMap \<Rightarrow> 'k range_order \<Rightarrow> ('k, 'v) CachingMap \<Rightarrow> 'd
   \<Rightarrow> 'e option \<times> ('k, 'v) CachingMap \<times> 'd" where
  "maybeLoadCache dp ord c d =
     (if cacheLoaded c then (None, c, d) else LoadCacheFromDataplane dp ord c d)"

text \<open>The callbacks of the loops, over the backing map and the errors collected so far.\<close>

definition update_batch ::
  "('k list \<Rightarrow> 'v list \<Rightarrow> 'd \<Rightarrow> (nat \<times> 'e option) \<times> 'd) \<Rightarrow> 'k list \<Rightarrow> 'v list \<Rightarrow> 'd \<times> 'e list
   \<Rightarrow> (nat \<times> 'e option) \<times> 'd \<times> 'e list" where
  "update_batch BatchUpdate ks vs = (\<lambda>(d, errs).
     case BatchUpdate ks vs d of
       ((n, None), d') \<Rightarrow> ((n, None), d', errs)
     | ((n, Some e), d') \<Rightarrow> ((n, Some e), d', errs @ [e]))"

definition update_one ::
  "('k, 'v, 'd, 'e) DataplaneMap \<Rightarrow> 'k \<Rightarrow> 'v \<Rightarrow> 'd \<times> 'e list \<Rightarrow> IterAction \<times> 'd \<times> 'e list" where
  "update_one dp k v = (\<lambda>(d, errs).
     case dp_Update dp k v d of
       (Some e, d') \<Rightarrow> (IterActionNoOp, d', errs @ [e])
     | (None, d') \<Rightarrow> (IterActionUpdateDataplane, d', errs))"

definition delete_batch ::
  "('k, 'v, 'd, 'e) DataplaneMap \<Rightarrow> ('k list \<Rightarrow> 'd \<Rightarrow> (nat \<times> 'e option) \<times> 'd)
   \<Rightarrow> 'k list \<Rightarrow> 'd \<times> 'e list \<Rightarrow> (nat \<times> 'e option) \<times> 'd \<times> 'e list" where
  "delete_batch dp BatchDelete ks = (\<lambda>(d, errs).
     case BatchDelete ks d of
       ((n, None), d') \<Rightarrow> ((n, None), d', errs)
     | ((n, Some e), d') \<Rightarrow>
         if dp_ErrIsNotExists dp e then ((n + 1, None), d', errs)
         else ((n, Some e), d', errs @ [e]))"

definition delete_one ::
  "('k, 'v, 'd, 'e) DataplaneMap \<Rightarrow> 'k \<Rightarrow> 'd \<times> 'e list \<Rightarrow> IterAction \<times> 'd \<times> 'e list" where
  "delete_one dp k = (\<lambda>(d, errs).
     case dp_Delete dp k d of
       (Some e, d') \<Rightarrow>
         if \<not> dp_ErrIsNotExists dp e then (IterActionNoOp, d', errs @ [e])
         else (IterActionUpdateDataplane, d', errs)
     | (None, d') \<Rightarrow> (IterActionUpdateDataplane, d', errs))"

definition apply_result ::
  "('k, 'v) CachingMap \<Rightarrow> (('k, 'v) DeltaTracker \<times> 'd \<times> 'e list) run
   \<Rightarrow> ('e apply_error option \<times> ('k, 'v) CachingMap \<times> 'd) run" where
  "apply_result c r =
     (case r of
        Return (t', d', errs) \<Rightarrow>
          Return (if errs \<noteq> [] then Some (ErrSlice (map DPError errs)) else None,
                  c\<lparr>deltaTracker := t'\<rparr>, d')
      | Panic \<Rightarrow> Panic
      | NoFuel \<Rightarrow> NoFuel)"

definition ApplyUpdatesOnly ::
  "('k, 'v, 'd, 'e) DataplaneMap \<Rightarrow> 'k range_order \<Rightarrow> ('k, 'v) CachingMap \<Rightarrow> 'd
   \<Rightarrow> ('e apply_error option \<times> ('k, 'v) CachingMap \<times> 'd) run" where
  "ApplyUpdatesOnly dp ord c d =
     (case maybeLoadCache dp ord c d of
        (Some e, c, d) \<Rightarrow> Return (Some (DPError e), c, d)
      | (None, c, d) \<Rightarrow>
          (let t = deltaTracker c; ks = ord 2 (dom (desiredUpdates t))
           in apply_result c
                (case dp_Batched dp of
                   Some (BatchUpdate, _) \<Rightarrow>
                     PendingUpdatesView_IterBatched (update_batch BatchUpdate) ks t (d, [])
                 | None \<Rightarrow> Return (PendingUpdatesView_Iter (update_one dp) ks t (d, [])))))"

definition ApplyDeletionsOnly ::
  "('k, 'v, 'd, 'e) DataplaneMap \<Rightarrow> 'k range_order \<Rightarrow> ('k, 'v) CachingMap \<Rightarrow> 'd
   \<Rightarrow> ('e apply_error option \<times> ('k, 'v) CachingMap \<times> 'd) run" where
  "ApplyDeletionsOnly dp ord c d =
     (case maybeLoadCache dp ord c d of
        (Some e, c, d) \<Rightarrow> Return (Some (DPError e), c, d)
      | (None, c, d) \<Rightarrow>
          (let t = deltaTracker c; ks = ord 2 (dom (inDataplaneNotDesired t))
           in apply_result c
                (case dp_Batched dp of
                   Some (_, BatchDelete) \<Rightarrow>
                     PendingDeletionsView_IterBatched (delete_batch dp BatchDelete) ks t (d, [])
                 | None \<Rightarrow> Return (PendingDeletionsView_Iter (delete_one dp) ks t (d, [])))))"

definition ApplyAllChanges ::
  "('k, 'v, 'd, 'e) DataplaneMap \<Rightarrow> 'k range_order \<Rightarrow> ('k, 'v) CachingMap \<Rightarrow> 'd
   \<Rightarrow> ('e apply_error option \<times> ('k, 'v) CachingMap \<times> 'd) run" where
  "ApplyAllChanges dp ord c d =
     (case ApplyDeletionsOnly dp ord c d of
        Return (err, c, d) \<Rightarrow>
          (let errs = (case err of Some e \<Rightarrow> [e] | None \<Rightarrow> [])
           in case ApplyUpdatesOnly dp (\<lambda>i. ord (i + 3)) c d of
                Return (err, c, d) \<Rightarrow>
                  (let errs = (case err of Some e \<Rightarrow> errs @ [e] | None \<Rightarrow> errs)
                   in Return (if length errs > 0 then Some (ErrSlice errs) else None, c, d))
              | Panic \<Rightarrow> Panic
              | NoFuel \<Rightarrow> NoFuel)
      | Panic \<Rightarrow> Panic
      | NoFuel \<Rightarrow> NoFuel)"

section \<open>What the backing map promises\<close>

text \<open>
  A tracker and a backing map in step, with the desired map \<open>D\<close>; a map \<open>m'\<close> that comes from
  \<open>m\<close> by moving only keys of \<open>S\<close>, and those to their desired value; and the invariant of a caching
  map over its backing map.
\<close>

definition in_step ::
  "('d \<Rightarrow> 'k \<rightharpoonup> 'v) \<Rightarrow> ('d \<Rightarrow> bool) \<Rightarrow> ('k \<rightharpoonup> 'v) \<Rightarrow> ('k, 'v) DeltaTracker \<Rightarrow> 'd \<Rightarrow> bool" where
  "in_step contents ok D t d \<longleftrightarrow>
     dt_exact t \<and> desired_map t = D \<and> dataplane_map t = contents d \<and> ok d"

definition moved :: "'k set \<Rightarrow> ('k \<rightharpoonup> 'v) \<Rightarrow> ('k \<rightharpoonup> 'v) \<Rightarrow> ('k \<rightharpoonup> 'v) \<Rightarrow> bool" where
  "moved S D m m' \<longleftrightarrow> (\<forall>k. m' k = m k \<or> k \<in> S \<and> m' k = D k)"

definition cm_inv ::
  "('d \<Rightarrow> 'k \<rightharpoonup> 'v) \<Rightarrow> ('d \<Rightarrow> bool) \<Rightarrow> ('k, 'v) CachingMap \<Rightarrow> 'd \<Rightarrow> bool" where
  "cm_inv contents ok c d \<longleftrightarrow> dt_exact (deltaTracker c) \<and> ok d
     \<and> (cacheLoaded c \<longrightarrow> dataplane_map (deltaTracker c) = contents d)"

abbreviation desired :: "('k, 'v) CachingMap \<Rightarrow> 'k \<rightharpoonup> 'v" where
  "desired c \<equiv> desired_map (deltaTracker c)"

lemma moved_trans: "moved S D m m' \<Longrightarrow> moved T D m' m'' \<Longrightarrow> moved (S \<union> T) D m m''"
  unfolding moved_def by (metis UnI1 UnI2)

text \<open>
  The contract of the backing map: \<open>contents\<close> is what the kernel holds, \<open>ok\<close> a condition on
  its state that every operation keeps. A failed operation changes nothing; a batch operation
  applies the entries before the one it reports, and reports an entry that exists.
\<close>

locale dataplane_contract =
  fixes dp :: "('k, 'v, 'd, 'e) DataplaneMap"
    and contents :: "'d \<Rightarrow> 'k \<rightharpoonup> 'v"
    and ok :: "'d \<Rightarrow> bool"
  assumes Update: "ok d \<Longrightarrow> dp_Update dp k v d = (err, d') \<Longrightarrow>
      ok d' \<and> contents d' = (if err = None then map_put (k, v) (contents d) else contents d)"
    and Delete: "ok d \<Longrightarrow> dp_Delete dp k d = (err, d') \<Longrightarrow>
      ok d' \<and> contents d' = (if err = None then (contents d)(k := None) else contents d)"
    and Delete_not_exists: "ok d \<Longrightarrow> dp_Delete dp k d = (Some e, d') \<Longrightarrow>
      dp_ErrIsNotExists dp e \<Longrightarrow> contents d k = None"
    and Load: "ok d \<Longrightarrow> dp_Load dp d = (r, d') \<Longrightarrow> ok d' \<and> contents d' = contents d"
    and Load_contents: "ok d \<Longrightarrow> dp_Load dp d = (Inr m, d') \<Longrightarrow> m = contents d \<and> finite (dom m)"
    and BatchUpdate: "ok d \<Longrightarrow> dp_Batched dp = Some (BatchUpdate, BatchDelete) \<Longrightarrow>
      BatchUpdate (map fst xs) (map snd xs) d = ((n, err), d') \<Longrightarrow>
      ok d' \<and> contents d' = fold map_put (take n xs) (contents d)
      \<and> (xs \<noteq> [] \<longrightarrow> (case err of None \<Rightarrow> 0 < n \<and> n \<le> length xs | Some _ \<Rightarrow> n < length xs))"
    and BatchDelete: "ok d \<Longrightarrow> dp_Batched dp = Some (BatchUpdate, BatchDelete) \<Longrightarrow>
      BatchDelete ks d = ((n, err), d') \<Longrightarrow>
      ok d' \<and> contents d' = contents d |` (- set (take n ks))
      \<and> (ks \<noteq> [] \<longrightarrow> (case err of None \<Rightarrow> 0 < n \<and> n \<le> length ks | Some _ \<Rightarrow> n < length ks))"
    and BatchDelete_not_exists: "ok d \<Longrightarrow> dp_Batched dp = Some (BatchUpdate, BatchDelete) \<Longrightarrow>
      BatchDelete ks d = ((n, Some e), d') \<Longrightarrow> dp_ErrIsNotExists dp e \<Longrightarrow> contents d' (ks ! n) = None"
begin

definition step_rel :: "'k set \<Rightarrow> ('k \<rightharpoonup> 'v) \<Rightarrow> ('k \<rightharpoonup> 'v) \<Rightarrow> ('k, 'v) DeltaTracker \<Rightarrow> 'd \<times> 'e list \<Rightarrow> bool" where
  "step_rel S D m t s \<longleftrightarrow> in_step contents ok D t (fst s) \<and> moved S D m (contents (fst s))"

lemma desired_of_update:
  assumes "pending_update t k = Some x"
  shows "desired_map t (fst x) = Some (snd x)"
  using assms by (auto simp: pending_update_def desired_map_def)

lemma desired_of_deletion:
  assumes "dt_inv t" and "pending_deletion t k = Some j"
  shows "desired_map t j = None"
proof -
  have "inDataplaneNotDesired t j \<noteq> None" using assms(2) by (auto simp: pending_deletion_def)
  then show ?thesis
    using inDataplaneNotDesired_eq [OF assms(1)] by (auto simp: map_deletions_def split: if_splits)
qed

lemma commit_updates_rel:
  assumes rel: "step_rel (dom D) D m t (d, errs)" and live: "updates.live t xs"
    and d': "ok d'" "contents d' = fold map_put xs (contents d)"
  shows "step_rel (dom D) D m (fold commit_update xs t) (d', errs')"
proof -
  have t: "dt_inv t" "valuesEqual t = (\<lambda>a b. a = b)" "desired_map t = D" "dataplane_map t = contents d"
    using rel by (simp_all add: step_rel_def in_step_def dt_exact_def)
  have D: "D k = Some v" if "(k, v) \<in> set xs" for k v
    using live that desired_of_update [of t k "(k, v)"] t(3) by (auto simp: updates.live_def)
  have "contents d' k = m k \<or> k \<in> dom D \<and> contents d' k = D k" for k
    using fold_map_put_in [of xs "contents d" k] D rel d' by (auto simp: step_rel_def moved_def)
  with live_commit_updates [OF live t(1)] t d' show ?thesis
    by (simp add: step_rel_def in_step_def moved_def dt_exact_def)
qed

lemma commit_deletions_rel:
  assumes rel: "step_rel (- dom D) D m t (d, errs)" and live: "deletions.live t ks"
    and d': "ok d'" "contents d' = contents d |` (- set ks)"
  shows "step_rel (- dom D) D m (fold commit_deletion ks t) (d', errs')"
proof -
  have t: "dt_inv t" "valuesEqual t = (\<lambda>a b. a = b)" "desired_map t = D" "dataplane_map t = contents d"
    using rel by (simp_all add: step_rel_def in_step_def dt_exact_def)
  have D: "D k = None" if "k \<in> set ks" for k
    using live that desired_of_deletion [OF t(1), of k k] t(3) by (auto simp: deletions.live_def)
  have "contents d' k = m k \<or> k \<in> - dom D \<and> contents d' k = D k" for k
    using D rel d' by (auto simp: step_rel_def moved_def restrict_map_def)
  with live_commit_deletions [OF live t(1)] t d' show ?thesis
    by (simp add: step_rel_def in_step_def moved_def dt_exact_def)
qed

subsection \<open>The callbacks\<close>

lemma update_batch_keeps:
  assumes "dp_Batched dp = Some (bu, bd)"
  shows "updates.keeps (\<lambda>xs. update_batch bu (map fst xs) (map snd xs)) (step_rel (dom D) D m)"
  unfolding updates.keeps_def
proof (intro allI impI)
  fix xs t s n e s'
  assume rel: "step_rel (dom D) D m t s" and live: "updates.live t xs"
    and call: "update_batch bu (map fst xs) (map snd xs) s = ((n, e), s')" and "n \<le> length xs"
  obtain d errs where s: "s = (d, errs)" by (cases s)
  obtain d' errs' where s': "s' = (d', errs')" by (cases s')
  have bu: "bu (map fst xs) (map snd xs) d = ((n, e), d')"
    using call by (auto simp: update_batch_def s s' split: prod.splits option.splits)
  have "ok d" using rel by (simp add: s step_rel_def in_step_def)
  from BatchUpdate [OF this assms bu]
  show "step_rel (dom D) D m (fold commit_update (take n xs) t) s'"
    using rel live unfolding s s' by (intro commit_updates_rel [where d = d]) (auto intro: updates.live_take)
qed

lemma update_batch_reports:
  "updates.reports (\<lambda>xs. update_batch bu (map fst xs) (map snd xs)) (\<lambda>s. snd s = [])"
  by (auto simp: updates.reports_def update_batch_def split: prod.splits option.splits)

lemma update_batch_contract:
  assumes "dp_Batched dp = Some (bu, bd)"
  shows "batch_contract (\<lambda>s. ok (fst s)) (\<lambda>xs. update_batch bu (map fst xs) (map snd xs))"
  unfolding batch_contract_def
proof (intro allI impI, elim conjE)
  fix xs s n e s'
  assume ok: "ok (fst s)" and xs: "xs \<noteq> []"
    and call: "update_batch bu (map fst xs) (map snd xs) s = ((n, e), s')"
  have bu: "bu (map fst xs) (map snd xs) (fst s) = ((n, e), fst s')"
    using call by (auto simp: update_batch_def split: prod.splits option.splits)
  from BatchUpdate [OF ok assms bu] xs
  show "ok (fst s') \<and> (case e of None \<Rightarrow> 0 < n \<and> n \<le> length xs | Some _ \<Rightarrow> n < length xs)" by blast
qed

lemma delete_batch_call:
  assumes "dp_Batched dp = Some (bu, bd)" and ok: "ok d"
    and call: "delete_batch dp bd ks (d, errs) = ((n, e), d', errs')"
  shows "ok d'" and "n \<le> length ks \<Longrightarrow> contents d' = contents d |` (- set (take n ks))"
    and "ks \<noteq> [] \<Longrightarrow> (case e of None \<Rightarrow> 0 < n \<and> n \<le> length ks | Some _ \<Rightarrow> n < length ks)"
proof -
  obtain i err where bd: "bd ks d = ((i, err), d')"
    and cases: "(n, e) = (case err of None \<Rightarrow> (i, None)
      | Some x \<Rightarrow> if dp_ErrIsNotExists dp x then (i + 1, None) else (i, Some x))"
    using call by (auto simp: delete_batch_def split: prod.splits option.splits if_splits)
  note spec = BatchDelete [OF ok assms(1) bd]
  show "ok d'" using spec by blast
  show "case e of None \<Rightarrow> 0 < n \<and> n \<le> length ks | Some _ \<Rightarrow> n < length ks" if "ks \<noteq> []"
    using spec that cases by (auto split: option.splits if_splits)
  show "contents d' = contents d |` (- set (take n ks))" if n: "n \<le> length ks"
  proof (cases "\<exists>x. err = Some x \<and> dp_ErrIsNotExists dp x")
    case True
    then obtain x where x: "err = Some x" "dp_ErrIsNotExists dp x" by blast
    have "contents d' (ks ! i) = None"
      using BatchDelete_not_exists [OF ok assms(1) _ x(2)] bd x(1) by blast
    moreover have "set (take n ks) = insert (ks ! i) (set (take i ks))"
      using cases n x by (simp add: take_Suc_conv_app_nth)
    ultimately show ?thesis
      using spec by (auto simp: restrict_map_def fun_eq_iff)
  next
    case False
    then show ?thesis using spec cases by (auto split: option.splits)
  qed
qed

lemma delete_batch_keeps:
  assumes "dp_Batched dp = Some (bu, bd)"
  shows "deletions.keeps (delete_batch dp bd) (step_rel (- dom D) D m)"
  unfolding deletions.keeps_def
proof (intro allI impI)
  fix xs t s n e s'
  assume rel: "step_rel (- dom D) D m t s" and live: "deletions.live t xs"
    and call: "delete_batch dp bd xs s = ((n, e), s')" and n: "n \<le> length xs"
  obtain d errs d' errs' where s: "s = (d, errs)" "s' = (d', errs')" by (cases s; cases s')
  have "ok d" using rel by (simp add: s step_rel_def in_step_def)
  from delete_batch_call [OF assms this call [unfolded s]] n
  show "step_rel (- dom D) D m (fold commit_deletion (take n xs) t) s'"
    using rel live unfolding s by (intro commit_deletions_rel [where d = d]) (auto intro: deletions.live_take)
qed

lemma delete_batch_reports: "deletions.reports (delete_batch dp bd) (\<lambda>s. snd s = [])"
  by (auto simp: deletions.reports_def delete_batch_def split: prod.splits option.splits if_splits)

lemma delete_batch_contract:
  assumes "dp_Batched dp = Some (bu, bd)"
  shows "batch_contract (\<lambda>s. ok (fst s)) (delete_batch dp bd)"
  unfolding batch_contract_def
proof (intro allI impI, elim conjE)
  fix xs :: "'k list" and s n e s'
  assume "ok (fst s)" and "xs \<noteq> []" and "delete_batch dp bd xs s = ((n, e), s')"
  then show "ok (fst s') \<and> (case e of None \<Rightarrow> 0 < n \<and> n \<le> length xs | Some _ \<Rightarrow> n < length xs)"
    using delete_batch_call [OF assms, of "fst s" xs "snd s" n e "fst s'" "snd s'"] by simp
qed

lemma update_one_step:
  assumes rel: "step_rel (dom D) D m t s" and pend: "pending_update t k = Some x"
  shows "case (case x of (k, v) \<Rightarrow> update_one dp k v) s of
      (IterActionUpdateDataplane, s') \<Rightarrow> step_rel (dom D) D m (commit_update x t) s'
    | (_, s') \<Rightarrow> step_rel (dom D) D m t s'"
proof -
  obtain k v d errs where x: "x = (k, v)" and s: "s = (d, errs)" by (cases x; cases s)
  obtain err d' where up: "dp_Update dp k v d = (err, d')" by (cases "dp_Update dp k v d")
  have "ok d" using rel by (simp add: s step_rel_def in_step_def)
  note spec = Update [OF this up]
  have "step_rel (dom D) D m (commit_update x t) (d', errs)" if "err = None"
    using commit_updates_rel [OF rel [unfolded s] updates_pend_live [OF pend], of d' errs] spec that
    by (simp add: x)
  moreover have "step_rel (dom D) D m t (d', errs @ [y])" if "err = Some y" for y
    using rel spec that by (simp add: s step_rel_def in_step_def moved_def)
  ultimately show ?thesis
    by (cases err) (simp_all add: x s update_one_def up)
qed

lemma delete_one_step:
  assumes rel: "step_rel (- dom D) D m t s" and pend: "pending_deletion t j = Some k"
  shows "case delete_one dp k s of
      (IterActionUpdateDataplane, s') \<Rightarrow> step_rel (- dom D) D m (commit_deletion k t) s'
    | (_, s') \<Rightarrow> step_rel (- dom D) D m t s'"
proof -
  obtain d errs where s: "s = (d, errs)" by (cases s)
  obtain err d' where del: "dp_Delete dp k d = (err, d')" by (cases "dp_Delete dp k d")
  have ok: "ok d" using rel by (simp add: s step_rel_def in_step_def)
  note spec = Delete [OF ok del]
  have gone: "contents d' = contents d |` (- {k})"
    if "err = None \<or> (\<exists>y. err = Some y \<and> dp_ErrIsNotExists dp y)"
    using that spec Delete_not_exists [OF ok, of k _ d'] del
    by (auto simp: restrict_map_def fun_eq_iff)
  have "step_rel (- dom D) D m (commit_deletion k t) (d', errs)"
    if "err = None \<or> (\<exists>y. err = Some y \<and> dp_ErrIsNotExists dp y)"
    using commit_deletions_rel [OF rel [unfolded s] deletions_pend_live [OF pend], of d' errs] spec gone that
    by simp
  moreover have "step_rel (- dom D) D m t (d', errs @ [y])" if "err = Some y" for y
    using rel spec that by (simp add: s step_rel_def in_step_def moved_def)
  ultimately show ?thesis
    by (cases err) (simp_all add: s delete_one_def del)
qed

subsection \<open>The loops over the backing map\<close>

lemma updates_loop:
  assumes rel: "step_rel (dom D) D m t (d, [])" and ks: "visits ks (desiredUpdates t)"
  shows "\<exists>t' d' errs.
      (case dp_Batched dp of
         Some (BatchUpdate, _) \<Rightarrow> PendingUpdatesView_IterBatched (update_batch BatchUpdate) ks t (d, [])
       | None \<Rightarrow> Return (PendingUpdatesView_Iter (update_one dp) ks t (d, []))) = Return (t', d', errs)
      \<and> step_rel (dom D) D m t' (d', errs) \<and> (errs = [] \<longrightarrow> updates.pend t' = {})"
proof (cases "dp_Batched dp")
  case None
  let ?f = "\<lambda>(k, v). update_one dp k v"
  obtain t' d' errs where run: "iter_pending pending_update commit_update ?f ks t (d, []) = (t', d', errs)"
    by (rule prod_cases3)
  have inv: "step_rel (dom D) D m t' (d', errs)"
    using updates.iter_pending_inv [of "step_rel (dom D) D m" ?f t "(d, [])" ks, OF update_one_step rel]
    by (simp add: run)
  have honest: "a = IterActionUpdateDataplane \<and> snd s = []"
    if "?f x s = (a, s')" "snd s' = []" for x s a s'
    using that by (auto simp: update_one_def split: prod.splits option.splits)
  have "updates.pend t' = {}" if "errs = []"
    using updates.iter_pending_pend [of ?f "\<lambda>s. snd s = []", OF honest run] ks that
    by (auto simp: visits_def updates_pend)
  with None inv run show ?thesis by (simp add: PendingUpdatesView_Iter_def)
next
  case (Some b)
  obtain bu bd where b: "dp_Batched dp = Some (bu, bd)" using Some by (cases b) simp
  let ?f = "\<lambda>xs. update_batch bu (map fst xs) (map snd xs)"
  have "ok (fst (d, [] :: 'e list))" using rel by (simp add: step_rel_def in_step_def)
  from iter_batched_returns [OF update_batch_contract [OF b] this, of pending_update commit_update ks t]
  obtain t' d' errs where run: "iter_batched pending_update commit_update ?f ks t (d, []) = Return (t', d', errs)"
    by auto
  have "distinct ks" and "updates.pend t \<subseteq> set ks"
    using ks by (simp_all add: visits_def updates_pend)
  with updates.iter_batched_inv [OF update_batch_keeps [OF b] update_batch_reports run rel]
  show ?thesis using b run by (simp add: PendingUpdatesView_IterBatched_def)
qed

lemma deletions_loop:
  assumes rel: "step_rel (- dom D) D m t (d, [])" and ks: "visits ks (inDataplaneNotDesired t)"
  shows "\<exists>t' d' errs.
      (case dp_Batched dp of
         Some (_, BatchDelete) \<Rightarrow> PendingDeletionsView_IterBatched (delete_batch dp BatchDelete) ks t (d, [])
       | None \<Rightarrow> Return (PendingDeletionsView_Iter (delete_one dp) ks t (d, []))) = Return (t', d', errs)
      \<and> step_rel (- dom D) D m t' (d', errs) \<and> (errs = [] \<longrightarrow> deletions.pend t' = {})"
proof (cases "dp_Batched dp")
  case None
  obtain t' d' errs where run: "iter_pending pending_deletion commit_deletion (delete_one dp) ks t (d, []) = (t', d', errs)"
    by (rule prod_cases3)
  have inv: "step_rel (- dom D) D m t' (d', errs)"
    using deletions.iter_pending_inv [of "step_rel (- dom D) D m" "delete_one dp" t "(d, [])" ks, OF delete_one_step rel]
    by (simp add: run)
  have honest: "a = IterActionUpdateDataplane \<and> snd s = []"
    if "delete_one dp x s = (a, s')" "snd s' = []" for x s a s'
    using that by (auto simp: delete_one_def split: prod.splits option.splits if_splits)
  have "deletions.pend t' = {}" if "errs = []"
    using deletions.iter_pending_pend [of "delete_one dp" "\<lambda>s. snd s = []", OF honest run] ks that
    by (auto simp: visits_def deletions_pend)
  with None inv run show ?thesis by (simp add: PendingDeletionsView_Iter_def)
next
  case (Some b)
  obtain bu bd where b: "dp_Batched dp = Some (bu, bd)" using Some by (cases b) simp
  have "ok (fst (d, [] :: 'e list))" using rel by (simp add: step_rel_def in_step_def)
  from iter_batched_returns [OF delete_batch_contract [OF b] this, of pending_deletion commit_deletion ks t]
  obtain t' d' errs where run: "iter_batched pending_deletion commit_deletion (delete_batch dp bd) ks t (d, []) = Return (t', d', errs)"
    by auto
  have "distinct ks" and "deletions.pend t \<subseteq> set ks"
    using ks by (simp_all add: visits_def deletions_pend)
  with deletions.iter_batched_inv [OF delete_batch_keeps [OF b] delete_batch_reports run rel]
  show ?thesis using b run by (simp add: PendingDeletionsView_IterBatched_def)
qed

subsection \<open>The operations\<close>

lemma maybeLoadCache_spec:
  assumes inv: "cm_inv contents ok c d" and ord: "range_orders ord"
    and load: "maybeLoadCache dp ord c d = (err, c', d')"
  shows "cm_inv contents ok c' d'" and "desired c' = desired c" and "contents d' = contents d"
    and "err = None \<Longrightarrow> cacheLoaded c'"
proof -
  have "cm_inv contents ok c' d' \<and> desired c' = desired c \<and> contents d' = contents d \<and> (err = None \<longrightarrow> cacheLoaded c')"
  proof (cases "cacheLoaded c")
    case True
    with assms show ?thesis by (auto simp: maybeLoadCache_def)
  next
    case False
    obtain r d1 where r: "dp_Load dp d = (r, d1)" by (cases "dp_Load dp d")
    have ok: "ok d" "dt_exact (deltaTracker c)" using inv by (simp_all add: cm_inv_def)
    have d1: "ok d1" "contents d1 = contents d" using Load [OF ok(1) r] by simp_all
    show ?thesis
    proof (cases r)
      case (Inl e)
      with False load r d1 ok show ?thesis
        by (auto simp: maybeLoadCache_def LoadCacheFromDataplane_def cm_inv_def)
    next
      case (Inr m)
      let ?t = "deltaTracker c"
      have m: "m = contents d" "finite (dom m)" using Load_contents [OF ok(1) r [unfolded Inr]] by blast+
      have "finite (dom (inDataplaneAndDesired ?t))"
        using dt_exactD(1) [OF ok(2)] by (simp add: dt_inv_def)
      with m ord have "visits (ord 0 (dom m)) m"
        "visits (ord 1 (dom (inDataplaneAndDesired ?t))) (inDataplaneAndDesired ?t)"
        by (auto simp: range_orders_def visits_def)
      note spec = ReplaceAllMap_spec [OF dt_exactD(1) [OF ok(2)] this]
      from False load r Inr d1 m ok(2) spec show ?thesis
        by (auto simp: maybeLoadCache_def LoadCacheFromDataplane_def cm_inv_def dt_exact_def)
    qed
  qed
  then show "cm_inv contents ok c' d'" "desired c' = desired c" "contents d' = contents d"
    "err = None \<Longrightarrow> cacheLoaded c'" by auto
qed

lemma ApplyUpdatesOnly_spec:
  assumes inv: "cm_inv contents ok c d" and ord: "range_orders ord"
  shows "\<exists>err c' d'. ApplyUpdatesOnly dp ord c d = Return (err, c', d')
    \<and> cm_inv contents ok c' d' \<and> desired c' = desired c
    \<and> moved (dom (desired c)) (desired c) (contents d) (contents d')
    \<and> (err = None \<longrightarrow> cacheLoaded c' \<and> (\<forall>k \<in> dom (desired c). contents d' k = desired c k))"
proof -
  obtain err c1 d1 where load: "maybeLoadCache dp ord c d = (err, c1, d1)"
    by (rule prod_cases3)
  note loaded = maybeLoadCache_spec [OF inv ord load]
  show ?thesis
  proof (cases err)
    case (Some e)
    with load loaded show ?thesis by (simp add: ApplyUpdatesOnly_def moved_def)
  next
    case None
    let ?t = "deltaTracker c1" let ?ks = "ord 2 (dom (desiredUpdates ?t))"
    have rel: "step_rel (dom (desired c)) (desired c) (contents d) ?t (d1, [])"
      using loaded None by (simp add: step_rel_def in_step_def moved_def cm_inv_def)
    have "dt_inv ?t" using loaded(1) by (simp add: cm_inv_def dt_exact_def)
    then have "visits ?ks (desiredUpdates ?t)"
      using ord by (simp add: range_orders_def visits_def dt_inv_def)
    from updates_loop [OF rel this] obtain t' d' errs
      where run: "(case dp_Batched dp of
          Some (BatchUpdate, _) \<Rightarrow> PendingUpdatesView_IterBatched (update_batch BatchUpdate) ?ks ?t (d1, [])
        | None \<Rightarrow> Return (PendingUpdatesView_Iter (update_one dp) ?ks ?t (d1, []))) = Return (t', d', errs)"
        and post: "step_rel (dom (desired c)) (desired c) (contents d) t' (d', errs)"
        and none: "errs = [] \<longrightarrow> updates.pend t' = {}"
      by blast
    have t': "dt_exact t'" "desired_map t' = desired c" "dataplane_map t' = contents d'"
      using post by (simp_all add: step_rel_def in_step_def)
    have "contents d' k = desired c k" if "errs = []" "k \<in> dom (desired c)" for k
      using no_updates_pending [of t' k] none t' that by simp
    with load None run post loaded(4) show ?thesis
      by (simp add: ApplyUpdatesOnly_def Let_def apply_result_def step_rel_def in_step_def cm_inv_def)
  qed
qed

lemma ApplyDeletionsOnly_spec:
  assumes inv: "cm_inv contents ok c d" and ord: "range_orders ord"
  shows "\<exists>err c' d'. ApplyDeletionsOnly dp ord c d = Return (err, c', d')
    \<and> cm_inv contents ok c' d' \<and> desired c' = desired c
    \<and> moved (- dom (desired c)) (desired c) (contents d) (contents d')
    \<and> (err = None \<longrightarrow> cacheLoaded c' \<and> dom (contents d') \<subseteq> dom (desired c))"
proof -
  obtain err c1 d1 where load: "maybeLoadCache dp ord c d = (err, c1, d1)"
    by (rule prod_cases3)
  note loaded = maybeLoadCache_spec [OF inv ord load]
  show ?thesis
  proof (cases err)
    case (Some e)
    with load loaded show ?thesis by (simp add: ApplyDeletionsOnly_def moved_def)
  next
    case None
    let ?t = "deltaTracker c1" let ?ks = "ord 2 (dom (inDataplaneNotDesired ?t))"
    have rel: "step_rel (- dom (desired c)) (desired c) (contents d) ?t (d1, [])"
      using loaded None by (simp add: step_rel_def in_step_def moved_def cm_inv_def)
    have "dt_inv ?t" using loaded(1) by (simp add: cm_inv_def dt_exact_def)
    then have "visits ?ks (inDataplaneNotDesired ?t)"
      using ord by (simp add: range_orders_def visits_def dt_inv_def)
    from deletions_loop [OF rel this] obtain t' d' errs
      where run: "(case dp_Batched dp of
          Some (_, BatchDelete) \<Rightarrow> PendingDeletionsView_IterBatched (delete_batch dp BatchDelete) ?ks ?t (d1, [])
        | None \<Rightarrow> Return (PendingDeletionsView_Iter (delete_one dp) ?ks ?t (d1, []))) = Return (t', d', errs)"
        and post: "step_rel (- dom (desired c)) (desired c) (contents d) t' (d', errs)"
        and none: "errs = [] \<longrightarrow> deletions.pend t' = {}"
      by blast
    have t': "dt_exact t'" "desired_map t' = desired c" "dataplane_map t' = contents d'"
      using post by (simp_all add: step_rel_def in_step_def)
    have "dom (contents d') \<subseteq> dom (desired c)" if "errs = []"
      using no_deletions_pending [of t'] none t' that by simp
    with load None run post loaded(4) show ?thesis
      by (simp add: ApplyDeletionsOnly_def Let_def apply_result_def step_rel_def in_step_def cm_inv_def)
  qed
qed

lemma ApplyAllChanges_spec:
  assumes inv: "cm_inv contents ok c d" and ord: "range_orders ord"
  shows "\<exists>err c' d'. ApplyAllChanges dp ord c d = Return (err, c', d')
    \<and> cm_inv contents ok c' d' \<and> desired c' = desired c
    \<and> moved UNIV (desired c) (contents d) (contents d')
    \<and> (err = None \<longrightarrow> contents d' = desired c \<and> InSync (deltaTracker c'))"
proof -
  from ApplyDeletionsOnly_spec [OF inv ord] obtain e1 c1 d1
    where del: "ApplyDeletionsOnly dp ord c d = Return (e1, c1, d1)"
      and inv1: "cm_inv contents ok c1 d1" and des1: "desired c1 = desired c"
      and mov1: "moved (- dom (desired c)) (desired c) (contents d) (contents d1)"
      and ok1: "e1 = None \<longrightarrow> dom (contents d1) \<subseteq> dom (desired c)" by blast
  have "range_orders (\<lambda>i. ord (i + 3))" using ord by (simp add: range_orders_def)
  from ApplyUpdatesOnly_spec [OF inv1 this] obtain e2 c2 d2
    where upd: "ApplyUpdatesOnly dp (\<lambda>i. ord (i + 3)) c1 d1 = Return (e2, c2, d2)"
      and inv2: "cm_inv contents ok c2 d2" and des2: "desired c2 = desired c"
      and mov2: "moved (dom (desired c)) (desired c) (contents d1) (contents d2)"
      and ok2: "e2 = None \<longrightarrow> cacheLoaded c2 \<and> (\<forall>k \<in> dom (desired c). contents d2 k = desired c k)"
    unfolding des1 by blast
  have same: "contents d2 = desired c" if "e1 = None" "e2 = None"
  proof
    fix k
    show "contents d2 k = desired c k"
      using dom_subset_None [of "contents d1" "desired c" k] ok1 ok2 that
        mov2 [unfolded moved_def, rule_format, of k]
      by (cases "desired c k") (auto simp: domIff)
  qed
  have "InSync (deltaTracker c2)" if "e1 = None" "e2 = None"
    using same [OF that] inv2 ok2 des2 that by (simp add: InSync_iff_maps cm_inv_def)
  with del upd inv2 des2 same moved_trans [OF mov1 mov2] show ?thesis
    by (cases e1; cases e2) (simp_all add: ApplyAllChanges_def Let_def)
qed

end

end
