(* ===== verification/Typed_Map.thy ===== *)
theory Typed_Map
  imports Caching_Map "HOL-Library.Word" "HOL-Library.Numeral_Type"
begin

text \<open>
  The typed view of a raw BPF map (\<^verbatim>\<open>TypedMap\<close> of
  \<^verbatim>\<open>felix/bpf/maps/maps.go\<close>), which is the backing map of the caching maps that
  Felix makes. The raw map is a record of operations on byte strings; what it promises is the
  locale \<open>raw_contract\<close>. The typed map over a raw map that keeps this contract keeps the
  contract of a backing map, and the in-memory map of \<^verbatim>\<open>felix/bpf/mock/map.go\<close>
  keeps the contract of a raw map.
\<close>

section \<open>The raw map\<close>

type_synonym byte = "8 word"
type_synonym bytes = "byte list"

text \<open>
  \<^verbatim>\<open>raw_Iter\<close> is an iteration whose callback deletes nothing: the entries the callback
  sees, and the error. \<^verbatim>\<open>raw_Batch\<close> is the type assertion
  \<^verbatim>\<open>untypedMap.(RawBatchOps)\<close>.
\<close>

record ('d, 'e) RawMap =
  raw_Update :: "bytes \<Rightarrow> bytes \<Rightarrow> 'd \<Rightarrow> 'e option \<times> 'd"
  raw_Get :: "bytes \<Rightarrow> 'd \<Rightarrow> ('e, bytes) result \<times> 'd"
  raw_Delete :: "bytes \<Rightarrow> 'd \<Rightarrow> 'e option \<times> 'd"
  raw_Iter :: "'d \<Rightarrow> ((bytes \<times> bytes) list \<times> 'e option) \<times> 'd"
  raw_ErrIsNotExists :: "'e \<Rightarrow> bool"
  raw_Batch :: "((bytes \<Rightarrow> bytes \<Rightarrow> nat \<Rightarrow> 'd \<Rightarrow> (nat \<times> 'e option) \<times> 'd)
    \<times> (bytes \<Rightarrow> nat \<Rightarrow> 'd \<Rightarrow> (nat \<times> 'e option) \<times> 'd)) option"

section \<open>The typed map\<close>

text \<open>
  The fields of \<^verbatim>\<open>TypedMap\<close>, with the \<^verbatim>\<open>AsBytes\<close> methods of the key and
  the value type, and the answer of \<^verbatim>\<open>isBatchOpsSupported\<close>.
\<close>

record ('k, 'v, 'd, 'e) TypedMap =
  untypedMap :: "('d, 'e) RawMap"
  kAsBytes :: "'k \<Rightarrow> bytes"
  vAsBytes :: "'v \<Rightarrow> bytes"
  kConstructor :: "bytes \<Rightarrow> 'k"
  vConstructor :: "bytes \<Rightarrow> 'v"
  batchOpsSupported :: bool

datatype 'e typed_error = RawError 'e | LengthMismatch

definition TypedMap_ErrIsNotExists :: "('k, 'v, 'd, 'e) TypedMap \<Rightarrow> 'e typed_error \<Rightarrow> bool" where
  "TypedMap_ErrIsNotExists m err =
     (case err of RawError e \<Rightarrow> raw_ErrIsNotExists (untypedMap m) e | LengthMismatch \<Rightarrow> False)"

definition TypedMap_Update ::
  "('k, 'v, 'd, 'e) TypedMap \<Rightarrow> 'k \<Rightarrow> 'v \<Rightarrow> 'd \<Rightarrow> 'e typed_error option \<times> 'd" where
  "TypedMap_Update m k v d =
     apfst (map_option RawError) (raw_Update (untypedMap m) (kAsBytes m k) (vAsBytes m v) d)"

fun update_loop ::
  "('k, 'v, 'd, 'e) TypedMap \<Rightarrow> ('k \<times> 'v) list \<Rightarrow> nat \<Rightarrow> 'd \<Rightarrow> (nat \<times> 'e typed_error option) \<times> 'd" where
  "update_loop m [] cnt d = ((cnt, None), d)"
| "update_loop m ((k, v) # kvs) cnt d =
     (case raw_Update (untypedMap m) (kAsBytes m k) (vAsBytes m v) d of
        (Some e, d') \<Rightarrow> if cnt = 0 then ((0, Some (RawError e)), d') else ((cnt, None), d')
      | (None, d') \<Rightarrow> update_loop m kvs (cnt + 1) d')"

definition TypedMap_BatchUpdate ::
  "('k, 'v, 'd, 'e) TypedMap \<Rightarrow> 'k list \<Rightarrow> 'v list \<Rightarrow> 'd \<Rightarrow> (nat \<times> 'e typed_error option) \<times> 'd" where
  "TypedMap_BatchUpdate m ks vs d =
     (let count = length ks
      in if count \<noteq> length vs then ((0, Some LengthMismatch), d)
         else if count = 0 then ((0, None), d)
         else case (raw_Batch (untypedMap m), batchOpsSupported m) of
                (Some (BatchUpdateRaw, _), True) \<Rightarrow>
                  apfst (apsnd (map_option RawError))
                    (BatchUpdateRaw (concat (map (kAsBytes m) ks)) (concat (map (vAsBytes m) vs)) count d)
              | _ \<Rightarrow> update_loop m (zip ks vs) 0 d)"

definition TypedMap_Get ::
  "('k, 'v, 'd, 'e) TypedMap \<Rightarrow> 'k \<Rightarrow> 'd \<Rightarrow> ('e typed_error, 'v) result \<times> 'd" where
  "TypedMap_Get m k d = apfst (map_sum RawError (vConstructor m)) (raw_Get (untypedMap m) (kAsBytes m k) d)"

definition TypedMap_Delete ::
  "('k, 'v, 'd, 'e) TypedMap \<Rightarrow> 'k \<Rightarrow> 'd \<Rightarrow> 'e typed_error option \<times> 'd" where
  "TypedMap_Delete m k d =
     apfst (map_option RawError) (raw_Delete (untypedMap m) (kAsBytes m k) d)"

fun delete_loop ::
  "('k, 'v, 'd, 'e) TypedMap \<Rightarrow> 'k list \<Rightarrow> nat \<Rightarrow> 'd \<Rightarrow> (nat \<times> 'e typed_error option) \<times> 'd" where
  "delete_loop m [] cnt d = ((cnt, None), d)"
| "delete_loop m (k # ks) cnt d =
     (case raw_Delete (untypedMap m) (kAsBytes m k) d of
        (Some e, d') \<Rightarrow> if cnt = 0 then ((0, Some (RawError e)), d') else ((cnt, None), d')
      | (None, d') \<Rightarrow> delete_loop m ks (cnt + 1) d')"

definition TypedMap_BatchDelete ::
  "('k, 'v, 'd, 'e) TypedMap \<Rightarrow> 'k list \<Rightarrow> 'd \<Rightarrow> (nat \<times> 'e typed_error option) \<times> 'd" where
  "TypedMap_BatchDelete m ks d =
     (let count = length ks
      in if count = 0 then ((0, None), d)
         else case (raw_Batch (untypedMap m), batchOpsSupported m) of
                (Some (_, BatchDeleteRaw), True) \<Rightarrow>
                  apfst (apsnd (map_option RawError)) (BatchDeleteRaw (concat (map (kAsBytes m) ks)) count d)
              | _ \<Rightarrow> delete_loop m ks 0 d)"

text \<open>\<^verbatim>\<open>Load\<close> fills a Go map entry by entry; its callers drop the map when there
  is an error.\<close>

definition TypedMap_Load ::
  "('k, 'v, 'd, 'e) TypedMap \<Rightarrow> 'd \<Rightarrow> ('e typed_error, 'k \<rightharpoonup> 'v) result \<times> 'd" where
  "TypedMap_Load m d =
     (case raw_Iter (untypedMap m) d of
        ((kvs, None), d') \<Rightarrow>
          (Inr (fold (\<lambda>(kb, vb). map_put (kConstructor m kb, vConstructor m vb)) kvs Map.empty), d')
      | ((_, Some e), d') \<Rightarrow> (Inl (RawError e), d'))"

text \<open>A typed map has all methods of both interfaces of the caching map.\<close>

definition typed_dataplane :: "('k, 'v, 'd, 'e) TypedMap \<Rightarrow> ('k, 'v, 'd, 'e typed_error) DataplaneMap" where
  "typed_dataplane m =
     \<lparr>dp_Update = TypedMap_Update m, dp_Delete = TypedMap_Delete m, dp_Load = TypedMap_Load m,
      dp_ErrIsNotExists = TypedMap_ErrIsNotExists m,
      dp_Batched = Some (TypedMap_BatchUpdate m, TypedMap_BatchDelete m)\<rparr>"

section \<open>What the raw map promises\<close>

locale raw_contract =
  fixes raw :: "('d, 'e) RawMap"
    and entries :: "'d \<Rightarrow> bytes \<rightharpoonup> bytes"
    and ok :: "'d \<Rightarrow> bool"
    and ksize vsize :: nat
  assumes ksize_pos: "0 < ksize"
    and keys: "ok d \<Longrightarrow> kb \<in> dom (entries d) \<Longrightarrow> length kb = ksize"
    and finite_entries: "ok d \<Longrightarrow> finite (dom (entries d))"
    and Update: "ok d \<Longrightarrow> length kb = ksize \<Longrightarrow> length vb = vsize \<Longrightarrow> raw_Update raw kb vb d = (err, d') \<Longrightarrow>
      ok d' \<and> entries d' = (if err = None then map_put (kb, vb) (entries d) else entries d)"
    and Delete: "ok d \<Longrightarrow> length kb = ksize \<Longrightarrow> raw_Delete raw kb d = (err, d') \<Longrightarrow>
      ok d' \<and> entries d' = (if err = None then (entries d)(kb := None) else entries d)"
    and Delete_not_exists: "ok d \<Longrightarrow> length kb = ksize \<Longrightarrow> raw_Delete raw kb d = (Some e, d') \<Longrightarrow>
      raw_ErrIsNotExists raw e \<Longrightarrow> entries d kb = None"
    and Iter: "ok d \<Longrightarrow> raw_Iter raw d = (r, d') \<Longrightarrow> ok d' \<and> entries d' = entries d"
    and Iter_all: "ok d \<Longrightarrow> raw_Iter raw d = ((kvs, None), d') \<Longrightarrow>
      distinct (map fst kvs) \<and> map_of kvs = entries d"
    and BatchUpdateRaw: "ok d \<Longrightarrow> raw_Batch raw = Some (BatchUpdateRaw, BatchDeleteRaw) \<Longrightarrow>
      xs \<noteq> [] \<Longrightarrow> \<forall>(kb, vb) \<in> set xs. length kb = ksize \<and> length vb = vsize \<Longrightarrow>
      BatchUpdateRaw (concat (map fst xs)) (concat (map snd xs)) (length xs) d = ((n, err), d') \<Longrightarrow>
      ok d' \<and> entries d' = fold map_put (take n xs) (entries d)
      \<and> (case err of None \<Rightarrow> 0 < n \<and> n \<le> length xs | Some _ \<Rightarrow> n < length xs)"
    and BatchDeleteRaw: "ok d \<Longrightarrow> raw_Batch raw = Some (BatchUpdateRaw, BatchDeleteRaw) \<Longrightarrow>
      kbs \<noteq> [] \<Longrightarrow> \<forall>kb \<in> set kbs. length kb = ksize \<Longrightarrow>
      BatchDeleteRaw (concat kbs) (length kbs) d = ((n, err), d') \<Longrightarrow>
      ok d' \<and> entries d' = entries d |` (- set (take n kbs))
      \<and> (case err of None \<Rightarrow> 0 < n \<and> n \<le> length kbs | Some _ \<Rightarrow> n < length kbs)"
    and BatchDeleteRaw_not_exists: "ok d \<Longrightarrow> raw_Batch raw = Some (BatchUpdateRaw, BatchDeleteRaw) \<Longrightarrow>
      kbs \<noteq> [] \<Longrightarrow> \<forall>kb \<in> set kbs. length kb = ksize \<Longrightarrow>
      BatchDeleteRaw (concat kbs) (length kbs) d = ((n, Some e), d') \<Longrightarrow>
      raw_ErrIsNotExists raw e \<Longrightarrow> entries d' (kbs ! n) = None"

text \<open>A typed map whose key type is in bijection with the byte strings of the key size.\<close>

locale typed_contract = raw_contract "untypedMap m" entries ok ksize vsize
  for m :: "('k, 'v, 'd, 'e) TypedMap" and entries ok ksize vsize +
  assumes k_size: "length (kAsBytes m k) = ksize"
    and v_size: "length (vAsBytes m v) = vsize"
    and k_bytes: "kConstructor m (kAsBytes m k) = k"
    and bytes_k: "length kb = ksize \<Longrightarrow> kAsBytes m (kConstructor m kb) = kb"
    and v_bytes: "vConstructor m (vAsBytes m v) = v"
begin

definition typed_contents :: "'d \<Rightarrow> 'k \<rightharpoonup> 'v" where
  "typed_contents d k = map_option (vConstructor m) (entries d (kAsBytes m k))"

lemma k_inject: "kAsBytes m k = kAsBytes m j \<longleftrightarrow> k = j"
  by (metis k_bytes)

lemma typed_contents_put:
  assumes "entries d' = map_put (kAsBytes m k, vAsBytes m v) (entries d)"
  shows "typed_contents d' = map_put (k, v) (typed_contents d)"
  by (rule ext) (simp add: typed_contents_def assms map_put_apply k_inject v_bytes)

lemma typed_contents_del:
  assumes "entries d' = (entries d)(kAsBytes m k := None)"
  shows "typed_contents d' = (typed_contents d)(k := None)"
  by (rule ext) (simp add: typed_contents_def assms k_inject)

lemma fold_put_typed:
  "map_option (vConstructor m)
     (fold map_put (map (\<lambda>(k, v). (kAsBytes m k, vAsBytes m v)) xs) e (kAsBytes m j))
   = fold map_put xs (\<lambda>j. map_option (vConstructor m) (e (kAsBytes m j))) j"
proof (induction xs arbitrary: e)
  case (Cons x xs)
  obtain k v where x: "x = (k, v)" by (cases x)
  have "(\<lambda>j. map_option (vConstructor m) (map_put (kAsBytes m k, vAsBytes m v) e (kAsBytes m j)))
      = map_put (k, v) (\<lambda>j. map_option (vConstructor m) (e (kAsBytes m j)))"
    by (rule ext) (simp add: map_put_apply k_inject v_bytes)
  with Cons show ?case by (simp add: x)
qed simp

lemma typed_contents_puts:
  assumes "entries d' = fold map_put (map (\<lambda>(k, v). (kAsBytes m k, vAsBytes m v)) xs) (entries d)"
  shows "typed_contents d' = fold map_put xs (typed_contents d)"
proof
  fix j
  have "(\<lambda>j. map_option (vConstructor m) (entries d (kAsBytes m j))) = typed_contents d"
    by (rule ext) (simp add: typed_contents_def)
  then show "typed_contents d' j = fold map_put xs (typed_contents d) j"
    using fold_put_typed [of xs "entries d" j] by (simp add: typed_contents_def [of d'] assms)
qed

lemma typed_contents_dels:
  assumes "entries d' = entries d |` (- set (map (kAsBytes m) ks))"
  shows "typed_contents d' = typed_contents d |` (- set ks)"
  by (rule ext) (auto simp: typed_contents_def assms restrict_map_def k_inject)

text \<open>The fallback loops stop at the first entry that fails, and report it only when it is the first
  of all.\<close>

lemma update_loop_spec:
  assumes "ok d" and "update_loop m xs cnt d = ((n, err), d')"
  shows "ok d' \<and> (\<exists>j \<le> length xs. n = cnt + j
      \<and> typed_contents d' = fold map_put (take j xs) (typed_contents d)
      \<and> (xs \<noteq> [] \<longrightarrow> (if err = None then 0 < cnt + j else cnt = 0 \<and> j = 0)))"
  using assms
proof (induction xs arbitrary: cnt d)
  case (Cons x xs)
  obtain k v where x: "x = (k, v)" by (cases x)
  obtain e d1 where up: "raw_Update (untypedMap m) (kAsBytes m k) (vAsBytes m v) d = (e, d1)"
    by (cases "raw_Update (untypedMap m) (kAsBytes m k) (vAsBytes m v) d")
  note spec = Update [OF Cons.prems(1) k_size v_size up]
  show ?case
  proof (cases e)
    case None
    then have rest: "update_loop m xs (cnt + 1) d1 = ((n, err), d')"
      using Cons.prems(2) by (simp add: x up)
    from Cons.IH [OF _ rest] spec None obtain j
      where j: "ok d'" "j \<le> length xs" "n = cnt + 1 + j"
        "typed_contents d' = fold map_put (take j xs) (typed_contents d1)"
        "xs \<noteq> [] \<longrightarrow> err = None"
      by (auto split: if_splits)
    have "xs = [] \<longrightarrow> err = None" using rest by auto
    moreover have "typed_contents d1 = map_put (k, v) (typed_contents d)"
      using spec None by (intro typed_contents_put) simp
    ultimately show ?thesis
      using j by (intro conjI exI [of _ "Suc j"]) (auto simp: x)
  next
    case (Some y)
    then show ?thesis
      using Cons.prems(2) spec by (intro conjI exI [of _ 0]) (auto simp: x up typed_contents_def fun_eq_iff split: if_splits)
  qed
qed simp

lemma delete_loop_spec:
  assumes "ok d" and "delete_loop m ks cnt d = ((n, err), d')"
  shows "ok d' \<and> (\<exists>j \<le> length ks. n = cnt + j
      \<and> typed_contents d' = typed_contents d |` (- set (take j ks))
      \<and> (ks \<noteq> [] \<longrightarrow> (if err = None then 0 < cnt + j else cnt = 0 \<and> j = 0))
      \<and> (\<forall>e. err = Some e \<and> TypedMap_ErrIsNotExists m e \<longrightarrow> typed_contents d' (ks ! j) = None))"
  using assms
proof (induction ks arbitrary: cnt d)
  case (Cons k ks)
  obtain e d1 where del: "raw_Delete (untypedMap m) (kAsBytes m k) d = (e, d1)"
    by (cases "raw_Delete (untypedMap m) (kAsBytes m k) d")
  note spec = Delete [OF Cons.prems(1) k_size del]
  show ?case
  proof (cases e)
    case None
    then have rest: "delete_loop m ks (cnt + 1) d1 = ((n, err), d')"
      using Cons.prems(2) by (simp add: del)
    from Cons.IH [OF _ rest] spec None obtain j
      where j: "ok d'" "j \<le> length ks" "n = cnt + 1 + j"
        "typed_contents d' = typed_contents d1 |` (- set (take j ks))" "ks \<noteq> [] \<longrightarrow> err = None"
      by (auto split: if_splits)
    have "ks = [] \<longrightarrow> err = None" using rest by auto
    moreover have "typed_contents d1 = (typed_contents d)(k := None)"
      using spec None by (intro typed_contents_del) simp
    ultimately show ?thesis
      using j by (intro conjI exI [of _ "Suc j"]) (auto simp: restrict_map_def fun_eq_iff)
  next
    case (Some y)
    have same: "typed_contents d1 = typed_contents d" "ok d1"
      using spec Some by (simp_all add: typed_contents_def fun_eq_iff)
    moreover have "typed_contents d k = None" if "raw_ErrIsNotExists (untypedMap m) y"
      using Delete_not_exists [OF Cons.prems(1) k_size _ that] del Some by (simp add: typed_contents_def)
    ultimately show ?thesis
      using Cons.prems(2) Some
      by (intro conjI exI [of _ 0]) (auto simp: del TypedMap_ErrIsNotExists_def restrict_map_def split: if_splits)
  qed
qed (simp add: restrict_map_def)

lemma fold_put_constructed:
  assumes "\<forall>(kb, vb) \<in> set kvs. length kb = ksize"
  shows "fold (\<lambda>(kb, vb). map_put (kConstructor m kb, vConstructor m vb)) kvs e j
    = (case map_of (rev kvs) (kAsBytes m j) of Some vb \<Rightarrow> Some (vConstructor m vb) | None \<Rightarrow> e j)"
  using assms
proof (induction kvs arbitrary: e)
  case (Cons y kvs)
  obtain kb vb where y: "y = (kb, vb)" by (cases y)
  have "kConstructor m kb = j \<longleftrightarrow> kb = kAsBytes m j"
    using Cons.prems bytes_k [of kb] k_bytes [of j] by (auto simp: y)
  with Cons show ?case
    by (auto simp: y map_put_apply map_add_def split: option.splits)
qed simp

lemma Load_typed:
  assumes "ok d" and "TypedMap_Load m d = (Inr c, d')"
  shows "c = typed_contents d \<and> finite (dom c)"
proof -
  obtain kvs where it: "raw_Iter (untypedMap m) d = ((kvs, None), d')"
    and c: "c = fold (\<lambda>(kb, vb). map_put (kConstructor m kb, vConstructor m vb)) kvs Map.empty"
    using assms(2) by (auto simp: TypedMap_Load_def split: prod.splits option.splits)
  have kvs: "distinct (map fst kvs)" "map_of kvs = entries d"
    using Iter_all [OF assms(1) it] by simp_all
  have "length kb = ksize" if "(kb, vb) \<in> set kvs" for kb vb
    using keys [OF assms(1), of kb] kvs(2) that weak_map_of_SomeI [of kb vb kvs] by auto
  then have size: "\<forall>(kb, vb) \<in> set kvs. length kb = ksize" by blast
  have "map_of (rev kvs) = map_of kvs"
    by (rule map_of_inject_set [THEN iffD2]) (use kvs(1) in \<open>simp_all add: rev_map [symmetric]\<close>)
  then have "c j = typed_contents d j" for j
    using fold_put_constructed [OF size, of Map.empty j] kvs(2)
    by (auto simp: c typed_contents_def split: option.split)
  then have "c = typed_contents d" by blast
  moreover have "finite (dom (typed_contents d))"
  proof (rule finite_imageD)
    have "kAsBytes m ` dom (typed_contents d) \<subseteq> dom (entries d)"
      by (auto simp: typed_contents_def)
    then show "finite (kAsBytes m ` dom (typed_contents d))"
      using finite_entries [OF assms(1)] by (rule finite_subset)
  qed (auto simp: inj_on_def k_inject)
  ultimately show ?thesis by simp
qed

lemma BatchUpdate_typed:
  assumes ok: "ok d" and call: "TypedMap_BatchUpdate m (map fst xs) (map snd xs) d = ((n, err), d')"
  shows "ok d' \<and> typed_contents d' = fold map_put (take n xs) (typed_contents d)
    \<and> (xs \<noteq> [] \<longrightarrow> (case err of None \<Rightarrow> 0 < n \<and> n \<le> length xs | Some _ \<Rightarrow> n < length xs))"
proof (cases "xs = [] \<or> raw_Batch (untypedMap m) = None \<or> \<not> batchOpsSupported m")
  case True
  show ?thesis
  proof (cases "xs = []")
    case False
    then have "update_loop m xs 0 d = ((n, err), d')"
      using call True by (auto simp: TypedMap_BatchUpdate_def Let_def zip_map_fst_snd split: bool.splits option.splits)
    from update_loop_spec [OF ok this] False show ?thesis
      by (cases err) auto
  qed (use ok call in \<open>auto simp: TypedMap_BatchUpdate_def\<close>)
next
  case False
  then obtain bu bd where b: "raw_Batch (untypedMap m) = Some (bu, bd)" by auto
  let ?g = "\<lambda>(k, v). (kAsBytes m k, vAsBytes m v)" let ?ys = "map ?g xs"
  obtain i e d1 where raw: "bu (concat (map fst ?ys)) (concat (map snd ?ys)) (length ?ys) d = ((i, e), d1)"
    by (metis prod.exhaust)
  then have res: "n = i" "d' = d1" "err = map_option RawError e"
    using call False b by (simp_all add: TypedMap_BatchUpdate_def comp_def split_beta)
  have "?ys \<noteq> []" "\<forall>(kb, vb) \<in> set ?ys. length kb = ksize \<and> length vb = vsize"
    using False by (auto simp: k_size v_size)
  note spec = BatchUpdateRaw [OF ok b this raw, folded res(1,2)]
  then have "typed_contents d' = fold map_put (take n xs) (typed_contents d)"
    by (intro typed_contents_puts) (simp add: take_map)
  with spec show ?thesis by (cases e) (simp_all add: res(3))
qed

lemma BatchDelete_typed:
  assumes ok: "ok d" and call: "TypedMap_BatchDelete m ks d = ((n, err), d')"
  shows "ok d' \<and> typed_contents d' = typed_contents d |` (- set (take n ks))
    \<and> (ks \<noteq> [] \<longrightarrow> (case err of None \<Rightarrow> 0 < n \<and> n \<le> length ks | Some _ \<Rightarrow> n < length ks))
    \<and> (\<forall>e. err = Some e \<and> TypedMap_ErrIsNotExists m e \<longrightarrow> typed_contents d' (ks ! n) = None)"
proof (cases "ks = [] \<or> raw_Batch (untypedMap m) = None \<or> \<not> batchOpsSupported m")
  case True
  show ?thesis
  proof (cases "ks = []")
    case False
    then have "delete_loop m ks 0 d = ((n, err), d')"
      using call True by (auto simp: TypedMap_BatchDelete_def Let_def split: bool.splits option.splits)
    from delete_loop_spec [OF ok this] False show ?thesis
      by (cases err) auto
  qed (use ok call in \<open>auto simp: TypedMap_BatchDelete_def restrict_map_def\<close>)
next
  case False
  then obtain bu bd where b: "raw_Batch (untypedMap m) = Some (bu, bd)" by auto
  let ?ys = "map (kAsBytes m) ks"
  obtain i e d1 where raw: "bd (concat ?ys) (length ?ys) d = ((i, e), d1)"
    by (metis prod.exhaust)
  then have res: "n = i" "d' = d1" "err = map_option RawError e"
    using call False b by (simp_all add: TypedMap_BatchDelete_def)
  have ys: "?ys \<noteq> []" "\<forall>kb \<in> set ?ys. length kb = ksize"
    using False by (auto simp: k_size)
  note raw' = raw [folded res(1,2)]
  note spec = BatchDeleteRaw [OF ok b ys raw']
  then have "typed_contents d' = typed_contents d |` (- set (take n ks))"
    by (intro typed_contents_dels) (simp add: take_map)
  moreover have "typed_contents d' (ks ! n) = None" if "e = Some x" "raw_ErrIsNotExists (untypedMap m) x" for x
    using BatchDeleteRaw_not_exists [OF ok b ys raw' [unfolded that(1)] that(2)] spec that
    by (simp add: typed_contents_def)
  ultimately show ?thesis
    using spec by (cases e) (simp_all add: res(3) TypedMap_ErrIsNotExists_def)
qed

end

sublocale typed_contract \<subseteq> dp: dataplane_contract "typed_dataplane m" typed_contents ok
proof
  fix d d' :: 'd and k v err e r c xs ks n
  assume ok: "ok d"
  show "ok d' \<and> typed_contents d' = (if err = None then map_put (k, v) (typed_contents d) else typed_contents d)"
    if "dp_Update (typed_dataplane m) k v d = (err, d')"
    using that Update [OF ok k_size v_size, of k v] typed_contents_put [of d' k v d]
    by (cases "raw_Update (untypedMap m) (kAsBytes m k) (vAsBytes m v) d")
       (auto simp: typed_dataplane_def TypedMap_Update_def typed_contents_def fun_eq_iff)
  show "ok d' \<and> typed_contents d' = (if err = None then (typed_contents d)(k := None) else typed_contents d)"
    if "dp_Delete (typed_dataplane m) k d = (err, d')"
    using that Delete [OF ok k_size, of k] typed_contents_del [of d' d k]
    by (cases "raw_Delete (untypedMap m) (kAsBytes m k) d")
       (auto simp: typed_dataplane_def TypedMap_Delete_def typed_contents_def fun_eq_iff)
  show "typed_contents d k = None"
    if "dp_Delete (typed_dataplane m) k d = (Some e, d')" "dp_ErrIsNotExists (typed_dataplane m) e"
    using that Delete_not_exists [OF ok k_size, of k]
    by (cases "raw_Delete (untypedMap m) (kAsBytes m k) d")
       (auto simp: typed_dataplane_def TypedMap_Delete_def TypedMap_ErrIsNotExists_def typed_contents_def)
  show "ok d' \<and> typed_contents d' = typed_contents d" if "dp_Load (typed_dataplane m) d = (r, d')"
    using that Iter [OF ok]
    by (cases "raw_Iter (untypedMap m) d")
       (auto simp: typed_dataplane_def TypedMap_Load_def typed_contents_def fun_eq_iff split: option.splits)
  show "c = typed_contents d \<and> finite (dom c)" if "dp_Load (typed_dataplane m) d = (Inr c, d')"
    using that by (intro Load_typed [OF ok]) (simp add: typed_dataplane_def)
  show "ok d' \<and> typed_contents d' = fold map_put (take n xs) (typed_contents d)
      \<and> (xs \<noteq> [] \<longrightarrow> (case err of None \<Rightarrow> 0 < n \<and> n \<le> length xs | Some _ \<Rightarrow> n < length xs))"
    if "dp_Batched (typed_dataplane m) = Some (bu, bd)" "bu (map fst xs) (map snd xs) d = ((n, err), d')" for bu bd
    using that by (intro BatchUpdate_typed [OF ok]) (auto simp: typed_dataplane_def)
  show "ok d' \<and> typed_contents d' = typed_contents d |` (- set (take n ks))
      \<and> (ks \<noteq> [] \<longrightarrow> (case err of None \<Rightarrow> 0 < n \<and> n \<le> length ks | Some _ \<Rightarrow> n < length ks))"
    if "dp_Batched (typed_dataplane m) = Some (bu, bd)" "bd ks d = ((n, err), d')" for bu bd
    using that BatchDelete_typed [OF ok, of ks n err d'] by (auto simp: typed_dataplane_def)
  show "typed_contents d' (ks ! n) = None"
    if "dp_Batched (typed_dataplane m) = Some (bu, bd)" "bd ks d = ((n, Some e), d')"
      "dp_ErrIsNotExists (typed_dataplane m) e" for bu bd
    using that BatchDelete_typed [OF ok, of ks n "Some e" d'] by (auto simp: typed_dataplane_def)
qed

end
