(* ===== verification/If_State.thy ===== *)
theory If_State
  imports Typed_Map
begin

text \<open>
  The interface-state map of the BPF dataplane (\<^verbatim>\<open>felix/bpf/ifstate/map.go\<close>): keys
  and values are Go byte arrays with fields at fixed little-endian offsets. The theory has the
  array type, the constructors and accessors with their round trips, the in-memory map of
  \<^verbatim>\<open>felix/bpf/mock/map.go\<close>, and the typed map over it as an instance of the
  contracts of \<open>Typed_Map\<close> and \<open>Caching_Map\<close>.
\<close>

unbundle bit_operations_syntax

section \<open>Byte arrays and little-endian integers\<close>

text \<open>The Go array type \<^verbatim>\<open>[N]byte\<close>.\<close>

typedef (overloaded) 'n byte_array = "{bs :: bytes. length bs = LENGTH('n :: len)}"
  morphisms array_bytes of_bytes
  by (rule exI [of _ "replicate LENGTH('n) 0"]) simp

lemma length_array_bytes [simp]: "length (array_bytes (a :: 'n :: len byte_array)) = LENGTH('n)"
  using array_bytes by auto

text \<open>Arrays compare as the byte strings they hold.\<close>

instantiation byte_array :: (len) linorder
begin

definition less_eq_byte_array :: "'a byte_array \<Rightarrow> 'a byte_array \<Rightarrow> bool" where
  "less_eq_byte_array a b \<longleftrightarrow> array_bytes a \<le> array_bytes b"

definition less_byte_array :: "'a byte_array \<Rightarrow> 'a byte_array \<Rightarrow> bool" where
  "less_byte_array a b \<longleftrightarrow> array_bytes a < array_bytes b"

instance
  by standard (auto simp: less_eq_byte_array_def less_byte_array_def less_le array_bytes_inject)

end

text \<open>\<^verbatim>\<open>copy(dst[i:], src)\<close> overwrites as many bytes as both have.\<close>

definition go_copy :: "nat \<Rightarrow> nat \<Rightarrow> 'a list \<Rightarrow> 'a list \<Rightarrow> 'a list" where
  "go_copy i j src dst =
     (let n = min (j - i) (length src) in take i dst @ take n src @ drop (i + n) dst)"

lemma length_go_copy [simp]: "i \<le> j \<Longrightarrow> j \<le> length dst \<Longrightarrow> length (go_copy i j src dst) = length dst"
  by (auto simp: go_copy_def Let_def min_def)

definition array_from_bytes :: "bytes \<Rightarrow> 'n :: len byte_array" where
  "array_from_bytes b = of_bytes (go_copy 0 LENGTH('n) b (replicate LENGTH('n) 0))"

lemma array_bytes_from: "length b = LENGTH('n :: len) \<Longrightarrow> array_bytes (array_from_bytes b :: 'n byte_array) = b"
  by (simp add: array_from_bytes_def of_bytes_inverse go_copy_def)

lemma array_from_bytes_array [simp]: "array_from_bytes (array_bytes a) = a"
  by (simp add: array_from_bytes_def go_copy_def array_bytes_inverse)

definition PutUint32 :: "32 word \<Rightarrow> bytes" where
  "PutUint32 w = [ucast w, ucast (drop_bit 8 w), ucast (drop_bit 16 w), ucast (drop_bit 24 w)]"

definition Uint32 :: "bytes \<Rightarrow> 32 word" where
  "Uint32 b = ucast (b ! 0) OR push_bit 8 (ucast (b ! 1)) OR push_bit 16 (ucast (b ! 2))
     OR push_bit 24 (ucast (b ! 3))"

lemma length_PutUint32 [simp]: "length (PutUint32 w) = 4"
  by (simp add: PutUint32_def)

lemma Uint32_PutUint32 [simp]: "Uint32 (PutUint32 w) = w"
proof (rule bit_word_eqI)
  fix n
  assume n: "n < LENGTH(32)"
  consider "n < 8" | "8 \<le> n" "n < 16" | "16 \<le> n" "n < 24" | "24 \<le> n" by linarith
  then show "bit (Uint32 (PutUint32 w)) n = bit w n"
    by cases (use n in \<open>auto simp: Uint32_def PutUint32_def bit_simps\<close>)
qed

definition go_slice :: "nat \<Rightarrow> nat \<Rightarrow> 'a list \<Rightarrow> 'a list" where
  "go_slice i j xs = take (j - i) (drop i xs)"

text \<open>Writing a field just after the fields written so far.\<close>

lemma go_copy_field:
  assumes "length pre = i" and "length src = j - i"
  shows "go_copy i j src (pre @ post) = pre @ src @ drop (j - i) post"
  using assms by (simp add: go_copy_def)

lemma go_slice_field:
  assumes "length pre = i" and "length f = j - i"
  shows "go_slice i j (pre @ f @ post) = f"
  using assms by (simp add: go_slice_def)

section \<open>The keys and values of the interface-state map\<close>

type_synonym Key = "4 byte_array"
type_synonym Value = "52 byte_array"
type_synonym go_int = "64 word"

definition NewKey :: "32 word \<Rightarrow> Key" where
  "NewKey ifIndex = of_bytes (go_copy 0 4 (PutUint32 ifIndex) (replicate 4 0))"

definition Key_AsBytes :: "Key \<Rightarrow> bytes" where
  "Key_AsBytes k = array_bytes k"

definition IfIndex :: "Key \<Rightarrow> 32 word" where
  "IfIndex k = Uint32 (array_bytes k)"

definition KeyFromBytes :: "bytes \<Rightarrow> Key" where
  "KeyFromBytes b = array_from_bytes b"

definition put_int :: "nat \<Rightarrow> nat \<Rightarrow> go_int \<Rightarrow> bytes \<Rightarrow> bytes" where
  "put_int i j x = go_copy i j (PutUint32 (ucast x))"

definition NewValue ::
  "32 word \<Rightarrow> bytes \<Rightarrow> go_int \<Rightarrow> go_int \<Rightarrow> go_int \<Rightarrow> go_int \<Rightarrow> go_int \<Rightarrow> go_int \<Rightarrow> go_int \<Rightarrow> go_int
   \<Rightarrow> Value" where
  "NewValue flags name xdpPolIPv4 ingressPolIPv4 egressPolIPv4 xdpPolIPv6 ingressPolIPv6
     egressPolIPv6 tcIngressFilter tcEgressFilter =
     (let v = replicate 52 0;
          v = go_copy 0 4 (PutUint32 flags) v;
          v = go_copy 4 (4+15) name v;
          v = put_int (4+16+0) (4+16+4) xdpPolIPv4 v;
          v = put_int (4+16+4) (4+16+8) ingressPolIPv4 v;
          v = put_int (4+16+8) (4+16+12) egressPolIPv4 v;
          v = put_int (4+16+12) (4+16+16) xdpPolIPv6 v;
          v = put_int (4+16+16) (4+16+20) ingressPolIPv6 v;
          v = put_int (4+16+20) (4+16+24) egressPolIPv6 v;
          v = put_int (4+16+24) (4+16+28) tcIngressFilter v;
          v = put_int (4+16+28) (4+16+32) tcEgressFilter v
      in of_bytes v)"

definition Value_AsBytes :: "Value \<Rightarrow> bytes" where
  "Value_AsBytes v = array_bytes v"

definition Flags :: "Value \<Rightarrow> 32 word" where
  "Flags v = Uint32 (array_bytes v)"

definition trim_right_nul :: "bytes \<Rightarrow> bytes" where
  "trim_right_nul bs = rev (dropWhile (\<lambda>b. b = 0) (rev bs))"

definition IfName :: "Value \<Rightarrow> bytes" where
  "IfName v = trim_right_nul (go_slice 4 (4+16) (array_bytes v))"

definition get_int :: "nat \<Rightarrow> nat \<Rightarrow> Value \<Rightarrow> go_int" where
  "get_int i j v = scast (Uint32 (go_slice i j (array_bytes v)))"

definition XDPPolicyV4 :: "Value \<Rightarrow> go_int" where
  "XDPPolicyV4 = get_int (4+16) (4+16+4)"

definition IngressPolicyV4 :: "Value \<Rightarrow> go_int" where
  "IngressPolicyV4 = get_int (4+16+4) (4+16+8)"

definition EgressPolicyV4 :: "Value \<Rightarrow> go_int" where
  "EgressPolicyV4 = get_int (4+16+8) (4+16+12)"

definition XDPPolicyV6 :: "Value \<Rightarrow> go_int" where
  "XDPPolicyV6 = get_int (4+16+12) (4+16+16)"

definition IngressPolicyV6 :: "Value \<Rightarrow> go_int" where
  "IngressPolicyV6 = get_int (4+16+16) (4+16+20)"

definition EgressPolicyV6 :: "Value \<Rightarrow> go_int" where
  "EgressPolicyV6 = get_int (4+16+20) (4+16+24)"

definition TcIngressFilter :: "Value \<Rightarrow> go_int" where
  "TcIngressFilter = get_int (4+16+24) (4+16+28)"

definition TcEgressFilter :: "Value \<Rightarrow> go_int" where
  "TcEgressFilter = get_int (4+16+28) (4+16+32)"

definition ValueFromBytes :: "bytes \<Rightarrow> Value" where
  "ValueFromBytes b = array_from_bytes b"

subsection \<open>Round trips\<close>

lemma IfIndex_NewKey: "IfIndex (NewKey i) = i"
proof -
  have "go_copy 0 4 (PutUint32 i) (replicate 4 0) = PutUint32 i"
    by (simp add: go_copy_def)
  then show ?thesis
    by (simp add: IfIndex_def NewKey_def of_bytes_inverse)
qed

text \<open>The layout of a value: every field follows the one before it, and the name has a NUL at its
  end.\<close>

definition name_field :: "bytes \<Rightarrow> bytes" where
  "name_field name = take 15 name @ replicate (16 - min 15 (length name)) 0"

lemma length_name_field [simp]: "length (name_field name) = 16"
  by (simp add: name_field_def)

lemma go_copy_name:
  assumes "length pre = 4"
  shows "go_copy 4 19 name (pre @ replicate 48 0) = pre @ name_field name @ replicate 32 0"
proof -
  have "48 - min 15 (length name) = (16 - min 15 (length name)) + 32" by simp
  then have "replicate (48 - min 15 (length name)) (0 :: byte)
      = replicate (16 - min 15 (length name)) 0 @ replicate 32 0"
    by (simp only: replicate_add)
  moreover have "take (min 15 (length name)) name = take 15 name" by (simp add: min_def)
  ultimately show ?thesis
    using assms by (simp add: go_copy_def name_field_def Let_def)
qed

lemma put_int_field:
  assumes "length pre = i" and "j = i + 4" and "4 \<le> n"
  shows "put_int i j x (pre @ replicate n 0) = (pre @ PutUint32 (ucast x)) @ replicate (n - 4) 0"
  using go_copy_field [of pre i "PutUint32 (ucast x)" j "replicate n 0"] assms by (simp add: put_int_def)

lemma array_bytes_NewValue:
  "array_bytes (NewValue flags name x1 x2 x3 x4 x5 x6 x7 x8)
   = PutUint32 flags @ name_field name @ PutUint32 (ucast x1) @ PutUint32 (ucast x2)
     @ PutUint32 (ucast x3) @ PutUint32 (ucast x4) @ PutUint32 (ucast x5) @ PutUint32 (ucast x6)
     @ PutUint32 (ucast x7) @ PutUint32 (ucast x8)"
proof -
  have "go_copy 0 4 (PutUint32 flags) (replicate 52 0) = PutUint32 flags @ replicate 48 0"
    by (simp add: go_copy_def)
  then have v1: "go_copy 4 (4+15) name (go_copy 0 4 (PutUint32 flags) (replicate 52 0))
      = (PutUint32 flags @ name_field name) @ replicate 32 0"
    using go_copy_name [of "PutUint32 flags" name] by simp
  show ?thesis
    unfolding NewValue_def Let_def v1
    by (simp add: put_int_field of_bytes_inverse del: append_assoc)
qed

lemma get_int_field:
  assumes "array_bytes v = pre @ PutUint32 (ucast x) @ post" and "length pre = i" and "j = i + 4"
  shows "get_int i j v = scast (ucast x :: 32 word)"
  using go_slice_field [of pre i "PutUint32 (ucast x)" j post] assms by (simp add: get_int_def)

text \<open>An index that fits in 32 bits, with its sign, is read back as it was written.\<close>

lemma scast_ucast_32:
  fixes x :: go_int
  assumes "- (2 ^ 31) \<le> sint x" and "sint x < 2 ^ 31"
  shows "scast (ucast x :: 32 word) = x"
proof -
  have "sint (ucast x :: 32 word) = signed_take_bit 31 (sint x)"
    by (rule bit_eqI) (auto simp: bit_simps bit_sint_iff min_def)
  also have "\<dots> = sint x"
    using assms by (intro signed_take_bit_int_eq_self) simp_all
  finally show ?thesis
    by (metis of_int_sint scast_id)
qed

lemma trim_right_nul_pad: "trim_right_nul (bs @ replicate n 0) = trim_right_nul bs"
proof -
  have "dropWhile (\<lambda>b. b = 0) (replicate n 0 @ rev bs) = dropWhile (\<lambda>b. b = 0) (rev bs)"
    by (induction n) simp_all
  then show ?thesis by (simp add: trim_right_nul_def)
qed

lemma trim_right_nul_same: "bs = [] \<or> last bs \<noteq> 0 \<Longrightarrow> trim_right_nul bs = bs"
  by (cases bs rule: rev_cases) (auto simp: trim_right_nul_def)

lemma NewValue_ints:
  fixes x1 x2 x3 x4 x5 x6 x7 x8 :: go_int
  assumes v: "v = NewValue flags name x1 x2 x3 x4 x5 x6 x7 x8"
  shows "XDPPolicyV4 v = scast (ucast x1 :: 32 word)" "IngressPolicyV4 v = scast (ucast x2 :: 32 word)"
    "EgressPolicyV4 v = scast (ucast x3 :: 32 word)" "XDPPolicyV6 v = scast (ucast x4 :: 32 word)"
    "IngressPolicyV6 v = scast (ucast x5 :: 32 word)" "EgressPolicyV6 v = scast (ucast x6 :: 32 word)"
    "TcIngressFilter v = scast (ucast x7 :: 32 word)" "TcEgressFilter v = scast (ucast x8 :: 32 word)"
proof -
  let ?P = "\<lambda>x :: go_int. PutUint32 (ucast x)" let ?n = "PutUint32 flags @ name_field name"
  note bytes = array_bytes_NewValue [of flags name x1 x2 x3 x4 x5 x6 x7 x8, folded v]
  show "XDPPolicyV4 v = scast (ucast x1 :: 32 word)"
    unfolding XDPPolicyV4_def by (rule get_int_field [of v ?n]) (simp_all add: bytes)
  show "IngressPolicyV4 v = scast (ucast x2 :: 32 word)"
    unfolding IngressPolicyV4_def by (rule get_int_field [of v "?n @ ?P x1"]) (simp_all add: bytes)
  show "EgressPolicyV4 v = scast (ucast x3 :: 32 word)"
    unfolding EgressPolicyV4_def by (rule get_int_field [of v "?n @ ?P x1 @ ?P x2"]) (simp_all add: bytes)
  show "XDPPolicyV6 v = scast (ucast x4 :: 32 word)"
    unfolding XDPPolicyV6_def
    by (rule get_int_field [of v "?n @ ?P x1 @ ?P x2 @ ?P x3"]) (simp_all add: bytes)
  show "IngressPolicyV6 v = scast (ucast x5 :: 32 word)"
    unfolding IngressPolicyV6_def
    by (rule get_int_field [of v "?n @ ?P x1 @ ?P x2 @ ?P x3 @ ?P x4"]) (simp_all add: bytes)
  show "EgressPolicyV6 v = scast (ucast x6 :: 32 word)"
    unfolding EgressPolicyV6_def
    by (rule get_int_field [of v "?n @ ?P x1 @ ?P x2 @ ?P x3 @ ?P x4 @ ?P x5"]) (simp_all add: bytes)
  show "TcIngressFilter v = scast (ucast x7 :: 32 word)"
    unfolding TcIngressFilter_def
    by (rule get_int_field [of v "?n @ ?P x1 @ ?P x2 @ ?P x3 @ ?P x4 @ ?P x5 @ ?P x6"]) (simp_all add: bytes)
  show "TcEgressFilter v = scast (ucast x8 :: 32 word)"
    unfolding TcEgressFilter_def
    by (rule get_int_field [of v "?n @ ?P x1 @ ?P x2 @ ?P x3 @ ?P x4 @ ?P x5 @ ?P x6 @ ?P x7" _ "[]"])
       (simp_all add: bytes)
qed

lemma NewValue_flags: "Flags (NewValue flags name x1 x2 x3 x4 x5 x6 x7 x8) = flags"
proof -
  have "Uint32 (PutUint32 flags @ rest) = Uint32 (PutUint32 flags)" for rest
    by (simp add: Uint32_def PutUint32_def)
  then show ?thesis by (simp add: Flags_def array_bytes_NewValue)
qed

lemma NewValue_name:
  "IfName (NewValue flags name x1 x2 x3 x4 x5 x6 x7 x8) = trim_right_nul (take 15 name)"
proof -
  have "go_slice 4 20 (array_bytes (NewValue flags name x1 x2 x3 x4 x5 x6 x7 x8)) = name_field name"
    by (simp add: array_bytes_NewValue go_slice_field)
  then show ?thesis
    by (simp add: IfName_def name_field_def trim_right_nul_pad)
qed

section \<open>The in-memory map\<close>

text \<open>
  A panic of the in-memory map is the error value \<open>MockPanic\<close>; it does not arise when keys
  and values have the sizes of the map.
\<close>

datatype mock_error = ENOENT | MockError string | MockPanic

record MockMap =
  KeySize :: nat
  ValueSize :: nat
  Contents :: "bytes \<rightharpoonup> bytes"
  UpdateCount :: nat
  GetCount :: nat
  DeleteCount :: nat
  IterCount :: nat
  IterErr :: "mock_error option"
  UpdateErr :: "mock_error option"
  DeleteErr :: "mock_error option"

definition mock_updateUnlocked :: "bytes \<Rightarrow> bytes \<Rightarrow> MockMap \<Rightarrow> mock_error option \<times> MockMap" where
  "mock_updateUnlocked k v m =
     (let m = m\<lparr>UpdateCount := UpdateCount m + 1\<rparr>
      in case UpdateErr m of
           Some e \<Rightarrow> (Some e, m)
         | None \<Rightarrow>
             if length k \<noteq> KeySize m then (Some MockPanic, m)
             else if length v \<noteq> ValueSize m then (Some MockPanic, m)
             else (None, m\<lparr>Contents := (Contents m)(k \<mapsto> v)\<rparr>))"

definition mock_Get :: "bytes \<Rightarrow> MockMap \<Rightarrow> (mock_error, bytes) result \<times> MockMap" where
  "mock_Get k m =
     (let m = m\<lparr>GetCount := GetCount m + 1\<rparr>
      in case Contents m k of None \<Rightarrow> (Inl ENOENT, m) | Some v \<Rightarrow> (Inr v, m))"

definition mock_Delete :: "bytes \<Rightarrow> MockMap \<Rightarrow> mock_error option \<times> MockMap" where
  "mock_Delete k m =
     (let m = m\<lparr>DeleteCount := DeleteCount m + 1\<rparr>
      in case DeleteErr m of
           Some e \<Rightarrow> (Some e, m)
         | None \<Rightarrow>
             if length k \<noteq> KeySize m then (Some MockPanic, m)
             else (None, m\<lparr>Contents := (Contents m)(k := None)\<rparr>))"

text \<open>An iteration whose callback deletes nothing visits a copy of the contents, here in the order
  \<open>ord\<close>.\<close>

definition mock_Iter ::
  "(bytes set \<Rightarrow> bytes list) \<Rightarrow> MockMap \<Rightarrow> ((bytes \<times> bytes) list \<times> mock_error option) \<times> MockMap" where
  "mock_Iter ord m =
     (let m = m\<lparr>IterCount := IterCount m + 1\<rparr>
      in case IterErr m of
           Some e \<Rightarrow> (([], Some e), m)
         | None \<Rightarrow> ((map_entries (ord (dom (Contents m))) (Contents m), None), m))"

definition mock_raw :: "(bytes set \<Rightarrow> bytes list) \<Rightarrow> (MockMap, mock_error) RawMap" where
  "mock_raw ord =
     \<lparr>raw_Update = mock_updateUnlocked, raw_Get = mock_Get, raw_Delete = mock_Delete,
      raw_Iter = mock_Iter ord, raw_ErrIsNotExists = (\<lambda>e. e = ENOENT), raw_Batch = None\<rparr>"

definition NewMockMap :: "nat \<Rightarrow> nat \<Rightarrow> MockMap" where
  "NewMockMap ks vs =
     \<lparr>KeySize = ks, ValueSize = vs, Contents = Map.empty, UpdateCount = 0, GetCount = 0,
      DeleteCount = 0, IterCount = 0, IterErr = None, UpdateErr = None, DeleteErr = None\<rparr>"

text \<open>A test may make every deletion fail, but not with the error that says the key was not
  there.\<close>

definition mock_ok :: "nat \<Rightarrow> nat \<Rightarrow> MockMap \<Rightarrow> bool" where
  "mock_ok ks vs m \<longleftrightarrow> KeySize m = ks \<and> ValueSize m = vs \<and> finite (dom (Contents m))
     \<and> (\<forall>k \<in> dom (Contents m). length k = ks) \<and> DeleteErr m \<noteq> Some ENOENT"

lemma mock_ok_new: "mock_ok ks vs (NewMockMap ks vs)"
  by (simp add: mock_ok_def NewMockMap_def)

lemma mock_raw_contract:
  assumes ord: "\<And>S. finite S \<Longrightarrow> distinct (ord S) \<and> set (ord S) = S" and "0 < ks"
  shows "raw_contract (mock_raw ord) Contents (mock_ok ks vs) ks vs"
proof
  fix d d' :: MockMap and kb vb err e r kvs
  show "0 < ks" by fact
  assume ok: "mock_ok ks vs d"
  show "length kb = ks" if "kb \<in> dom (Contents d)"
    using ok that by (auto simp: mock_ok_def)
  show "finite (dom (Contents d))"
    using ok by (simp add: mock_ok_def)
  show "mock_ok ks vs d' \<and> Contents d' = (if err = None then map_put (kb, vb) (Contents d) else Contents d)"
    if "length kb = ks" "length vb = vs" "raw_Update (mock_raw ord) kb vb d = (err, d')"
    using ok that
    by (auto simp: mock_raw_def mock_updateUnlocked_def mock_ok_def map_put_def Let_def split: option.splits if_splits)
  show "mock_ok ks vs d' \<and> Contents d' = (if err = None then (Contents d)(kb := None) else Contents d)"
    if "length kb = ks" "raw_Delete (mock_raw ord) kb d = (err, d')"
    using ok that
    by (auto simp: mock_raw_def mock_Delete_def mock_ok_def Let_def split: option.splits if_splits)
  show "Contents d kb = None"
    if "length kb = ks" "raw_Delete (mock_raw ord) kb d = (Some e, d')" "raw_ErrIsNotExists (mock_raw ord) e"
    using ok that
    by (auto simp: mock_raw_def mock_Delete_def mock_ok_def Let_def split: option.splits if_splits)
  show "mock_ok ks vs d' \<and> Contents d' = Contents d" if "raw_Iter (mock_raw ord) d = (r, d')"
    using ok that by (auto simp: mock_raw_def mock_Iter_def mock_ok_def Let_def split: option.splits)
  show "distinct (map fst kvs) \<and> map_of kvs = Contents d" if "raw_Iter (mock_raw ord) d = ((kvs, None), d')"
  proof -
    have kvs: "kvs = map_entries (ord (dom (Contents d))) (Contents d)"
      using that by (auto simp: mock_raw_def mock_Iter_def Let_def split: option.splits)
    have "finite (dom (Contents d))" using ok by (simp add: mock_ok_def)
    from ord [OF this] have "visits (ord (dom (Contents d))) (Contents d)"
      by (simp add: visits_def)
    then show ?thesis
      by (simp add: kvs map_entries_keys(2) map_of_map_entries restrict_map_visits visits_def [THEN iffD1])
  qed
qed (simp_all add: mock_raw_def)

section \<open>The typed interface-state map\<close>

definition ifstate_typed_map ::
  "(bytes set \<Rightarrow> bytes list) \<Rightarrow> bool \<Rightarrow> (Key, Value, MockMap, mock_error) TypedMap" where
  "ifstate_typed_map ord batched =
     \<lparr>untypedMap = mock_raw ord, kAsBytes = Key_AsBytes, vAsBytes = Value_AsBytes,
      kConstructor = KeyFromBytes, vConstructor = ValueFromBytes, batchOpsSupported = batched\<rparr>"

interpretation ifstate_raw: raw_contract "mock_raw sorted_list_of_set" Contents "mock_ok 4 52" 4 52
  by (rule mock_raw_contract) simp_all

interpretation ifstate: typed_contract
  "ifstate_typed_map sorted_list_of_set False" Contents "mock_ok 4 52" 4 52
proof (intro typed_contract.intro typed_contract_axioms.intro)
  show "raw_contract (untypedMap (ifstate_typed_map sorted_list_of_set False)) Contents (mock_ok 4 52) 4 52"
    using ifstate_raw.raw_contract_axioms by (simp add: ifstate_typed_map_def)
qed (simp_all add: ifstate_typed_map_def Key_AsBytes_def Value_AsBytes_def KeyFromBytes_def
    ValueFromBytes_def array_bytes_from)

end
