(* ===== verification/Libbpf_Batch.thy ===== *)
theory Libbpf_Batch
  imports Typed_Map Tracker_Refinement
begin

text \<open>
  The batch operations of a pinned BPF map (\<^verbatim>\<open>felix/bpf/maps/maps.go\<close>,
  \<^verbatim>\<open>felix/bpf/libbpf/libbpf.go\<close>). The kernel reports how many entries of a batch it has
  applied also when it stops at an error, and the wrappers here drop that count. The contract of a backing
  map asks for it, so a pinned map does not keep the contract; the property below shows what is lost.
\<close>

text \<open>The kernel's operations are parameters: \<open>sys\<close> is the call of the C library, which leaves the number of
  entries it has applied in \<^verbatim>\<open>count\<close> and sets \<^verbatim>\<open>errno\<close>.\<close>

definition MapUpdateBatch ::
  "(bytes \<Rightarrow> bytes \<Rightarrow> nat \<Rightarrow> 'd \<Rightarrow> (nat \<times> 'e option) \<times> 'd) \<Rightarrow> bytes \<Rightarrow> bytes \<Rightarrow> nat \<Rightarrow> 'd \<Rightarrow> (nat \<times> 'e option) \<times> 'd" where
  "MapUpdateBatch sys k v count d =
     (case sys k v count d of
        ((count, Some err), d) \<Rightarrow> ((0, Some err), d)
      | ((count, None), d) \<Rightarrow> ((count, None), d))"

definition MapDeleteBatch ::
  "(bytes \<Rightarrow> nat \<Rightarrow> 'd \<Rightarrow> (nat \<times> 'e option) \<times> 'd) \<Rightarrow> bytes \<Rightarrow> nat \<Rightarrow> 'd \<Rightarrow> (nat \<times> 'e option) \<times> 'd" where
  "MapDeleteBatch sys k count d =
     (case sys k count d of
        ((count, Some err), d) \<Rightarrow> ((0, Some err), d)
      | ((count, None), d) \<Rightarrow> ((count, None), d))"

definition PinnedMap_BatchUpdateRaw ::
  "(bytes \<Rightarrow> bytes \<Rightarrow> nat \<Rightarrow> 'd \<Rightarrow> (nat \<times> 'e option) \<times> 'd) \<Rightarrow> bytes \<Rightarrow> bytes \<Rightarrow> nat \<Rightarrow> 'd \<Rightarrow> (nat \<times> 'e option) \<times> 'd" where
  "PinnedMap_BatchUpdateRaw sys ks vs count = MapUpdateBatch sys ks vs count"

definition PinnedMap_BatchDeleteRaw ::
  "(bytes \<Rightarrow> nat \<Rightarrow> 'd \<Rightarrow> (nat \<times> 'e option) \<times> 'd) \<Rightarrow> bytes \<Rightarrow> nat \<Rightarrow> 'd \<Rightarrow> (nat \<times> 'e option) \<times> 'd" where
  "PinnedMap_BatchDeleteRaw sys ks count = MapDeleteBatch sys ks count"

section \<open>An entry that stays behind\<close>

lemma two_updates:
  assumes "k1 \<noteq> k2" and "t = DesiredView_Set k2 v2 (DesiredView_Set k1 v1 empty_tracker)"
  shows "desiredUpdates t = [k1 \<mapsto> v1, k2 \<mapsto> v2]" "inDataplaneNotDesired t = Map.empty" "inDataplaneAndDesired t = Map.empty"
  using assms(1) by (simp_all add: assms(2) DesiredView_Set_def empty_tracker_def)

lemma two_deletes:
  assumes "k1 \<noteq> k2" and "t = DesiredView_Set k2 v2 (DesiredView_Set k1 v1 empty_tracker)"
  shows "DesiredView_Delete k2 (DesiredView_Delete k1 t) = empty_tracker"
  using assms(1) by (simp add: assms(2) DesiredView_Set_def DesiredView_Delete_def empty_tracker_def Let_def fun_upd_twist)

lemma typed_batch_pinned:
  assumes "raw_Batch (untypedMap m) = Some (PinnedMap_BatchUpdateRaw bu, bd)" and "batchOpsSupported m"
    and "xs \<noteq> []" and "bu (concat (map (kAsBytes m \<circ> fst) xs)) (concat (map (vAsBytes m \<circ> snd) xs)) (length xs) d = ((n, Some e), d')"
  shows "TypedMap_BatchUpdate m (map fst xs) (map snd xs) d = ((0, Some (RawError e)), d')"
  using assms by (simp add: TypedMap_BatchUpdate_def PinnedMap_BatchUpdateRaw_def MapUpdateBatch_def Let_def)

lemma failed_pair:
  assumes k: "k1 \<noteq> k2" and t: "t = DesiredView_Set k2 v2 (DesiredView_Set k1 v1 empty_tracker)"
    and b2: "BatchUpdate [k1, k2] [v1, v2] d0 = ((0, Some e1), d1)" and b1: "BatchUpdate [k2] [v2] d1 = ((0, Some e2), d2)"
  shows "PendingUpdatesView_IterBatched (update_batch BatchUpdate) [k1, k2] t (d0, []) = Return (t, d2, [e1, e2])"
  using k b2 b1 two_updates [OF k t]
  by (simp add: PendingUpdatesView_IterBatched_def iter_batched_def pending_update_def batchSize_def Let_def
      batch_drain.simps batch_call_def update_batch_def)

text \<open>C6. A pinned map loses an entry. The kernel takes the first of two new entries of a batch and fails on the
  second; the wrapper reports that nothing was applied. The caching map then reports the error and does not
  know of the first entry. When both entries stop being desired, it has nothing to delete: it reports no error
  and says that it is in sync with an empty desired map, while the first entry is still in the kernel's map.\<close>

theorem lost_batch_count:
  assumes "k1 \<noteq> k2" and "range_orders ord" and "ord 5 {k1, k2} = [k1, k2]"
    and "raw_Batch (untypedMap m) = Some (PinnedMap_BatchUpdateRaw bu, PinnedMap_BatchDeleteRaw bd)" and "batchOpsSupported m"
    and "bu (kAsBytes m k1 @ kAsBytes m k2) (vAsBytes m v1 @ vAsBytes m v2) 2 d0 = ((1, Some e), d1)"
    and "bu (kAsBytes m k2) (vAsBytes m v2) 1 d1 = ((0, Some e'), d2)"
    and "entries d0 = Map.empty" and "entries d1 = [kAsBytes m k1 \<mapsto> vAsBytes m v1]" and "entries d2 = entries d1"
    and "c0 = \<lparr>cm_name = n, deltaTracker = DesiredView_Set k2 v2 (DesiredView_Set k1 v1 empty_tracker), cacheLoaded = True\<rparr>"
    and "c1 = c0\<lparr>deltaTracker := DesiredView_Delete k2 (DesiredView_Delete k1 (deltaTracker c0))\<rparr>"
  shows "(\<exists>err. ApplyAllChanges (typed_dataplane m) ord c0 d0 = Return (Some err, c0, d2))
    \<and> ApplyAllChanges (typed_dataplane m) ord c1 d2 = Return (None, c1, d2)
    \<and> desired c1 = Map.empty \<and> InSync (deltaTracker c1) \<and> entries d2 (kAsBytes m k1) = Some (vAsBytes m v1)"
proof (intro conjI)
  let ?t = "DesiredView_Set k2 v2 (DesiredView_Set k1 v1 empty_tracker)"
  have empty: "ord i {} = []" for i using assms(2) unfolding range_orders_def by (metis finite.emptyI set_empty)
  note t = two_updates [OF assms(1) refl, of v2 v1]
  have dom: "dom [k1 \<mapsto> v1, k2 \<mapsto> v2] = {k1, k2}" by auto
  note b2 = typed_batch_pinned [OF assms(4,5), of "[(k1, v1), (k2, v2)]" d0 1 e d1]
  note b1 = typed_batch_pinned [OF assms(4,5), of "[(k2, v2)]" d1 0 e' d2]
  have loop: "PendingUpdatesView_IterBatched (update_batch (TypedMap_BatchUpdate m)) [k1, k2] ?t (d0, [])
      = Return (?t, d2, [RawError e, RawError e'])"
    using b2 b1 assms(6,7) by (intro failed_pair [OF assms(1) refl]) (simp_all add: numeral_2_eq_2)
  show "\<exists>err. ApplyAllChanges (typed_dataplane m) ord c0 d0 = Return (Some err, c0, d2)"
    using loop t assms(3) empty dom
    by (simp add: ApplyAllChanges_def ApplyDeletionsOnly_def ApplyUpdatesOnly_def maybeLoadCache_def assms(11) typed_dataplane_def
        PendingDeletionsView_IterBatched_def iter_batched_def batch_drain.simps apply_result_def Let_def)
  have c1: "deltaTracker c1 = empty_tracker" "cacheLoaded c1"
    using two_deletes [OF assms(1) refl, of v2 v1] by (simp_all add: assms(11,12))
  then show "ApplyAllChanges (typed_dataplane m) ord c1 d2 = Return (None, c1, d2)"
    using empty
    by (simp add: ApplyAllChanges_def ApplyDeletionsOnly_def ApplyUpdatesOnly_def maybeLoadCache_def typed_dataplane_def
        PendingDeletionsView_IterBatched_def PendingUpdatesView_IterBatched_def iter_batched_def batch_drain.simps apply_result_def
        Let_def empty_tracker_def)
  show "desired c1 = Map.empty" by (simp add: c1)
  show "InSync (deltaTracker c1)" by (simp add: c1 InSync_def PendingDeletionsView_Len_def PendingUpdatesView_Len_def empty_tracker_def)
  show "entries d2 (kAsBytes m k1) = Some (vAsBytes m v1)" using assms(9,10) by simp
qed

text \<open>A kernel map that has room for one entry, with keys and values of one byte.\<close>

definition tiny_update :: "bytes \<Rightarrow> bytes \<Rightarrow> nat \<Rightarrow> (bytes \<rightharpoonup> bytes) \<Rightarrow> (nat \<times> unit option) \<times> (bytes \<rightharpoonup> bytes)" where
  "tiny_update ks vs count d =
     (if d = Map.empty then (if count = 1 then ((1, None), [ks \<mapsto> vs]) else ((1, Some ()), [take 1 ks \<mapsto> take 1 vs]))
      else ((0, Some ()), d))"

definition tiny_map :: "(bool, byte, bytes \<rightharpoonup> bytes, unit) TypedMap" where
  "tiny_map =
     \<lparr>untypedMap =
        \<lparr>raw_Update = (\<lambda>k v d. (snd (fst (tiny_update k v 1 d)), snd (tiny_update k v 1 d))),
         raw_Get = (\<lambda>k d. (case d k of Some v \<Rightarrow> Inr v | None \<Rightarrow> Inl (), d)),
         raw_Delete = (\<lambda>k d. (if d k = None then Some () else None, d(k := None))),
         raw_Iter = (\<lambda>d. ((map (\<lambda>k. (k, the (d k))) (filter (\<lambda>k. d k \<noteq> None) [[0], [1]]), None), d)),
         raw_ErrIsNotExists = (\<lambda>_. True),
         raw_Batch = Some (PinnedMap_BatchUpdateRaw tiny_update, PinnedMap_BatchDeleteRaw (\<lambda>ks count d. ((count, None), Map.empty)))\<rparr>,
      kAsBytes = (\<lambda>k. [if k then 1 else 0]), vAsBytes = (\<lambda>v. [v]), kConstructor = (\<lambda>b. b = [1]), vConstructor = hd,
      batchOpsSupported = True\<rparr>"

definition tiny_caching_map :: "(bool, byte) CachingMap" where
  "tiny_caching_map =
     \<lparr>cm_name = ''tiny'', deltaTracker = DesiredView_Set True 9 (DesiredView_Set False 8 empty_tracker), cacheLoaded = True\<rparr>"

theorem lost_batch_count_witness:
  "(\<exists>err. ApplyAllChanges (typed_dataplane tiny_map) (\<lambda>_. sorted_list_of_set) tiny_caching_map Map.empty
      = Return (Some err, tiny_caching_map, [[0] \<mapsto> [8]]))
   \<and> (\<exists>c. deltaTracker c = DesiredView_Delete True (DesiredView_Delete False (deltaTracker tiny_caching_map))
      \<and> ApplyAllChanges (typed_dataplane tiny_map) (\<lambda>_. sorted_list_of_set) c [[0] \<mapsto> [8]] = Return (None, c, [[0] \<mapsto> [8]])
      \<and> desired c = Map.empty \<and> InSync (deltaTracker c))"
proof -
  have bytes: "kAsBytes tiny_map False = [0]" "kAsBytes tiny_map True = [1]" "vAsBytes tiny_map v = [v]" for v
    by (simp_all add: tiny_map_def)
  have ord: "range_orders (\<lambda>_. sorted_list_of_set :: bool set \<Rightarrow> bool list)" "sorted_list_of_set {False, True} = [False, True]"
    by (simp_all add: range_orders_def)
  have batch: "raw_Batch (untypedMap tiny_map) = Some (PinnedMap_BatchUpdateRaw tiny_update, PinnedMap_BatchDeleteRaw (\<lambda>ks count d. ((count, None), Map.empty)))"
    "batchOpsSupported tiny_map" by (simp_all add: tiny_map_def)
  define c where "c = tiny_caching_map\<lparr>deltaTracker := DesiredView_Delete True (DesiredView_Delete False (deltaTracker tiny_caching_map))\<rparr>"
  note lost = lost_batch_count [where ord = "\<lambda>_. sorted_list_of_set" and entries = "\<lambda>d. d" and ?d0.0 = Map.empty
      and ?d1.0 = "[[0] \<mapsto> [8]]" and ?d2.0 = "[[0] \<mapsto> [8]]" and e = "()" and e' = "()" and ?k1.0 = False and ?k2.0 = True,
      OF _ ord(1) ord(2) batch _ _ _ _ _ tiny_caching_map_def c_def, unfolded bytes]
  have "(\<exists>err. ApplyAllChanges (typed_dataplane tiny_map) (\<lambda>_. sorted_list_of_set) tiny_caching_map Map.empty
      = Return (Some err, tiny_caching_map, [[0] \<mapsto> [8]]))
    \<and> ApplyAllChanges (typed_dataplane tiny_map) (\<lambda>_. sorted_list_of_set) c [[0] \<mapsto> [8]] = Return (None, c, [[0] \<mapsto> [8]])
    \<and> desired c = Map.empty \<and> InSync (deltaTracker c) \<and> [[0] \<mapsto> [8]] [0 :: byte] = Some [8 :: byte]"
  proof (rule lost)
    show "tiny_update ([0] @ [1]) ([8] @ [9]) 2 Map.empty = ((1, Some ()), [[0] \<mapsto> [8]])" by (simp add: tiny_update_def)
    show "tiny_update [1] [9] 1 [[0] \<mapsto> [8]] = ((0, Some ()), [[0] \<mapsto> [8]])" by (simp add: tiny_update_def)
  qed simp_all
  moreover have "deltaTracker c = DesiredView_Delete True (DesiredView_Delete False (deltaTracker tiny_caching_map))" by (simp add: c_def)
  ultimately show ?thesis by blast
qed

end
