(* ===== verification/Selector_Tokenizer.thy ===== *)
theory Selector_Tokenizer
  imports Calico_Base
begin

text \<open>
  The tokenizer of the label selector language
  (\<^verbatim>\<open>libcalico-go/lib/selector/tokenizer/tokenizer.go\<close>). The loop of
  \<^verbatim>\<open>AppendTokens\<close> carries a guard against not making progress; the lemmas show
  that the guard never fires, that a token list ends in its only end-of-input token, and which
  inputs give which token.
\<close>

section \<open>Tokens\<close>

datatype Kind =
  TokNone | TokLabel | TokStringLiteral | TokLBrace | TokRBrace | TokComma | TokEq | TokNe | TokIn
| TokNot | TokNotIn | TokContains | TokStartsWith | TokEndsWith | TokAll | TokHas | TokLParen
| TokRParen | TokAnd | TokOr | TokGlobal | TokEOF

datatype Token = Token (tokKind: Kind) (tokValue: string)

abbreviation tok :: "Kind \<Rightarrow> Token" where
  "tok k \<equiv> Token k []"

definition MaxLabelLength :: nat where
  "MaxLabelLength = 512"

datatype token_error =
  UnterminatedString | ExpectedEqEq | ExpectedAndAnd | ExpectedOrOr | ExpectedOperator string
| NoClosingParen string | LabelTooLong string | ExpectedIdentifier | InfiniteLoop

section \<open>Cutting the input\<close>

definition trimWhitespace :: "string \<Rightarrow> string" where
  "trimWhitespace input = dropWhile (\<lambda>c. c = CHR '' '' \<or> c = CHR 0x09) input"

definition identifierChar :: "char \<Rightarrow> bool" where
  "identifierChar c =
     (c \<ge> CHR ''a'' \<and> c \<le> CHR ''z'' \<or>
      c \<ge> CHR ''A'' \<and> c \<le> CHR ''Z'' \<or>
      c \<ge> CHR ''0'' \<and> c \<le> CHR ''9'' \<or>
      c = CHR ''_'' \<or>
      c = CHR ''.'' \<or>
      c = CHR ''/'' \<or>
      c = CHR ''-'')"

definition isWordBoundary :: "string \<Rightarrow> bool" where
  "isWordBoundary s = (case s of [] \<Rightarrow> True | c # _ \<Rightarrow> \<not> identifierChar c)"

definition cutPrefixCheckBreak :: "string \<Rightarrow> string \<Rightarrow> string \<times> bool" where
  "cutPrefixCheckBreak input prefix =
     (case go_cut_prefix input prefix of
        (remainder, found) \<Rightarrow>
          if \<not> found then (input, False)
          else if \<not> isWordBoundary remainder then (input, False)
          else (remainder, True))"

fun cut_words :: "string \<Rightarrow> string list \<Rightarrow> string option" where
  "cut_words remainder [] = Some remainder"
| "cut_words remainder (word # words) =
     (case go_cut_prefix remainder word of
        (r, found) \<Rightarrow> if \<not> found then None else cut_words (trimWhitespace r) words)"

definition cutMultiWordPrefixCheckBreak :: "string \<Rightarrow> string list \<Rightarrow> string \<times> bool" where
  "cutMultiWordPrefixCheckBreak input words =
     (case cut_words input words of
        None \<Rightarrow> (input, False)
      | Some remainder \<Rightarrow>
          if \<not> isWordBoundary remainder then (input, False) else (remainder, True))"

text \<open>The deferred function of \<^verbatim>\<open>cutIdentifier\<close> turns an empty and an overlong
  identifier into errors.\<close>

definition cutIdentifier :: "string \<Rightarrow> (token_error, string \<times> string) result" where
  "cutIdentifier s =
     (let ident = takeWhile identifierChar s; remainder = dropWhile identifierChar s
      in if length ident > MaxLabelLength then Inl (LabelTooLong ident)
         else if length ident = 0 then Inl ExpectedIdentifier
         else Inr (ident, remainder))"

definition ValidLabel :: "string \<Rightarrow> bool" where
  "ValidLabel label =
     (case cutIdentifier label of Inl _ \<Rightarrow> False | Inr (_, remainder) \<Rightarrow> remainder = [])"

section \<open>The loop\<close>

definition cut_string :: "char \<Rightarrow> string \<Rightarrow> (token_error, Token \<times> string) result" where
  "cut_string q input =
     (case go_index_char input q of
        None \<Rightarrow> Inl UnterminatedString
      | Some i \<Rightarrow> Inr (Token TokStringLiteral (take i input), drop (i + 1) input))"

definition cut_double :: "string \<Rightarrow> string \<Rightarrow> Kind \<Rightarrow> token_error \<Rightarrow> (token_error, Token \<times> string) result" where
  "cut_double input op k e =
     (case go_cut_prefix input op of (rest, True) \<Rightarrow> Inr (tok k, rest) | (_, False) \<Rightarrow> Inl e)"

definition cut_operator :: "string \<Rightarrow> string \<Rightarrow> (token_error, Token \<times> string) result" where
  "cut_operator label input =
     (case cutPrefixCheckBreak input ''contains'' of
        (rest, True) \<Rightarrow> Inr (tok TokContains, rest)
      | (input, False) \<Rightarrow>
     (case cutMultiWordPrefixCheckBreak input [''starts'', ''with''] of
        (rest, True) \<Rightarrow> Inr (tok TokStartsWith, rest)
      | (input, False) \<Rightarrow>
     (case cutMultiWordPrefixCheckBreak input [''ends'', ''with''] of
        (rest, True) \<Rightarrow> Inr (tok TokEndsWith, rest)
      | (input, False) \<Rightarrow>
     (case cutMultiWordPrefixCheckBreak input [''not'', ''in''] of
        (rest, True) \<Rightarrow> Inr (tok TokNotIn, rest)
      | (input, False) \<Rightarrow>
     (case cutPrefixCheckBreak input ''in'' of
        (rest, True) \<Rightarrow> Inr (tok TokIn, rest)
      | (input, False) \<Rightarrow> Inl (ExpectedOperator label))))))"

definition cut_close :: "string \<Rightarrow> string \<Rightarrow> Token \<Rightarrow> (token_error, Token \<times> string) result" where
  "cut_close name input t =
     (case go_cut_prefix (trimWhitespace input) '')'' of
        (rest, True) \<Rightarrow> Inr (t, rest)
      | (_, False) \<Rightarrow> Inl (NoClosingParen name))"

definition cut_word :: "string \<Rightarrow> (token_error, Token \<times> string) result" where
  "cut_word input =
     (case go_cut_prefix input ''has('' of
        (rest, True) \<Rightarrow>
          (case cutIdentifier (trimWhitespace rest) of
             Inl e \<Rightarrow> Inl e
           | Inr (ident, rest) \<Rightarrow> cut_close ''has('' rest (Token TokHas ident))
      | (input, False) \<Rightarrow>
     (case go_cut_prefix input ''all('' of
        (rest, True) \<Rightarrow> cut_close ''all('' rest (tok TokAll)
      | (input, False) \<Rightarrow>
     (case go_cut_prefix input ''global('' of
        (rest, True) \<Rightarrow> cut_close ''global('' rest (tok TokGlobal)
      | (input, False) \<Rightarrow>
     (case cutIdentifier input of
        Inl e \<Rightarrow> Inl e
      | Inr (ident, rest) \<Rightarrow> Inr (Token TokLabel ident, rest)))))"

text \<open>The \<^verbatim>\<open>switch\<close> on the first byte, for an input without leading white space.\<close>

definition next_token :: "Token option \<Rightarrow> string \<Rightarrow> (token_error, Token \<times> string) result" where
  "next_token lastTok input =
     (let c = hd input; rest = tl input
      in if c = CHR ''('' then Inr (tok TokLParen, rest)
         else if c = CHR '')'' then Inr (tok TokRParen, rest)
         else if c = CHR 0x22 then cut_string c rest
         else if c = CHR 0x27 then cut_string c rest
         else if c = CHR ''{'' then Inr (tok TokLBrace, rest)
         else if c = CHR ''}'' then Inr (tok TokRBrace, rest)
         else if c = CHR '','' then Inr (tok TokComma, rest)
         else if c = CHR ''='' then cut_double input ''=='' TokEq ExpectedEqEq
         else if c = CHR ''!'' then
           (case go_cut_prefix input ''!='' of
              (r, True) \<Rightarrow> Inr (tok TokNe, r)
            | (_, False) \<Rightarrow> Inr (tok TokNot, rest))
         else if c = CHR ''&'' then cut_double input ''&&'' TokAnd ExpectedAndAnd
         else if c = CHR ''|'' then cut_double input ''||'' TokOr ExpectedOrOr
         else case lastTok of
                Some (Token TokLabel label) \<Rightarrow> cut_operator label input
              | _ \<Rightarrow> cut_word input)"

definition last_token :: "Token list \<Rightarrow> Token option" where
  "last_token tokens = (if tokens = [] then None else Some (last tokens))"

function AppendTokens :: "Token list \<Rightarrow> string \<Rightarrow> (token_error, Token list) result" where
  "AppendTokens tokens input =
     (let startLen = length input; input = trimWhitespace input
      in if input = [] then Inr (tokens @ [tok TokEOF])
         else case next_token (last_token tokens) input of
                Inl e \<Rightarrow> Inl e
              | Inr (t, rest) \<Rightarrow>
                  if length rest \<ge> startLen then Inl InfiniteLoop
                  else AppendTokens (tokens @ [t]) rest)"
  by pat_completeness auto
termination
  by (relation "measure (\<lambda>(tokens, input). length input)") auto

declare AppendTokens.simps [simp del]

definition Tokenize :: "string \<Rightarrow> (token_error, Token list) result" where
  "Tokenize input = AppendTokens [] input"

section \<open>The loop makes progress\<close>

lemma trimWhitespace_length: "length (trimWhitespace s) \<le> length s"
  by (simp add: trimWhitespace_def length_dropWhile_le)

lemma go_cut_prefix_length: "go_cut_prefix s p = (r, True) \<Longrightarrow> length s = length p + length r"
  by (simp add: go_cut_prefix_True)

lemma cut_words_length:
  "cut_words s ws = Some r \<Longrightarrow> length r + length (concat ws) \<le> length s"
proof (induction ws arbitrary: s)
  case (Cons w ws)
  obtain q where q: "go_cut_prefix s w = (q, True)" "cut_words (trimWhitespace q) ws = Some r"
    using Cons.prems by (auto split: prod.splits if_splits)
  have "length r + length (concat ws) \<le> length q"
    using Cons.IH [OF q(2)] trimWhitespace_length [of q] by simp
  with go_cut_prefix_length [OF q(1)] show ?case by simp
qed simp

lemma cutPrefixCheckBreak_length:
  "cutPrefixCheckBreak s p = (r, True) \<Longrightarrow> length s = length p + length r"
  by (auto simp: cutPrefixCheckBreak_def split: prod.splits if_splits dest: go_cut_prefix_length)

lemma cutMultiWord_length:
  "cutMultiWordPrefixCheckBreak s ws = (r, True) \<Longrightarrow> length r + length (concat ws) \<le> length s"
  by (auto simp: cutMultiWordPrefixCheckBreak_def split: option.splits if_splits dest: cut_words_length)

lemma cutIdentifier_length:
  assumes "cutIdentifier s = Inr (i, r)"
  shows "s = i @ r" and "i \<noteq> []" and "length i \<le> MaxLabelLength" and "\<forall>c \<in> set i. identifierChar c"
  using assms by (auto simp: cutIdentifier_def Let_def split: if_splits dest: set_takeWhileD)

lemma cut_string_Inr:
  assumes "cut_string q s = Inr (t, r)"
  shows "\<exists>v. t = Token TokStringLiteral v \<and> q \<notin> set v \<and> s = v @ q # r"
proof -
  obtain i where i: "go_index_char s q = Some i" "t = Token TokStringLiteral (take i s)" "r = drop (i + 1) s"
    using assms by (auto simp: cut_string_def split: option.splits)
  have "i < length s" "s ! i = q" "q \<notin> set (take i s)"
    using go_index_char_Some [OF i(1)] by simp_all
  then show ?thesis using i by (auto simp: id_take_nth_drop [symmetric])
qed

lemma cut_double_Inr: "cut_double s op k e = Inr (t, r) \<longleftrightarrow> t = tok k \<and> s = op @ r"
  by (auto simp: cut_double_def go_cut_prefix_True go_cut_prefix_def go_has_prefix_iff)

lemma cut_close_Inr:
  "cut_close n s t' = Inr (t, r) \<longleftrightarrow> t = t' \<and> trimWhitespace s = CHR '')'' # r"
  by (auto simp: cut_close_def go_cut_prefix_def go_has_prefix_iff)

text \<open>The tokens a run can produce before the end of the input.\<close>

definition label_ok :: "string \<Rightarrow> bool" where
  "label_ok l \<longleftrightarrow> l \<noteq> [] \<and> length l \<le> MaxLabelLength \<and> (\<forall>c \<in> set l. identifierChar c)"

definition value_ok :: "string \<Rightarrow> bool" where
  "value_ok v \<longleftrightarrow> CHR 0x22 \<notin> set v \<or> CHR 0x27 \<notin> set v"

definition token_ok :: "Token \<Rightarrow> bool" where
  "token_ok t \<longleftrightarrow>
     (case tokKind t of
        TokLabel \<Rightarrow> label_ok (tokValue t)
      | TokHas \<Rightarrow> label_ok (tokValue t)
      | TokStringLiteral \<Rightarrow> value_ok (tokValue t)
      | k \<Rightarrow> k \<noteq> TokNone \<and> k \<noteq> TokEOF \<and> tokValue t = [])"

lemma token_ok_simps [simp]:
  "token_ok (Token TokLabel v) = label_ok v" "token_ok (Token TokHas v) = label_ok v"
  "token_ok (Token TokStringLiteral v) = value_ok v"
  "token_ok (tok TokLParen)" "token_ok (tok TokRParen)" "token_ok (tok TokLBrace)" "token_ok (tok TokRBrace)"
  "token_ok (tok TokComma)" "token_ok (tok TokEq)" "token_ok (tok TokNe)" "token_ok (tok TokIn)"
  "token_ok (tok TokNotIn)" "token_ok (tok TokNot)" "token_ok (tok TokContains)"
  "token_ok (tok TokStartsWith)" "token_ok (tok TokEndsWith)" "token_ok (tok TokAll)"
  "token_ok (tok TokGlobal)" "token_ok (tok TokAnd)" "token_ok (tok TokOr)"
  "\<not> token_ok (Token TokEOF v)" "\<not> token_ok (Token TokNone v)"
  by (simp_all add: token_ok_def)

lemma cutIdentifier_label_ok: "cutIdentifier s = Inr (i, r) \<Longrightarrow> label_ok i"
  using cutIdentifier_length [of s i r] by (simp add: label_ok_def)

lemma cutIdentifier_append:
  assumes "label_ok i" and "isWordBoundary r"
  shows "cutIdentifier (i @ r) = Inr (i, r)"
proof -
  have "takeWhile identifierChar r = []" "dropWhile identifierChar r = r"
    using assms(2) by (cases r; simp add: isWordBoundary_def)+
  moreover have "takeWhile identifierChar (i @ r) = i @ takeWhile identifierChar r"
    "dropWhile identifierChar (i @ r) = dropWhile identifierChar r"
    using assms(1) by (simp_all add: label_ok_def)
  ultimately show ?thesis
    using assms(1) by (simp add: cutIdentifier_def label_ok_def)
qed

lemma ValidLabel_iff: "ValidLabel l \<longleftrightarrow> label_ok l"
proof
  assume "ValidLabel l"
  then obtain i where "cutIdentifier l = Inr (i, [])"
    by (auto simp: ValidLabel_def split: sum.splits)
  with cutIdentifier_length [OF this] show "label_ok l" by (simp add: label_ok_def)
next
  assume "label_ok l"
  from cutIdentifier_append [OF this, of "[]"] show "ValidLabel l"
    by (simp add: ValidLabel_def isWordBoundary_def)
qed

lemma cut_operator_Inr:
  assumes "cut_operator l s = Inr (t, r)"
  shows "token_ok t \<and> length r < length s"
proof -
  have cases: "cutPrefixCheckBreak s p = (q, b) \<Longrightarrow> b \<and> length s = length p + length q \<or> \<not> b \<and> q = s" for p q b
    by (cases b) (auto dest: go_cut_prefix_length simp: cutPrefixCheckBreak_def split: prod.splits if_splits)
  have casesm: "cutMultiWordPrefixCheckBreak s ws = (q, b) \<Longrightarrow>
      b \<and> length q + length (concat ws) \<le> length s \<or> \<not> b \<and> q = s" for ws q b
    by (cases b) (auto dest: cut_words_length simp: cutMultiWordPrefixCheckBreak_def split: option.splits if_splits)
  show ?thesis
    using assms cases [of "''contains''"] casesm [of "[''starts'', ''with'']"] casesm [of "[''ends'', ''with'']"]
      casesm [of "[''not'', ''in'']"] cases [of "''in''"]
    by (auto simp: cut_operator_def split: prod.splits bool.splits)
qed

lemma cut_close_length: "cut_close n s t' = Inr (t, r) \<Longrightarrow> t = t' \<and> length r < length s"
  using trimWhitespace_length [of s] by (auto simp: cut_close_Inr)

lemma cut_word_Inr:
  assumes "cut_word s = Inr (t, r)"
  shows "token_ok t \<and> length r < length s"
proof -
  consider (has) q i q' where "go_cut_prefix s ''has('' = (q, True)" "cutIdentifier (trimWhitespace q) = Inr (i, q')"
      "cut_close ''has('' q' (Token TokHas i) = Inr (t, r)"
    | (all) q where "go_cut_prefix s ''all('' = (q, True)" "cut_close ''all('' q (tok TokAll) = Inr (t, r)"
    | (global) q where "go_cut_prefix s ''global('' = (q, True)" "cut_close ''global('' q (tok TokGlobal) = Inr (t, r)"
    | (label) i where "cutIdentifier s = Inr (i, r)" "t = Token TokLabel i"
    using assms by (auto simp: cut_word_def go_cut_prefix_def split: prod.splits bool.splits sum.splits if_splits)
  then show ?thesis
  proof cases
    case has
    have "length q' \<le> length (trimWhitespace q)"
      using cutIdentifier_length(1) [OF has(2)] by simp
    with has cut_close_length [OF has(3)] go_cut_prefix_length [OF has(1)] trimWhitespace_length [of q]
      cutIdentifier_label_ok [OF has(2)]
    show ?thesis by simp
  next
    case all
    with cut_close_length [OF all(2)] go_cut_prefix_length [OF all(1)] show ?thesis
      by simp
  next
    case global
    with cut_close_length [OF global(2)] go_cut_prefix_length [OF global(1)] show ?thesis
      by simp
  next
    case label
    with cutIdentifier_length(1,2) [OF label(1)] cutIdentifier_label_ok [OF label(1)] show ?thesis
      by simp
  qed
qed

lemma next_token_Inr:
  assumes "next_token l s = Inr (t, r)" and "s \<noteq> []"
  shows "token_ok t \<and> length r < length s"
proof -
  obtain c s' where s: "s = c # s'" using assms(2) by (cases s) auto
  have str: "token_ok t \<and> length r < length s"
    if "cut_string c s' = Inr (t, r)" "c = CHR 0x22 \<or> c = CHR 0x27"
    using cut_string_Inr [OF that(1)] that(2) by (auto simp: s value_ok_def)
  have word: "token_ok t \<and> length r < length s"
    if "(case l of Some (Token TokLabel label) \<Rightarrow> cut_operator label s | _ \<Rightarrow> cut_word s) = Inr (t, r)"
    using that cut_operator_Inr cut_word_Inr by (auto split: option.splits Token.splits Kind.splits)
  show ?thesis
    using assms(1) str [unfolded s] word [unfolded s]
    by (auto simp: next_token_def Let_def s cut_double_Inr go_cut_prefix_def go_has_prefix_iff
        simp del: split_paired_Ex split: if_splits)
qed

lemma AppendTokens_induct [consumes 0, case_names step]:
  assumes "\<And>tokens s. (\<And>t r. trimWhitespace s \<noteq> [] \<Longrightarrow>
      next_token (last_token tokens) (trimWhitespace s) = Inr (t, r) \<Longrightarrow> P (tokens @ [t]) r) \<Longrightarrow> P tokens s"
  shows "P tokens s"
proof (induction "length s" arbitrary: tokens s rule: less_induct)
  case less
  show ?case
  proof (rule assms)
    fix t r
    assume "trimWhitespace s \<noteq> []" "next_token (last_token tokens) (trimWhitespace s) = Inr (t, r)"
    then have "length r < length s"
      using next_token_Inr trimWhitespace_length [of s] by fastforce
    then show "P (tokens @ [t]) r" by (rule less)
  qed
qed

text \<open>The guard never fires: one pass is a token and the rest.\<close>

lemma AppendTokens_step:
  "AppendTokens tokens s =
     (if trimWhitespace s = [] then Inr (tokens @ [tok TokEOF])
      else case next_token (last_token tokens) (trimWhitespace s) of
             Inl e \<Rightarrow> Inl e
           | Inr (t, r) \<Rightarrow> AppendTokens (tokens @ [t]) r)"
proof -
  have "\<not> length r \<ge> length s"
    if "trimWhitespace s \<noteq> []" "next_token (last_token tokens) (trimWhitespace s) = Inr (t, r)" for t r
    using next_token_Inr [OF that(2,1)] trimWhitespace_length [of s] by simp
  then show ?thesis
    by (subst AppendTokens.simps) (auto simp: Let_def split: sum.split)
qed

lemma cut_not_InfiniteLoop:
  "cut_string q s \<noteq> Inl InfiniteLoop" "cut_close n s t \<noteq> Inl InfiniteLoop"
  "cutIdentifier s \<noteq> Inl InfiniteLoop" "e \<noteq> InfiniteLoop \<Longrightarrow> cut_double s op k e \<noteq> Inl InfiniteLoop"
  "cut_operator l s \<noteq> Inl InfiniteLoop"
  by (simp_all add: cut_string_def cut_close_def cutIdentifier_def Let_def cut_double_def cut_operator_def
      split: option.splits prod.splits bool.splits)

lemma cut_word_not_InfiniteLoop: "cut_word s \<noteq> Inl InfiniteLoop"
proof -
  have "cutIdentifier u \<noteq> Inl InfiniteLoop" "cut_close n u t \<noteq> Inl InfiniteLoop" for u n t
    by (rule cut_not_InfiniteLoop)+
  then show ?thesis
    by (auto simp: cut_word_def split: prod.splits bool.splits sum.splits)
qed

lemma next_token_not_InfiniteLoop: "next_token l s \<noteq> Inl InfiniteLoop"
proof -
  have "(case l of Some (Token TokLabel label) \<Rightarrow> cut_operator label s | _ \<Rightarrow> cut_word s) \<noteq> Inl InfiniteLoop"
    using cut_not_InfiniteLoop(5) cut_word_not_InfiniteLoop
    by (auto split: option.split Token.split Kind.split)
  then show ?thesis
    by (simp add: next_token_def Let_def cut_not_InfiniteLoop split: prod.split bool.split)
qed

lemma AppendTokens_not_InfiniteLoop: "AppendTokens tokens s \<noteq> Inl InfiniteLoop"
proof (induction tokens s rule: AppendTokens_induct)
  case (step tokens s)
  then show ?case
    using next_token_not_InfiniteLoop
    by (subst AppendTokens_step) (auto split: sum.split)
qed

lemma AppendTokens_Inr:
  "AppendTokens tokens s = Inr out \<Longrightarrow>
     \<exists>ts. out = tokens @ ts @ [tok TokEOF] \<and> (\<forall>t \<in> set ts. token_ok t) \<and> length ts \<le> length s"
proof (induction tokens s arbitrary: out rule: AppendTokens_induct)
  case (step tokens s)
  show ?case
  proof (cases "trimWhitespace s = []")
    case True
    with step.prems show ?thesis
      by (intro exI [of _ "[]"]) (simp add: AppendTokens_step [of tokens s])
  next
    case False
    obtain t r where t: "next_token (last_token tokens) (trimWhitespace s) = Inr (t, r)"
      and rest: "AppendTokens (tokens @ [t]) r = Inr out"
      using step.prems False by (subst (asm) AppendTokens_step) (auto split: sum.splits)
    from step.IH [OF False t rest] obtain ts
      where "out = (tokens @ [t]) @ ts @ [tok TokEOF]" "\<forall>t \<in> set ts. token_ok t" "length ts \<le> length r"
      by blast
    with next_token_Inr [OF t False] trimWhitespace_length [of s] show ?thesis
      by (intro exI [of _ "t # ts"]) auto
  qed
qed

section \<open>The tokenizer as a whole\<close>

text \<open>C17. The tokenizer never reports that it makes no progress: every input is rejected with one of
  the syntax errors or gives at most one token per byte followed by one end-of-input token, where
  labels and string literals are well formed.\<close>

theorem tokenize_result:
  "Tokenize s \<noteq> Inl InfiniteLoop
   \<and> (\<forall>out. Tokenize s = Inr out \<longrightarrow>
        out \<noteq> [] \<and> last out = tok TokEOF \<and> length out \<le> length s + 1
        \<and> list_all token_ok (butlast out))"
  unfolding Tokenize_def list_all_iff using AppendTokens_not_InfiniteLoop [of "[]" s] AppendTokens_Inr [of "[]" s] by fastforce

theorem tokenize_result_witness:
  "Tokenize ''( )'' \<noteq> Inl InfiniteLoop
   \<and> [tok TokLParen, tok TokRParen, tok TokEOF] \<noteq> []
   \<and> last [tok TokLParen, tok TokRParen, tok TokEOF] = tok TokEOF
   \<and> length [tok TokLParen, tok TokRParen, tok TokEOF] \<le> length ''( )'' + 1
   \<and> list_all token_ok (butlast [tok TokLParen, tok TokRParen, tok TokEOF])"
proof -
  have "Tokenize ''( )'' = Inr [tok TokLParen, tok TokRParen, tok TokEOF]" by code_simp
  with tokenize_result [of "''( )''"] show ?thesis by blast
qed

end
