(* ===== verification/Selector_AST.thy ===== *)
theory Selector_AST
  imports Calico_Base
begin

text \<open>
  Selector expressions: the string sets of
  \<^verbatim>\<open>libcalico-go/lib/selector/parser/stringset.go\<close> and the nodes of
  \<^verbatim>\<open>ast.go\<close> with evaluation, label restrictions, printing and the prefix visitor.
  A \<^verbatim>\<open>uniquestr.Handle\<close> is the string it stands for: two handles are equal when the
  strings are. A Go slice that may be nil is an option.
\<close>

section \<open>String sets\<close>

type_synonym slice = "string list option"
type_synonym StringSet = slice

definition elems :: "slice \<Rightarrow> string list" where
  "elems s = (case s of None \<Rightarrow> [] | Some xs \<Rightarrow> xs)"

definition StringSet_Contains :: "StringSet \<Rightarrow> string \<Rightarrow> bool" where
  "StringSet_Contains ss s =
     (let idx = go_search (\<lambda>i. elems ss ! i \<ge> s) 0 (length (elems ss))
      in idx < length (elems ss) \<and> elems ss ! idx = s)"

definition SliceCopy :: "StringSet \<Rightarrow> slice" where
  "SliceCopy ss = (case ss of None \<Rightarrow> None | Some xs \<Rightarrow> Some xs)"

definition StringSlice :: "StringSet \<Rightarrow> slice" where
  "StringSlice ss = (case ss of None \<Rightarrow> None | Some xs \<Rightarrow> Some (map (\<lambda>h. h) xs))"

fun dedup_loop :: "string list \<Rightarrow> string list \<Rightarrow> string list" where
  "dedup_loop out [] = out"
| "dedup_loop out (v # vs) = (if v = last out then dedup_loop out vs else dedup_loop (out @ [v]) vs)"

text \<open>
  The set, and what the argument's array holds afterwards: it is sorted in place, and the
  distinct strings are moved to its front.
\<close>

definition ConvertToStringSetInPlace :: "slice \<Rightarrow> StringSet \<times> slice" where
  "ConvertToStringSetInPlace s =
     (if length (elems s) \<le> 1 then (s, s)
      else let xs = sort (elems s); out = dedup_loop [hd xs] (tl xs)
           in (Some out, Some (out @ drop (length out) xs)))"

section \<open>Label restrictions\<close>

record LabelRestriction =
  MustBePresent :: bool
  MustBeAbsent :: bool
  MustHaveOneOfValues :: slice

definition no_restriction :: LabelRestriction where
  "no_restriction = \<lparr>MustBePresent = False, MustBeAbsent = False, MustHaveOneOfValues = None\<rparr>"

definition PossibleToSatisfy :: "LabelRestriction \<Rightarrow> bool" where
  "PossibleToSatisfy r =
     (if MustBePresent r \<and> MustBeAbsent r then False
      else if MustHaveOneOfValues r \<noteq> None \<and> length (elems (MustHaveOneOfValues r)) = 0 then False
      else True)"

definition intersectStringSlicesInPlace :: "slice \<Rightarrow> slice \<Rightarrow> slice" where
  "intersectStringSlicesInPlace a b =
     (let bSet = fst (ConvertToStringSetInPlace b)
      in map_option (filter (StringSet_Contains bSet)) a)"

definition unionStringSlicesInPlace :: "slice \<Rightarrow> slice \<Rightarrow> slice" where
  "unionStringSlicesInPlace a b =
     (let (aSet, a) = ConvertToStringSetInPlace a;
          new = filter (\<lambda>v. \<not> StringSet_Contains aSet v) (elems b)
      in if new = [] then a else Some (elems a @ new))"

type_synonym restrictions = "string \<rightharpoonup> LabelRestriction"

text \<open>
  The loop bodies of the two operators at one label; a \<^verbatim>\<open>range\<close> over the map runs
  them at every label, and a run at one label touches no other. Reading a label that the map does
  not have gives the zero value.
\<close>

definition and_restriction :: "LabelRestriction \<Rightarrow> LabelRestriction \<Rightarrow> LabelRestriction" where
  "and_restriction base r =
     base\<lparr>MustBePresent := MustBePresent base \<or> MustBePresent r,
          MustBeAbsent := MustBeAbsent base \<or> MustBeAbsent r,
          MustHaveOneOfValues :=
            (if MustHaveOneOfValues base = None then MustHaveOneOfValues r
             else if MustHaveOneOfValues r \<noteq> None
             then intersectStringSlicesInPlace (MustHaveOneOfValues base) (MustHaveOneOfValues r)
             else MustHaveOneOfValues base)\<rparr>"

definition or_restriction :: "LabelRestriction \<Rightarrow> LabelRestriction \<Rightarrow> LabelRestriction option" where
  "or_restriction r opr =
     (let present = MustBePresent r \<and> MustBePresent opr;
          vals = (if \<not> present then None
                  else if MustHaveOneOfValues r = None \<or> MustHaveOneOfValues opr = None then None
                  else unionStringSlicesInPlace (MustHaveOneOfValues r) (MustHaveOneOfValues opr));
          absent = MustBeAbsent r \<and> MustBeAbsent opr
      in if present \<or> absent
         then Some \<lparr>MustBePresent = present, MustBeAbsent = absent, MustHaveOneOfValues = vals\<rparr>
         else None)"

definition zero_default :: "LabelRestriction option \<Rightarrow> LabelRestriction" where
  "zero_default r = (case r of None \<Rightarrow> no_restriction | Some r \<Rightarrow> r)"

definition and_merge :: "restrictions \<Rightarrow> restrictions \<Rightarrow> restrictions" where
  "and_merge opLR lr ln =
     (case opLR ln of None \<Rightarrow> lr ln | Some r \<Rightarrow> Some (and_restriction (zero_default (lr ln)) r))"

definition or_merge :: "restrictions \<Rightarrow> restrictions \<Rightarrow> restrictions" where
  "or_merge opLR lr ln =
     (case lr ln of None \<Rightarrow> None | Some r \<Rightarrow> or_restriction r (zero_default (opLR ln)))"

section \<open>Nodes\<close>

datatype Node =
  LabelEqValueNode string string
| LabelNeValueNode string string
| LabelContainsValueNode string string
| LabelStartsWithValueNode string string
| LabelEndsWithValueNode string string
| LabelInSetNode string StringSet
| LabelNotInSetNode string StringSet
| HasNode string
| NotNode Node
| AndNode "Node list"
| OrNode "Node list"
| AllNode
| GlobalNode

type_synonym labels = "string \<rightharpoonup> string"

fun Evaluate :: "Node \<Rightarrow> labels \<Rightarrow> bool" where
  "Evaluate (LabelEqValueNode l x) ls = (case ls l of Some v \<Rightarrow> v = x | None \<Rightarrow> False)"
| "Evaluate (LabelNeValueNode l x) ls = (case ls l of Some v \<Rightarrow> v \<noteq> x | None \<Rightarrow> True)"
| "Evaluate (LabelContainsValueNode l x) ls = (case ls l of Some v \<Rightarrow> go_contains v x | None \<Rightarrow> False)"
| "Evaluate (LabelStartsWithValueNode l x) ls = (case ls l of Some v \<Rightarrow> go_has_prefix v x | None \<Rightarrow> False)"
| "Evaluate (LabelEndsWithValueNode l x) ls = (case ls l of Some v \<Rightarrow> go_has_suffix v x | None \<Rightarrow> False)"
| "Evaluate (LabelInSetNode l ss) ls = (case ls l of Some v \<Rightarrow> StringSet_Contains ss v | None \<Rightarrow> False)"
| "Evaluate (LabelNotInSetNode l ss) ls = (case ls l of Some v \<Rightarrow> \<not> StringSet_Contains ss v | None \<Rightarrow> True)"
| "Evaluate (HasNode l) ls = (ls l \<noteq> None)"
| "Evaluate (NotNode n) ls = (\<not> Evaluate n ls)"
| "Evaluate (AndNode ops) ls = list_all (\<lambda>n. Evaluate n ls) ops"
| "Evaluate (OrNode ops) ls = list_ex (\<lambda>n. Evaluate n ls) ops"
| "Evaluate AllNode ls = True"
| "Evaluate GlobalNode ls = True"

text \<open>
  An \<^const>\<open>OrNode\<close> without operands (on which the code panics, as it does when it prints an
  operator without operands) is not built by the parser: \<open>node_ok\<close> below excludes it.
\<close>

fun LabelRestrictions :: "Node \<Rightarrow> restrictions" where
  "LabelRestrictions (LabelEqValueNode l x) =
     [l \<mapsto> no_restriction\<lparr>MustBePresent := True, MustHaveOneOfValues := Some [x]\<rparr>]"
| "LabelRestrictions (LabelNeValueNode l x) = Map.empty"
| "LabelRestrictions (LabelContainsValueNode l x) = [l \<mapsto> no_restriction\<lparr>MustBePresent := True\<rparr>]"
| "LabelRestrictions (LabelStartsWithValueNode l x) = [l \<mapsto> no_restriction\<lparr>MustBePresent := True\<rparr>]"
| "LabelRestrictions (LabelEndsWithValueNode l x) = [l \<mapsto> no_restriction\<lparr>MustBePresent := True\<rparr>]"
| "LabelRestrictions (LabelInSetNode l ss) =
     [l \<mapsto> no_restriction\<lparr>MustBePresent := True, MustHaveOneOfValues := SliceCopy ss\<rparr>]"
| "LabelRestrictions (LabelNotInSetNode l ss) = Map.empty"
| "LabelRestrictions (HasNode l) = [l \<mapsto> no_restriction\<lparr>MustBePresent := True\<rparr>]"
| "LabelRestrictions (NotNode (HasNode l)) = [l \<mapsto> no_restriction\<lparr>MustBeAbsent := True\<rparr>]"
| "LabelRestrictions (NotNode n) = Map.empty"
| "LabelRestrictions (AndNode ops) = fold and_merge (map LabelRestrictions ops) Map.empty"
| "LabelRestrictions (OrNode []) = Map.empty"
| "LabelRestrictions (OrNode (op # ops)) = fold or_merge (map LabelRestrictions ops) (LabelRestrictions op)"
| "LabelRestrictions AllNode = Map.empty"
| "LabelRestrictions GlobalNode = Map.empty"

subsection \<open>Printing\<close>

definition quote_for :: "string \<Rightarrow> string" where
  "quote_for s = (if go_contains s [CHR 0x22] then [CHR 0x27] else [CHR 0x22])"

definition appendLabelOpAndQuotedString ::
  "string list \<Rightarrow> string \<Rightarrow> string \<Rightarrow> string \<Rightarrow> string list" where
  "appendLabelOpAndQuotedString fragments label op s =
     fragments @ [label, op, quote_for s, s, quote_for s]"

fun in_op_values :: "bool \<Rightarrow> string list \<Rightarrow> string list \<Rightarrow> string list" where
  "in_op_values first fragments [] = fragments"
| "in_op_values first fragments (s # ss) =
     (let fragments = (if \<not> first then fragments @ ['', ''] else fragments)
      in in_op_values False (fragments @ [quote_for s, s, quote_for s]) ss)"

definition collectInOpFragments :: "string list \<Rightarrow> string \<Rightarrow> string \<Rightarrow> StringSet \<Rightarrow> string list" where
  "collectInOpFragments fragments labelName op values =
     in_op_values True (fragments @ [labelName, '' '', op, '' {'']) (elems values) @ [''}'']"

fun collectFragments :: "Node \<Rightarrow> string list \<Rightarrow> string list" where
  "collectFragments (LabelEqValueNode l x) fr = appendLabelOpAndQuotedString fr l '' == '' x"
| "collectFragments (LabelNeValueNode l x) fr = appendLabelOpAndQuotedString fr l '' != '' x"
| "collectFragments (LabelContainsValueNode l x) fr = appendLabelOpAndQuotedString fr l '' contains '' x"
| "collectFragments (LabelStartsWithValueNode l x) fr = appendLabelOpAndQuotedString fr l '' starts with '' x"
| "collectFragments (LabelEndsWithValueNode l x) fr = appendLabelOpAndQuotedString fr l '' ends with '' x"
| "collectFragments (LabelInSetNode l ss) fr = collectInOpFragments fr l ''in'' ss"
| "collectFragments (LabelNotInSetNode l ss) fr = collectInOpFragments fr l ''not in'' ss"
| "collectFragments (HasNode l) fr = fr @ [''has('', l, '')'']"
| "collectFragments (NotNode n) fr = collectFragments n (fr @ [''!''])"
| "collectFragments (AndNode []) fr = fr"
| "collectFragments (AndNode (op # ops)) fr =
     fold (\<lambda>n fr. collectFragments n (fr @ ['' && ''])) ops (collectFragments op (fr @ [''(''])) @ ['')'']"
| "collectFragments (OrNode []) fr = fr"
| "collectFragments (OrNode (op # ops)) fr =
     fold (\<lambda>n fr. collectFragments n (fr @ ['' || ''])) ops (collectFragments op (fr @ [''(''])) @ ['')'']"
| "collectFragments AllNode fr = fr @ [''all()'']"
| "collectFragments GlobalNode fr = fr @ [''global()'']"

subsection \<open>The prefix visitor\<close>

fun PrefixVisitor_Visit :: "string \<Rightarrow> Node \<Rightarrow> Node" where
  "PrefixVisitor_Visit p (LabelEqValueNode l x) = LabelEqValueNode (p @ l) x"
| "PrefixVisitor_Visit p (LabelNeValueNode l x) = LabelNeValueNode (p @ l) x"
| "PrefixVisitor_Visit p (LabelContainsValueNode l x) = LabelContainsValueNode (p @ l) x"
| "PrefixVisitor_Visit p (LabelStartsWithValueNode l x) = LabelStartsWithValueNode (p @ l) x"
| "PrefixVisitor_Visit p (LabelEndsWithValueNode l x) = LabelEndsWithValueNode (p @ l) x"
| "PrefixVisitor_Visit p (HasNode l) = HasNode (p @ l)"
| "PrefixVisitor_Visit p (LabelInSetNode l ss) = LabelInSetNode (p @ l) ss"
| "PrefixVisitor_Visit p (LabelNotInSetNode l ss) = LabelNotInSetNode (p @ l) ss"
| "PrefixVisitor_Visit p n = n"

fun AcceptVisitor :: "string \<Rightarrow> Node \<Rightarrow> Node" where
  "AcceptVisitor p (NotNode n) = NotNode (AcceptVisitor p n)"
| "AcceptVisitor p (AndNode ops) = AndNode (map (AcceptVisitor p) ops)"
| "AcceptVisitor p (OrNode ops) = OrNode (map (AcceptVisitor p) ops)"
| "AcceptVisitor p n = PrefixVisitor_Visit p n"

section \<open>Selectors\<close>

text \<open>\<open>mkID\<close> is \<^verbatim>\<open>hash.MakeUniqueID\<close>, a prefix with a digest of the string.\<close>

record Selector =
  root :: Node
  stringRep :: string
  sel_hash :: string

definition updateFields :: "(string \<Rightarrow> string \<Rightarrow> string) \<Rightarrow> Selector \<Rightarrow> Selector" where
  "updateFields mkID sel =
     (let fragments = collectFragments (root sel) []; str = concat fragments
      in sel\<lparr>stringRep := str, sel_hash := mkID ''s'' str\<rparr>)"

definition EvaluateLabels :: "Selector \<Rightarrow> labels \<Rightarrow> bool" where
  "EvaluateLabels sel ls = Evaluate (root sel) ls"

definition Selector_AcceptVisitor :: "(string \<Rightarrow> string \<Rightarrow> string) \<Rightarrow> string \<Rightarrow> Selector \<Rightarrow> Selector" where
  "Selector_AcceptVisitor mkID p sel = updateFields mkID (sel\<lparr>root := AcceptVisitor p (root sel)\<rparr>)"

definition Selector_String :: "Selector \<Rightarrow> string" where
  "Selector_String sel = stringRep sel"

definition UniqueID :: "Selector \<Rightarrow> string" where
  "UniqueID sel = sel_hash sel"

definition Selector_Equal :: "Selector option \<Rightarrow> Selector option \<Rightarrow> bool" where
  "Selector_Equal a b =
     (case (a, b) of (Some s, Some t) \<Rightarrow> sel_hash t = sel_hash s | (None, None) \<Rightarrow> True | _ \<Rightarrow> False)"

text \<open>
  The package-level cache of the restrictions computed last. It is keyed by the address of the
  selector; \<open>heap\<close> is the selector at an address.
\<close>

record restriction_cache =
  lastRestrictionSelector :: "nat option"
  lastLabelRestrictions :: restrictions

definition Selector_LabelRestrictions ::
  "(nat \<Rightarrow> Selector) \<Rightarrow> nat \<Rightarrow> restriction_cache \<Rightarrow> restrictions \<times> restriction_cache" where
  "Selector_LabelRestrictions heap p cache =
     (let cache = (if lastRestrictionSelector cache \<noteq> Some p
                   then \<lparr>lastRestrictionSelector = Some p,
                         lastLabelRestrictions = LabelRestrictions (root (heap p))\<rparr>
                   else cache)
      in (lastLabelRestrictions cache, cache))"

section \<open>String sets are sets\<close>

lemma elems_simps [simp]: "elems None = []" "elems (Some xs) = xs"
  by (simp_all add: elems_def)

lemma StringSet_Contains_in: "StringSet_Contains ss s \<Longrightarrow> s \<in> set (elems ss)"
  unfolding StringSet_Contains_def Let_def by (metis nth_mem)

lemma StringSet_Contains_iff:
  assumes "sorted (elems ss)"
  shows "StringSet_Contains ss s \<longleftrightarrow> s \<in> set (elems ss)"
proof -
  let ?xs = "elems ss" let ?f = "\<lambda>i. ?xs ! i \<ge> s"
  define idx where "idx = go_search ?f 0 (length ?xs)"
  have "\<forall>x y. 0 \<le> x \<and> x \<le> y \<and> y < length ?xs \<and> ?f x \<longrightarrow> ?f y"
    using assms by (meson order_trans sorted_nth_mono)
  from go_search_spec [OF this le0, folded idx_def]
  have idx: "idx \<le> length ?xs" "\<And>x. x < idx \<Longrightarrow> \<not> ?f x" "\<And>x. idx \<le> x \<Longrightarrow> x < length ?xs \<Longrightarrow> ?f x"
    by blast+
  show ?thesis
  proof
    assume "StringSet_Contains ss s"
    then show "s \<in> set ?xs" by (rule StringSet_Contains_in)
  next
    assume "s \<in> set ?xs"
    then obtain i where i: "i < length ?xs" "?xs ! i = s" by (auto simp: in_set_conv_nth)
    have "idx \<le> i" using idx(2) [of i] i by (auto simp: not_le [symmetric])
    then have "idx < length ?xs" "?xs ! idx \<le> s" "?xs ! idx \<ge> s"
      using i assms idx(3) [of idx] sorted_nth_mono [of ?xs idx i] by auto
    then show "StringSet_Contains ss s"
      by (simp add: StringSet_Contains_def Let_def idx_def [symmetric])
  qed
qed

lemma dedup_loop_spec:
  assumes "sorted_wrt (<) out" and "out \<noteq> []" and "sorted (last out # vs)"
  shows "sorted_wrt (<) (dedup_loop out vs) \<and> set (dedup_loop out vs) = set out \<union> set vs
    \<and> length (dedup_loop out vs) \<le> length out + length vs"
  using assms
proof (induction vs arbitrary: out)
  case (Cons v vs)
  show ?case
  proof (cases "v = last out")
    case True
    then have "v \<in> set out" using Cons.prems(2) by simp
    with True Cons.IH [of out] Cons.prems show ?thesis by auto
  next
    case False
    have le: "x \<le> last out" if "x \<in> set out" for x
      using that Cons.prems(1,2) by (cases out rule: rev_cases) (auto simp: sorted_wrt_append less_imp_le)
    have "sorted_wrt (<) (out @ [v])"
      using Cons.prems False le by (fastforce simp: sorted_wrt_append intro: le_less_trans le_neq_trans)
    with Cons.IH [of "out @ [v]"] Cons.prems False show ?thesis by auto
  qed
qed simp

lemma ConvertToStringSetInPlace_spec:
  assumes "ConvertToStringSetInPlace s = (ss, s')"
  shows "sorted_wrt (<) (elems ss)" and "set (elems ss) = set (elems s)" and "set (elems s') = set (elems s)"
proof -
  have "sorted_wrt (<) (elems ss) \<and> set (elems ss) = set (elems s) \<and> set (elems s') = set (elems s)"
  proof (cases "length (elems s) \<le> 1")
    case True
    then have "ss = s \<and> s' = s" using assms by (auto simp: ConvertToStringSetInPlace_def)
    moreover have "elems s = [] \<or> (\<exists>x. elems s = [x])"
      using True by (cases "elems s" rule: list.exhaust; cases "tl (elems s)") auto
    ultimately show ?thesis by auto
  next
    case False
    define xs where "xs = sort (elems s)"
    define out where "out = dedup_loop [hd xs] (tl xs)"
    have ss: "ss = Some out" "s' = Some (out @ drop (length out) xs)"
      using assms False by (simp_all add: ConvertToStringSetInPlace_def Let_def xs_def out_def)
    have "length xs = length (elems s)" by (simp add: xs_def)
    then have "xs \<noteq> []" using False by auto
    then have xs: "xs = hd xs # tl xs" by simp
    have "sorted xs" by (simp add: xs_def)
    then have "sorted (hd xs # tl xs)" using xs by metis
    with dedup_loop_spec [of "[hd xs]" "tl xs"]
    have "sorted_wrt (<) out" "set out = set (hd xs # tl xs)"
      by (auto simp: out_def)
    moreover have "set xs = set (elems s)" by (simp add: xs_def)
    moreover have "set (drop (length out) xs) \<subseteq> set xs" by (rule set_drop_subset)
    ultimately show ?thesis
      using xs by (auto simp: ss elems_def)
  qed
  then show "sorted_wrt (<) (elems ss)" "set (elems ss) = set (elems s)" "set (elems s') = set (elems s)"
    by simp_all
qed

lemma strict_sorted: "sorted_wrt (<) (xs :: 'a :: linorder list) \<Longrightarrow> sorted xs"
  by (rule sorted_wrt_mono_rel [of _ "(<)" "(\<le>)"]) auto

lemma converted_Contains:
  "ConvertToStringSetInPlace s = (ss, s') \<Longrightarrow> StringSet_Contains ss v \<longleftrightarrow> v \<in> set (elems s)"
  using ConvertToStringSetInPlace_spec [of s ss s'] by (simp add: StringSet_Contains_iff strict_sorted)

lemma intersect_elems:
  "set (elems (intersectStringSlicesInPlace a b)) = set (elems a) \<inter> set (elems b)"
  by (cases "ConvertToStringSetInPlace b"; cases a)
     (auto simp: intersectStringSlicesInPlace_def converted_Contains elems_def Let_def)

lemma union_elems:
  "set (elems (unionStringSlicesInPlace a b)) = set (elems a) \<union> set (elems b)"
proof -
  obtain aSet a' where c: "ConvertToStringSetInPlace a = (aSet, a')"
    by (cases "ConvertToStringSetInPlace a")
  let ?new = "filter (\<lambda>v. \<not> StringSet_Contains aSet v) (elems b)"
  have "set ?new = set (elems b) - set (elems a)"
    using converted_Contains [OF c] by auto
  moreover have "set (elems (unionStringSlicesInPlace a b)) = set (elems a') \<union> set ?new"
    by (cases "?new = []") (simp_all add: unionStringSlicesInPlace_def c)
  ultimately show ?thesis
    using ConvertToStringSetInPlace_spec(3) [OF c] by auto
qed

section \<open>Label restrictions are necessary conditions\<close>

definition satisfies :: "labels \<Rightarrow> string \<Rightarrow> LabelRestriction \<Rightarrow> bool" where
  "satisfies ls l r \<longleftrightarrow>
     (MustBePresent r \<longrightarrow> ls l \<noteq> None) \<and> (MustBeAbsent r \<longrightarrow> ls l = None)
     \<and> (MustHaveOneOfValues r \<noteq> None \<longrightarrow> (\<exists>v \<in> set (elems (MustHaveOneOfValues r)). ls l = Some v))"

definition satisfies_all :: "labels \<Rightarrow> restrictions \<Rightarrow> bool" where
  "satisfies_all ls lr \<longleftrightarrow> (\<forall>l r. lr l = Some r \<longrightarrow> satisfies ls l r)"

lemma satisfies_no_restriction [simp]: "satisfies ls l no_restriction"
  by (simp add: satisfies_def no_restriction_def)

lemma satisfies_and:
  assumes "satisfies ls l base" and "satisfies ls l r"
  shows "satisfies ls l (and_restriction base r)"
  using assms intersect_elems [of "MustHaveOneOfValues base" "MustHaveOneOfValues r"]
  by (auto simp: satisfies_def and_restriction_def)

lemma satisfies_or:
  assumes "satisfies ls l r \<or> satisfies ls l opr" and "or_restriction r opr = Some r'"
  shows "satisfies ls l r'"
  using assms union_elems [of "MustHaveOneOfValues r" "MustHaveOneOfValues opr"]
  by (auto simp: satisfies_def or_restriction_def Let_def split: if_splits)

lemma satisfies_all_fold_and:
  assumes "\<forall>m \<in> set ms. satisfies_all ls m" and "satisfies_all ls lr"
  shows "satisfies_all ls (fold and_merge ms lr)"
  using assms
proof (induction ms arbitrary: lr)
  case (Cons m ms)
  have "satisfies_all ls (and_merge m lr)"
    using Cons.prems
    by (auto simp: satisfies_all_def and_merge_def zero_default_def intro!: satisfies_and split: option.splits)
  with Cons show ?case by simp
qed simp

lemma satisfies_all_or_merge:
  assumes "satisfies_all ls lr \<or> satisfies_all ls m"
  shows "satisfies_all ls (or_merge m lr)"
  unfolding satisfies_all_def
proof (intro allI impI)
  fix l r'
  assume "or_merge m lr l = Some r'"
  then obtain r where r: "lr l = Some r" "or_restriction r (zero_default (m l)) = Some r'"
    by (auto simp: or_merge_def split: option.splits)
  have "satisfies ls l r \<or> satisfies ls l (zero_default (m l))"
    using assms r(1) by (cases "m l") (auto simp: satisfies_all_def zero_default_def)
  then show "satisfies ls l r'" using r(2) by (rule satisfies_or)
qed

lemma satisfies_all_fold_or:
  assumes "satisfies_all ls lr \<or> (\<exists>m \<in> set ms. satisfies_all ls m)"
  shows "satisfies_all ls (fold or_merge ms lr)"
  using assms
proof (induction ms arbitrary: lr)
  case (Cons m ms)
  have "satisfies_all ls (or_merge m lr)" if "satisfies_all ls lr \<or> satisfies_all ls m"
    using that by (rule satisfies_all_or_merge)
  with Cons show ?case by auto
qed simp

lemma LabelRestrictions_sound:
  "Evaluate n ls \<Longrightarrow> satisfies_all ls (LabelRestrictions n)"
proof (induction n rule: LabelRestrictions.induct)
  case (11 ops)
  then show ?case
    by (auto simp: list_all_iff satisfies_all_def [of _ Map.empty] intro!: satisfies_all_fold_and)
next
  case (13 op ops)
  from "13.prems" have "Evaluate op ls \<or> (\<exists>n \<in> set ops. Evaluate n ls)"
    by (simp add: list_ex_iff)
  with "13.IH" have "satisfies_all ls (LabelRestrictions op)
      \<or> (\<exists>m \<in> set (map LabelRestrictions ops). satisfies_all ls m)"
    by fastforce
  then show ?case by (simp add: satisfies_all_fold_or)
qed (auto simp: satisfies_all_def satisfies_def no_restriction_def elems_def SliceCopy_def
    dest: StringSet_Contains_in split: option.splits if_splits)

lemma PossibleToSatisfy_iff:
  "satisfies ls l r \<Longrightarrow> PossibleToSatisfy r"
  by (auto simp: satisfies_def PossibleToSatisfy_def)

section \<open>The prefix visitor\<close>

lemma Evaluate_AcceptVisitor:
  "Evaluate (AcceptVisitor p n) ls = Evaluate n (\<lambda>l. ls (p @ l))"
  by (induction p n rule: AcceptVisitor.induct)
     (simp_all add: list_all_iff list_ex_iff comp_def)

section \<open>The cache\<close>

definition cache_ok :: "(nat \<Rightarrow> Selector) \<Rightarrow> restriction_cache \<Rightarrow> bool" where
  "cache_ok heap cache \<longleftrightarrow>
     (\<forall>p. lastRestrictionSelector cache = Some p \<longrightarrow>
        lastLabelRestrictions cache = LabelRestrictions (root (heap p)))"

lemma Selector_LabelRestrictions_ok:
  assumes "cache_ok heap cache"
  shows "fst (Selector_LabelRestrictions heap p cache) = LabelRestrictions (root (heap p))
    \<and> cache_ok heap (snd (Selector_LabelRestrictions heap p cache))"
  using assms by (auto simp: Selector_LabelRestrictions_def cache_ok_def Let_def)

text \<open>The visitor replaces the tree but leaves the cache alone.\<close>

definition visited_heap :: "(string \<Rightarrow> string \<Rightarrow> string) \<Rightarrow> string \<Rightarrow> nat \<Rightarrow> (nat \<Rightarrow> Selector) \<Rightarrow> nat \<Rightarrow> Selector" where
  "visited_heap mkID prefix p heap = heap(p := Selector_AcceptVisitor mkID prefix (heap p))"

section \<open>What the tree promises\<close>

text \<open>C15. The label restrictions of a selector are necessary conditions: labels that match the
  selector satisfy every restriction; so when one restriction is impossible to satisfy, no labels
  match.\<close>

theorem restrictions_are_necessary:
  "(Evaluate n ls \<longrightarrow> satisfies_all ls (LabelRestrictions n))
   \<and> ((\<exists>l r. LabelRestrictions n l = Some r \<and> \<not> PossibleToSatisfy r) \<longrightarrow> \<not> Evaluate n ls)"
  using LabelRestrictions_sound [of n ls] PossibleToSatisfy_iff [of ls]
  by (auto simp: satisfies_all_def)

theorem restrictions_are_necessary_witness:
  "satisfies_all [''a'' \<mapsto> ''b''] (LabelRestrictions (LabelEqValueNode ''a'' ''b''))
   \<and> \<not> Evaluate (AndNode [HasNode ''a'', NotNode (HasNode ''a'')]) [''a'' \<mapsto> ''b'']"
proof
  show "satisfies_all [''a'' \<mapsto> ''b''] (LabelRestrictions (LabelEqValueNode ''a'' ''b''))"
    using restrictions_are_necessary [of "LabelEqValueNode ''a'' ''b''" "[''a'' \<mapsto> ''b'']"] by simp
  have "\<exists>r. LabelRestrictions (AndNode [HasNode ''a'', NotNode (HasNode ''a'')]) ''a'' = Some r \<and> \<not> PossibleToSatisfy r"
    by (simp add: and_merge_def and_restriction_def zero_default_def no_restriction_def PossibleToSatisfy_def)
  then show "\<not> Evaluate (AndNode [HasNode ''a'', NotNode (HasNode ''a'')]) [''a'' \<mapsto> ''b'']"
    using restrictions_are_necessary [of "AndNode [HasNode ''a'', NotNode (HasNode ''a'')]" "[''a'' \<mapsto> ''b'']"] by blast
qed

text \<open>C18. A string set made from any slice is strictly sorted, holds the slice's strings, and its
  binary search answers membership.\<close>

theorem string_set_membership:
  assumes "ConvertToStringSetInPlace s = (ss, s')"
  shows "sorted_wrt (<) (elems ss) \<and> (StringSet_Contains ss v \<longleftrightarrow> v \<in> set (elems s))"
  using ConvertToStringSetInPlace_spec(1) [OF assms] converted_Contains [OF assms] by simp

theorem string_set_membership_witness:
  "sorted_wrt (<) (elems (Some [''a'', ''b'']))
   \<and> (StringSet_Contains (Some [''a'', ''b'']) ''a'' \<longleftrightarrow> ''a'' \<in> set (elems (Some [''b'', ''a'', ''b''])))"
proof (rule string_set_membership)
  show "ConvertToStringSetInPlace (Some [''b'', ''a'', ''b'']) = (Some [''a'', ''b''], Some [''a'', ''b'', ''b''])"
    by code_simp
qed

text \<open>C19. Prefixing the labels of a selector: the visited selector matches labels exactly when the
  original matches the labels under the prefix, and its string and its ID are those of the new tree.\<close>

theorem prefix_visitor_evaluates:
  "EvaluateLabels (Selector_AcceptVisitor mkID p sel) ls = EvaluateLabels sel (\<lambda>l. ls (p @ l))
   \<and> Selector_String (Selector_AcceptVisitor mkID p sel) = concat (collectFragments (AcceptVisitor p (root sel)) [])
   \<and> UniqueID (Selector_AcceptVisitor mkID p sel) = mkID ''s'' (Selector_String (Selector_AcceptVisitor mkID p sel))"
  by (simp add: EvaluateLabels_def Selector_AcceptVisitor_def updateFields_def Let_def Evaluate_AcceptVisitor
      Selector_String_def UniqueID_def)

text \<open>C20. The restriction cache, as long as it holds the restrictions of the selector at its address,
  answers with the restrictions of the selector asked for, whatever the selector, and keeps that property.
  But visiting a selector in place does not reset it: asked again after its labels were prefixed, the cache
  answers with the restrictions of the old tree. For a selector \<open>has(l)\<close> and a prefix that is not empty,
  those are restrictions which labels that match the new selector do not satisfy.\<close>

theorem restriction_cache_stale:
  fixes heap :: "nat \<Rightarrow> Selector"
  assumes "cache_ok heap cache" and "(lr, cache') = Selector_LabelRestrictions heap p cache"
    and "heap' = visited_heap mkID pre p heap"
  shows "lr = LabelRestrictions (root (heap p)) \<and> cache_ok heap cache'
    \<and> fst (Selector_LabelRestrictions heap' p cache') = lr
    \<and> (\<forall>l v. root (heap p) = HasNode l \<longrightarrow> pre \<noteq> [] \<longrightarrow>
         EvaluateLabels (heap' p) [pre @ l \<mapsto> v] \<and> \<not> satisfies_all [pre @ l \<mapsto> v] lr)"
proof (intro conjI allI impI)
  show lr: "lr = LabelRestrictions (root (heap p))" "cache_ok heap cache'"
    using Selector_LabelRestrictions_ok [OF assms(1), of p] by (simp_all flip: assms(2))
  show "fst (Selector_LabelRestrictions heap' p cache') = lr"
    using assms(2) by (auto simp: Selector_LabelRestrictions_def Let_def split: if_splits)
  fix l v
  assume has: "root (heap p) = HasNode l" and pre: "pre \<noteq> []"
  have "root (heap' p) = HasNode (pre @ l)"
    using has by (simp add: assms(3) visited_heap_def Selector_AcceptVisitor_def updateFields_def Let_def)
  then show "EvaluateLabels (heap' p) [pre @ l \<mapsto> v]" by (simp add: EvaluateLabels_def)
  show "\<not> satisfies_all [pre @ l \<mapsto> v] lr"
    using pre by (simp add: lr(1) has satisfies_all_def satisfies_def no_restriction_def)
qed

definition wit_selectors :: "nat \<Rightarrow> Selector" where
  "wit_selectors p = \<lparr>root = (if p = 0 then HasNode ''a'' else AllNode), stringRep = [], sel_hash = []\<rparr>"

definition wit_cache :: restriction_cache where
  "wit_cache = \<lparr>lastRestrictionSelector = Some 1, lastLabelRestrictions = Map.empty\<rparr>"

text \<open>The witness starts with a cache that holds the restrictions of another selector: the first call fills
  it for \<open>has(a)\<close>, and the second one, after the visit, gives the same answer.\<close>

theorem restriction_cache_stale_witness:
  "cache_ok wit_selectors wit_cache
   \<and> Selector_LabelRestrictions wit_selectors 0 wit_cache
      = ([''a'' \<mapsto> no_restriction\<lparr>MustBePresent := True\<rparr>],
         \<lparr>lastRestrictionSelector = Some 0, lastLabelRestrictions = [''a'' \<mapsto> no_restriction\<lparr>MustBePresent := True\<rparr>]\<rparr>)
   \<and> fst (Selector_LabelRestrictions (visited_heap (@) ''k8s.'' 0 wit_selectors) 0 (snd (Selector_LabelRestrictions wit_selectors 0 wit_cache)))
      = [''a'' \<mapsto> no_restriction\<lparr>MustBePresent := True\<rparr>]
   \<and> EvaluateLabels (visited_heap (@) ''k8s.'' 0 wit_selectors 0) [''k8s.a'' \<mapsto> ''x'']
   \<and> \<not> satisfies_all [''k8s.a'' \<mapsto> ''x''] [''a'' \<mapsto> no_restriction\<lparr>MustBePresent := True\<rparr>]"
proof -
  have c: "cache_ok wit_selectors wit_cache" by (simp add: cache_ok_def wit_cache_def wit_selectors_def)
  have first: "Selector_LabelRestrictions wit_selectors 0 wit_cache
      = ([''a'' \<mapsto> no_restriction\<lparr>MustBePresent := True\<rparr>],
         \<lparr>lastRestrictionSelector = Some 0, lastLabelRestrictions = [''a'' \<mapsto> no_restriction\<lparr>MustBePresent := True\<rparr>]\<rparr>)"
    by (simp add: Selector_LabelRestrictions_def wit_cache_def wit_selectors_def)
  have root: "root (wit_selectors 0) = HasNode ''a''" by (simp add: wit_selectors_def)
  from restriction_cache_stale [OF c first [symmetric] refl, of "(@)" "''k8s.''"] root
  show ?thesis unfolding first using c by simp
qed

end
