(* ===== verification/Selector_Parser.thy ===== *)
theory Selector_Parser
  imports Selector_Tokenizer Selector_AST
begin

text \<open>
  The recursive-descent parser of \<^verbatim>\<open>libcalico-go/lib/selector/parser/parser.go\<close>, with
  its two modes (parse and validate). Reading past the end of the token slice is a panic; the
  recursion runs on fuel, and three units per token are enough. The lemmas show that a run on a
  token list of the tokenizer neither panics nor runs out of fuel, that it builds only
  well-formed nodes, and that the two modes accept the same inputs with the same errors.
\<close>

section \<open>Parsing\<close>

datatype parse_error =
  ErrUnexpectedEOF | ErrExpectedRParen | ErrExpectedRBrace | ErrExpectedString | ErrExpectedSetLit
| ErrExpectedOp Token | ErrUnexpectedToken Token | ErrTrailing "Token list" | TokenError token_error

type_synonym parsed = "(parse_error, Node option \<times> Token list) result run"

text \<open>The node is the nil interface when the parser only validates.\<close>

definition sel_node :: "bool \<Rightarrow> Node \<Rightarrow> Node option" where
  "sel_node validateOnly n = (if validateOnly then None else Some n)"

definition append_node :: "bool \<Rightarrow> Node list \<Rightarrow> Node option \<Rightarrow> Node list" where
  "append_node validateOnly ns sel =
     (if validateOnly then ns else case sel of Some n \<Rightarrow> ns @ [n] | None \<Rightarrow> ns)"

definition finish_nodes :: "bool \<Rightarrow> (Node list \<Rightarrow> Node) \<Rightarrow> Node list \<Rightarrow> Node option" where
  "finish_nodes validateOnly mk ns =
     (if validateOnly then None else Some (if length ns = 1 then hd ns else mk ns))"

fun strip_nots :: "bool \<Rightarrow> Token list \<Rightarrow> (bool \<times> Token list) run" where
  "strip_nots negated [] = Panic"
| "strip_nots negated (t # ts) =
     (if tokKind t = TokNot then strip_nots (\<not> negated) ts else Return (negated, t # ts))"

fun parse_values :: "string list \<Rightarrow> Token list \<Rightarrow> (string list \<times> Token list) run" where
  "parse_values vs [] = Panic"
| "parse_values vs (t # ts) =
     (if tokKind t = TokStringLiteral then
        (case ts of
           [] \<Rightarrow> Panic
         | u # us \<Rightarrow>
             if tokKind u = TokComma then parse_values (vs @ [tokValue t]) us
             else Return (vs @ [tokValue t], ts))
      else Return (vs, t # ts))"

definition parse_string_op :: "bool \<Rightarrow> (string \<Rightarrow> Node) \<Rightarrow> Token \<Rightarrow> Token list \<Rightarrow> parsed" where
  "parse_string_op validateOnly mk arg rest =
     (if tokKind arg = TokStringLiteral
      then Return (Inr (sel_node validateOnly (mk (tokValue arg)), rest))
      else Return (Inl ErrExpectedString))"

definition parse_set_op :: "bool \<Rightarrow> (StringSet \<Rightarrow> Node) \<Rightarrow> Token \<Rightarrow> Token list \<Rightarrow> parsed" where
  "parse_set_op validateOnly mk arg rest =
     (if tokKind arg = TokLBrace then
        (case parse_values [] rest of
           Return (vs, []) \<Rightarrow> Panic
         | Return (vs, b # rest) \<Rightarrow>
             if tokKind b \<noteq> TokRBrace then Return (Inl ErrExpectedRBrace)
             else (let values = (if vs = [] then None else Some vs);
                       set = fst (ConvertToStringSetInPlace values)
                   in Return (Inr (sel_node validateOnly (mk set), rest)))
         | Panic \<Rightarrow> Panic
         | NoFuel \<Rightarrow> NoFuel)
      else Return (Inl ErrExpectedSetLit))"

definition parse_label :: "bool \<Rightarrow> Token list \<Rightarrow> parsed" where
  "parse_label v tokens =
     (case tokens of
        l # op # arg # rest \<Rightarrow>
          (case tokKind op of
             TokEq \<Rightarrow> parse_string_op v (LabelEqValueNode (tokValue l)) arg rest
           | TokNe \<Rightarrow> parse_string_op v (LabelNeValueNode (tokValue l)) arg rest
           | TokContains \<Rightarrow> parse_string_op v (LabelContainsValueNode (tokValue l)) arg rest
           | TokStartsWith \<Rightarrow> parse_string_op v (LabelStartsWithValueNode (tokValue l)) arg rest
           | TokEndsWith \<Rightarrow> parse_string_op v (LabelEndsWithValueNode (tokValue l)) arg rest
           | TokIn \<Rightarrow> parse_set_op v (LabelInSetNode (tokValue l)) arg rest
           | TokNotIn \<Rightarrow> parse_set_op v (LabelNotInSetNode (tokValue l)) arg rest
           | _ \<Rightarrow> Return (Inl (ErrExpectedOp op)))
      | _ \<Rightarrow> Return (Inl ErrUnexpectedEOF))"

definition parse_simple :: "bool \<Rightarrow> Token \<Rightarrow> Token list \<Rightarrow> parsed" where
  "parse_simple v t ts =
     (case tokKind t of
        TokHas \<Rightarrow> Return (Inr (sel_node v (HasNode (tokValue t)), ts))
      | TokAll \<Rightarrow> Return (Inr (sel_node v AllNode, ts))
      | TokGlobal \<Rightarrow> Return (Inr (sel_node v GlobalNode, ts))
      | TokLabel \<Rightarrow> parse_label v (t # ts)
      | _ \<Rightarrow> Return (Inl (ErrUnexpectedToken t)))"

definition negate_sel :: "bool \<Rightarrow> bool \<Rightarrow> Node option \<times> Token list \<Rightarrow> parsed" where
  "negate_sel v negated = (\<lambda>(sel, rest).
     Return (Inr (if negated \<and> \<not> v then map_option NotNode sel else sel, rest)))"

definition close_paren :: "Node option \<times> Token list \<Rightarrow> parsed" where
  "close_paren = (\<lambda>(sel, rest).
     if length rest < 1 \<or> tokKind (hd rest) \<noteq> TokRParen then Return (Inl ErrExpectedRParen)
     else Return (Inr (sel, tl rest)))"

function parseOrExpression :: "nat \<Rightarrow> bool \<Rightarrow> Token list \<Rightarrow> parsed"
  and or_loop :: "nat \<Rightarrow> bool \<Rightarrow> Node list \<Rightarrow> Token list \<Rightarrow> parsed"
  and parseAndExpression :: "nat \<Rightarrow> bool \<Rightarrow> Token list \<Rightarrow> parsed"
  and and_loop :: "nat \<Rightarrow> bool \<Rightarrow> Node list \<Rightarrow> Token list \<Rightarrow> parsed"
  and parseOperation :: "nat \<Rightarrow> bool \<Rightarrow> Token list \<Rightarrow> parsed" where
  "parseOrExpression 0 v tokens = NoFuel"
| "parseOrExpression (Suc n) v tokens =
     and_then (parseAndExpression n v tokens) (\<lambda>(sel, rest). or_loop n v (append_node v [] sel) rest)"
| "or_loop 0 v ns rest = NoFuel"
| "or_loop (Suc n) v ns rest =
     (case rest of
        [] \<Rightarrow> Panic
      | t # ts \<Rightarrow>
          if tokKind t = TokOr
          then and_then (parseAndExpression n v ts) (\<lambda>(sel, rest). or_loop n v (append_node v ns sel) rest)
          else Return (Inr (finish_nodes v OrNode ns, rest)))"
| "parseAndExpression 0 v tokens = NoFuel"
| "parseAndExpression (Suc n) v tokens =
     and_then (parseOperation n v tokens) (\<lambda>(sel, rest). and_loop n v (append_node v [] sel) rest)"
| "and_loop 0 v ns rest = NoFuel"
| "and_loop (Suc n) v ns rest =
     (case rest of
        [] \<Rightarrow> Panic
      | t # ts \<Rightarrow>
          if tokKind t = TokAnd
          then and_then (parseOperation n v ts) (\<lambda>(sel, rest). and_loop n v (append_node v ns sel) rest)
          else Return (Inr (finish_nodes v AndNode ns, rest)))"
| "parseOperation 0 v tokens = NoFuel"
| "parseOperation (Suc n) v tokens =
     (if length tokens = 0 then Return (Inl ErrUnexpectedEOF)
      else case strip_nots False tokens of
             Return (negated, t # ts) \<Rightarrow>
               and_then
                 (if tokKind t = TokLParen then and_then (parseOrExpression n v ts) close_paren
                  else parse_simple v t ts)
                 (negate_sel v negated)
           | _ \<Rightarrow> Panic)"
  by pat_completeness auto
termination
  by (relation "measure (\<lambda>x. case x of
        Inl (Inl (n, _, _)) \<Rightarrow> n | Inl (Inr (n, _, _, _)) \<Rightarrow> n | Inr (Inl (n, _, _)) \<Rightarrow> n
      | Inr (Inr (Inl (n, _, _, _))) \<Rightarrow> n | Inr (Inr (Inr (n, _, _))) \<Rightarrow> n)") auto

definition parse_fuel :: "Token list \<Rightarrow> nat" where
  "parse_fuel tokens = 3 * length tokens + 3"

definition parseRoot :: "string \<Rightarrow> bool \<Rightarrow> (parse_error, Node option) result run" where
  "parseRoot selector validateOnly =
     (case AppendTokens [] selector of
        Inl e \<Rightarrow> Return (Inl (TokenError e))
      | Inr [] \<Rightarrow> Panic
      | Inr (t # ts) \<Rightarrow>
          if tokKind t = TokEOF then Return (Inr (sel_node validateOnly AllNode))
          else and_then (parseOrExpression (parse_fuel (t # ts)) validateOnly (t # ts))
                 (\<lambda>(node, rest). if length rest \<noteq> 1 then Return (Inl (ErrTrailing rest))
                                 else Return (Inr node)))"

definition Parse :: "(string \<Rightarrow> string \<Rightarrow> string) \<Rightarrow> string \<Rightarrow> (parse_error, Selector) result run" where
  "Parse mkID selector =
     and_then (parseRoot selector False)
       (\<lambda>node. case node of
          Some n \<Rightarrow> Return (Inr (updateFields mkID \<lparr>root = n, stringRep = [], sel_hash = []\<rparr>))
        | None \<Rightarrow> Panic)"

definition Validate :: "string \<Rightarrow> parse_error option run" where
  "Validate selector =
     (case parseRoot selector True of
        Return (Inl e) \<Rightarrow> Return (Some e)
      | Return (Inr _) \<Rightarrow> Return None
      | Panic \<Rightarrow> Panic
      | NoFuel \<Rightarrow> NoFuel)"

section \<open>The two modes agree\<close>

definition erase :: "parsed \<Rightarrow> parsed" where
  "erase r = (case r of Return (Inr (sel, rest)) \<Rightarrow> Return (Inr (None, rest)) | _ \<Rightarrow> r)"

lemma erase_simps [simp]:
  "erase (Return (Inr (sel, rest))) = Return (Inr (None, rest))" "erase (Return (Inl e)) = Return (Inl e)"
  "erase Panic = Panic" "erase NoFuel = NoFuel"
  by (simp_all add: erase_def)

lemma erase_and_then:
  assumes "\<And>sel rest. g (None, rest) = erase (f (sel, rest))"
  shows "and_then (erase r) g = erase (and_then r f)"
  using assms by (cases r) (auto simp: erase_def and_then_def split: sum.splits)

lemma erase_parse_string_op: "parse_string_op True mk a rest = erase (parse_string_op False mk a rest)"
  by (simp add: parse_string_op_def sel_node_def)

lemma erase_parse_set_op: "parse_set_op True mk a rest = erase (parse_set_op False mk a rest)"
  by (auto simp: parse_set_op_def sel_node_def Let_def split: run.split prod.split list.split)

lemma erase_parse_simple: "parse_simple True t ts = erase (parse_simple False t ts)"
proof -
  have "parse_label True tokens = erase (parse_label False tokens)" for tokens
    unfolding parse_label_def erase_parse_string_op erase_parse_set_op
    by (simp split: list.split Kind.split)
  then show ?thesis
    by (simp add: parse_simple_def sel_node_def split: Kind.split)
qed

lemma parse_modes:
  "parseOrExpression n True tokens = erase (parseOrExpression n False tokens)
   \<and> or_loop n True ms tokens = erase (or_loop n False ns tokens)
   \<and> parseAndExpression n True tokens = erase (parseAndExpression n False tokens)
   \<and> and_loop n True ms tokens = erase (and_loop n False ns tokens)
   \<and> parseOperation n True tokens = erase (parseOperation n False tokens)"
proof (induction n arbitrary: tokens ms ns)
  case (Suc n)
  have or: "parseOrExpression n True ts = erase (parseOrExpression n False ts)"
    and ol: "or_loop n True ls ts = erase (or_loop n False ks ts)"
    and an: "parseAndExpression n True ts = erase (parseAndExpression n False ts)"
    and al: "and_loop n True ls ts = erase (and_loop n False ks ts)"
    and op: "parseOperation n True ts = erase (parseOperation n False ts)" for ts ls ks
    using Suc.IH by blast+
  have then_or: "and_then (parseAndExpression n True ts) (\<lambda>(sel, rest). or_loop n True (append_node True ls sel) rest)
      = erase (and_then (parseAndExpression n False ts) (\<lambda>(sel, rest). or_loop n False (append_node False ks sel) rest))"
    for ts ls ks
    unfolding an by (rule erase_and_then) (simp add: ol)
  have then_and: "and_then (parseOperation n True ts) (\<lambda>(sel, rest). and_loop n True (append_node True ls sel) rest)
      = erase (and_then (parseOperation n False ts) (\<lambda>(sel, rest). and_loop n False (append_node False ks sel) rest))"
    for ts ls ks
    unfolding op by (rule erase_and_then) (simp add: al)
  have paren: "and_then (parseOrExpression n True ts) close_paren
      = erase (and_then (parseOrExpression n False ts) close_paren)" for ts
    unfolding or by (rule erase_and_then) (simp add: close_paren_def)
  have neg: "and_then (erase r) (negate_sel True b) = erase (and_then r (negate_sel False b))" for r b
    by (rule erase_and_then) (simp add: negate_sel_def)
  have "parseOperation (Suc n) True tokens = erase (parseOperation (Suc n) False tokens)"
    by (cases "strip_nots False tokens")
       (auto simp: paren erase_parse_simple neg split: list.split)
  moreover have "or_loop (Suc n) True ms tokens = erase (or_loop (Suc n) False ns tokens)"
    "and_loop (Suc n) True ms tokens = erase (and_loop (Suc n) False ns tokens)"
    by (cases tokens; simp add: then_or then_and finish_nodes_def)+
  ultimately show ?case
    using then_or [of tokens "append_node True [] None" "[]"] then_and [of tokens "append_node True [] None" "[]"]
    by (simp add: append_node_def then_or [unfolded append_node_def] then_and [unfolded append_node_def])
qed simp

lemma parseRoot_modes:
  "parseRoot s True =
     (case parseRoot s False of Return (Inr _) \<Rightarrow> Return (Inr None) | r \<Rightarrow> r)"
proof -
  have "and_then (parseOrExpression n True ts) (\<lambda>(node, rest). if length rest \<noteq> 1 then Return (Inl (ErrTrailing rest))
        else Return (Inr node))
      = (case and_then (parseOrExpression n False ts) (\<lambda>(node, rest). if length rest \<noteq> 1
           then Return (Inl (ErrTrailing rest)) else Return (Inr node)) of
         Return (Inr _) \<Rightarrow> Return (Inr None) | r \<Rightarrow> r)" for n ts
    using parse_modes [of n ts]
    by (cases "parseOrExpression n False ts") (auto simp: erase_def and_then_def split: sum.splits)
  then show ?thesis
    by (simp add: parseRoot_def sel_node_def split: sum.split list.split)
qed

section \<open>A run on the tokenizer's output returns\<close>

definition set_ok :: "StringSet \<Rightarrow> bool" where
  "set_ok ss \<longleftrightarrow> ss \<noteq> Some [] \<and> sorted_wrt (<) (elems ss) \<and> (\<forall>v \<in> set (elems ss). value_ok v)"

fun node_ok :: "Node \<Rightarrow> bool" where
  "node_ok (LabelEqValueNode l x) = (label_ok l \<and> value_ok x)"
| "node_ok (LabelNeValueNode l x) = (label_ok l \<and> value_ok x)"
| "node_ok (LabelContainsValueNode l x) = (label_ok l \<and> value_ok x)"
| "node_ok (LabelStartsWithValueNode l x) = (label_ok l \<and> value_ok x)"
| "node_ok (LabelEndsWithValueNode l x) = (label_ok l \<and> value_ok x)"
| "node_ok (LabelInSetNode l ss) = (label_ok l \<and> set_ok ss)"
| "node_ok (LabelNotInSetNode l ss) = (label_ok l \<and> set_ok ss)"
| "node_ok (HasNode l) = label_ok l"
| "node_ok (NotNode n) = node_ok n"
| "node_ok (AndNode ops) = (2 \<le> length ops \<and> list_all node_ok ops)"
| "node_ok (OrNode ops) = (2 \<le> length ops \<and> list_all node_ok ops)"
| "node_ok AllNode = True"
| "node_ok GlobalNode = True"

text \<open>A token list as the tokenizer makes it.\<close>

fun tokens_ok :: "Token list \<Rightarrow> bool" where
  "tokens_ok [] = False"
| "tokens_ok [t] = (t = tok TokEOF)"
| "tokens_ok (t # ts) = (token_ok t \<and> tokens_ok ts)"

lemma tokens_ok_Cons:
  "tokens_ok (t # ts) \<longleftrightarrow> (if ts = [] then t = tok TokEOF else token_ok t \<and> tokens_ok ts)"
  by (cases ts) simp_all

lemma tokens_ok_append: "\<forall>t \<in> set ts. token_ok t \<Longrightarrow> tokens_ok (ts @ [tok TokEOF])"
  by (induction ts) (simp_all add: tokens_ok_Cons)

lemma tokens_ok_not_eof:
  assumes "tokens_ok (t # ts)" and "tokKind t \<noteq> TokEOF"
  shows "token_ok t" and "tokens_ok ts"
  using assms by (auto simp: tokens_ok_Cons split: if_splits)

text \<open>
  What a parsing function owes its caller on the tokens \<open>tokens\<close>: it returns; with a node, the
  remaining tokens are fewer and still end in the end-of-input token, and the node is well formed
  (and nil exactly when the parser only validates).
\<close>

definition sel_ok :: "bool \<Rightarrow> Node option \<Rightarrow> bool" where
  "sel_ok v sel \<longleftrightarrow> (if v then sel = None else \<exists>n. sel = Some n \<and> node_ok n)"

definition parsed_ok :: "bool \<Rightarrow> nat \<Rightarrow> parsed \<Rightarrow> bool" where
  "parsed_ok v len r \<longleftrightarrow>
     (case r of
        Return (Inr (sel, rest)) \<Rightarrow> sel_ok v sel \<and> tokens_ok rest \<and> length rest < len
      | Return (Inl _) \<Rightarrow> True
      | _ \<Rightarrow> False)"

lemma parsed_ok_simps [simp]:
  "parsed_ok v len (Return (Inl e))" "\<not> parsed_ok v len Panic" "\<not> parsed_ok v len NoFuel"
  "parsed_ok v len (Return (Inr (sel, rest))) \<longleftrightarrow> sel_ok v sel \<and> tokens_ok rest \<and> length rest < len"
  by (simp_all add: parsed_ok_def)

lemma parsed_ok_and_then:
  assumes "parsed_ok v len r"
    and "\<And>sel rest. sel_ok v sel \<Longrightarrow> tokens_ok rest \<Longrightarrow> length rest < len \<Longrightarrow> parsed_ok v' len' (f (sel, rest))"
  shows "parsed_ok v' len' (and_then r f)"
  using assms by (cases r) (auto simp: parsed_ok_def and_then_def split: sum.splits)

lemma parsed_ok_mono: "parsed_ok v len r \<Longrightarrow> len \<le> len' \<Longrightarrow> parsed_ok v len' r"
  by (auto simp: parsed_ok_def split: run.splits sum.splits)

lemma sel_ok_node [simp]: "sel_ok v (sel_node v n) \<longleftrightarrow> v \<or> node_ok n"
  by (simp add: sel_ok_def sel_node_def)

lemma strip_nots_ok:
  assumes "tokens_ok tokens"
  shows "\<exists>b t ts. strip_nots neg tokens = Return (b, t # ts) \<and> tokens_ok (t # ts)
    \<and> length (t # ts) \<le> length tokens"
  using assms
proof (induction neg tokens rule: strip_nots.induct)
  case (2 negated t ts)
  show ?case
  proof (cases "tokKind t = TokNot")
    case True
    then have "tokens_ok ts" using tokens_ok_not_eof [OF "2.prems"] by simp
    from "2.IH" [OF True this] True show ?thesis by auto
  next
    case False
    with "2.prems" show ?thesis by simp
  qed
qed simp

lemma parse_values_ok:
  assumes "tokens_ok tokens" and "\<forall>v \<in> set vs. value_ok v"
  shows "\<exists>ws b rest. parse_values vs tokens = Return (ws, b # rest) \<and> tokens_ok (b # rest)
    \<and> length (b # rest) \<le> length tokens \<and> (\<forall>v \<in> set ws. value_ok v)"
  using assms
proof (induction vs tokens rule: parse_values.induct)
  case (2 vs t ts)
  show ?case
  proof (cases "tokKind t = TokStringLiteral")
    case True
    then have ts: "token_ok t" "tokens_ok ts" using tokens_ok_not_eof [OF "2.prems"(1)] by simp_all
    then have v: "value_ok (tokValue t)" using True by (cases t) simp
    obtain u us where u: "ts = u # us" using ts(2) by (cases ts) simp_all
    show ?thesis
    proof (cases "tokKind u = TokComma")
      case comma: True
      then have "tokens_ok us" using tokens_ok_not_eof [of u us] ts(2) u by simp
      with "2.IH" [OF True u comma] v "2.prems"(2) True u comma show ?thesis by fastforce
    next
      case False
      with True u ts v "2.prems"(2) show ?thesis by auto
    qed
  qed (use "2.prems" in auto)
qed simp

lemma parse_string_op_ok:
  assumes "tokens_ok (arg # rest)" and "\<And>x. value_ok x \<Longrightarrow> node_ok (mk x)"
  shows "parsed_ok v (length (arg # rest)) (parse_string_op v mk arg rest)"
proof (cases "tokKind arg = TokStringLiteral")
  case True
  then have "token_ok arg" "tokens_ok rest" using tokens_ok_not_eof [OF assms(1)] by simp_all
  moreover from this(1) True have "value_ok (tokValue arg)" by (cases arg) simp
  ultimately show ?thesis using True assms(2) by (simp add: parse_string_op_def)
qed (simp add: parse_string_op_def)

lemma converted_set_ok:
  assumes "\<forall>v \<in> set vs. value_ok v"
  shows "set_ok (fst (ConvertToStringSetInPlace (if vs = [] then None else Some vs)))"
proof -
  let ?s = "if vs = [] then None else Some vs"
  obtain ss s' where c: "ConvertToStringSetInPlace ?s = (ss, s')"
    by (cases "ConvertToStringSetInPlace ?s")
  note spec = ConvertToStringSetInPlace_spec [OF c]
  have "elems ?s = vs" by simp
  with spec(2) have "set (elems ss) = set vs" by simp
  moreover have "ss \<noteq> Some []"
  proof (cases "vs = []")
    case True
    then show ?thesis using c by (auto simp: ConvertToStringSetInPlace_def)
  next
    case False
    with \<open>set (elems ss) = set vs\<close> show ?thesis by auto
  qed
  ultimately show ?thesis using spec(1) assms by (simp add: c set_ok_def)
qed

lemma parse_set_op_ok:
  assumes "tokens_ok (arg # rest)" and "\<And>ss. set_ok ss \<Longrightarrow> node_ok (mk ss)"
  shows "parsed_ok v (length (arg # rest)) (parse_set_op v mk arg rest)"
proof (cases "tokKind arg = TokLBrace")
  case True
  then have "tokens_ok rest" using tokens_ok_not_eof [OF assms(1)] by simp
  then obtain ws b r where ws: "parse_values [] rest = Return (ws, b # r)" "tokens_ok (b # r)"
      "length (b # r) \<le> length rest" "\<forall>v \<in> set ws. value_ok v"
    using parse_values_ok [of rest "[]"] by auto
  show ?thesis
  proof (cases "tokKind b = TokRBrace")
    case brace: True
    then have "tokens_ok r" using tokens_ok_not_eof [OF ws(2)] by simp
    with True brace ws converted_set_ok [OF ws(4)] assms(2) show ?thesis
      by (simp add: parse_set_op_def Let_def)
  qed (simp add: parse_set_op_def True ws(1))
qed (simp add: parse_set_op_def)

lemma parse_simple_ok:
  assumes "tokens_ok (t # ts)"
  shows "parsed_ok v (length (t # ts)) (parse_simple v t ts)"
proof -
  have leaf: "token_ok t" "tokens_ok ts" if "tokKind t \<noteq> TokEOF"
    using tokens_ok_not_eof [OF assms that] by simp_all
  have lab: "label_ok (tokValue t)" if "tokKind t = TokHas \<or> tokKind t = TokLabel"
    using leaf(1) that by (cases t) auto
  have "parsed_ok v (length (t # ts)) (parse_label v (t # ts))" if label: "tokKind t = TokLabel"
  proof (cases ts)
    case (Cons op ts')
    show ?thesis
    proof (cases ts')
      case (Cons arg rest)
      have op: "tokens_ok (op # arg # rest)" using leaf(2) label \<open>ts = op # ts'\<close> Cons by simp
      have arg: "tokens_ok (arg # rest)" if "tokKind op \<noteq> TokEOF"
        using tokens_ok_not_eof(2) [OF op that] .
      have str: "parsed_ok v (length (t # ts)) (parse_string_op v mk arg rest)"
        if "tokKind op \<noteq> TokEOF" "\<And>x. value_ok x \<Longrightarrow> node_ok (mk x)" for mk
        by (rule parsed_ok_mono [OF parse_string_op_ok [OF arg [OF that(1)] that(2)]])
           (simp_all add: \<open>ts = op # ts'\<close> Cons)
      have set: "parsed_ok v (length (t # ts)) (parse_set_op v mk arg rest)"
        if "tokKind op \<noteq> TokEOF" "\<And>ss. set_ok ss \<Longrightarrow> node_ok (mk ss)" for mk
        by (rule parsed_ok_mono [OF parse_set_op_ok [OF arg [OF that(1)] that(2)]])
           (simp_all add: \<open>ts = op # ts'\<close> Cons)
      show ?thesis
        using lab label str set
        by (cases "tokKind op") (simp_all add: parse_label_def \<open>ts = op # ts'\<close> Cons)
    qed (simp add: parse_label_def \<open>ts = op # ts'\<close>)
  qed (simp add: parse_label_def)
  then show ?thesis
    using leaf lab by (cases "tokKind t") (simp_all add: parse_simple_def)
qed

definition nodes_ok :: "bool \<Rightarrow> Node list \<Rightarrow> bool" where
  "nodes_ok v ns \<longleftrightarrow> v \<or> ns \<noteq> [] \<and> list_all node_ok ns"

lemma nodes_ok_append:
  "sel_ok v sel \<Longrightarrow> nodes_ok v (append_node v [] sel)"
  "nodes_ok v ns \<Longrightarrow> sel_ok v sel \<Longrightarrow> nodes_ok v (append_node v ns sel)"
  by (auto simp: nodes_ok_def append_node_def sel_ok_def)

lemma finish_nodes_ok:
  assumes "nodes_ok v ns" and "mk = AndNode \<or> mk = OrNode"
  shows "sel_ok v (finish_nodes v mk ns)"
proof (cases v)
  case False
  then have ns: "0 < length ns" "list_all node_ok ns" using assms(1) by (simp_all add: nodes_ok_def)
  then have "node_ok (hd ns)" by (cases ns) simp_all
  moreover have "node_ok (mk ns)" if "length ns \<noteq> 1"
  proof -
    have "2 \<le> length ns" using ns(1) that by linarith
    with ns(2) assms(2) show ?thesis by auto
  qed
  ultimately show ?thesis using False by (simp add: sel_ok_def finish_nodes_def)
qed (simp add: sel_ok_def finish_nodes_def)

lemma close_paren_ok:
  assumes "sel_ok v sel" and "tokens_ok rest" and "length rest < len"
  shows "parsed_ok v len (close_paren (sel, rest))"
proof (cases rest)
  case (Cons t ts)
  show ?thesis
  proof (cases "tokKind t = TokRParen")
    case True
    then have "tokens_ok ts" using tokens_ok_not_eof [of t ts] assms(2) Cons by simp
    with True assms Cons show ?thesis by (simp add: close_paren_def)
  qed (simp add: close_paren_def Cons)
qed (use assms in simp)

lemma negate_sel_ok:
  assumes "sel_ok v sel" and "tokens_ok rest" and "length rest < len"
  shows "parsed_ok v len (negate_sel v b (sel, rest))"
  using assms by (auto simp: negate_sel_def sel_ok_def)

text \<open>All five functions are fine on \<open>n\<close> units of fuel, where that is enough for the tokens; and
  one more unit keeps that.\<close>

definition level_ok :: "bool \<Rightarrow> nat \<Rightarrow> bool" where
  "level_ok v n \<longleftrightarrow> (\<forall>ts ns. tokens_ok ts \<longrightarrow>
     (3 * length ts + 3 \<le> n \<longrightarrow> parsed_ok v (length ts) (parseOrExpression n v ts))
     \<and> (3 * length ts + 1 \<le> n \<longrightarrow> nodes_ok v ns \<longrightarrow> parsed_ok v (Suc (length ts)) (or_loop n v ns ts))
     \<and> (3 * length ts + 2 \<le> n \<longrightarrow> parsed_ok v (length ts) (parseAndExpression n v ts))
     \<and> (3 * length ts + 1 \<le> n \<longrightarrow> nodes_ok v ns \<longrightarrow> parsed_ok v (Suc (length ts)) (and_loop n v ns ts))
     \<and> (3 * length ts + 1 \<le> n \<longrightarrow> parsed_ok v (length ts) (parseOperation n v ts)))"

lemma level_okD:
  assumes "level_ok v n" and "tokens_ok ts"
  shows "3 * length ts + 3 \<le> n \<Longrightarrow> parsed_ok v (length ts) (parseOrExpression n v ts)"
    and "3 * length ts + 1 \<le> n \<Longrightarrow> nodes_ok v ns \<Longrightarrow> parsed_ok v (Suc (length ts)) (or_loop n v ns ts)"
    and "3 * length ts + 2 \<le> n \<Longrightarrow> parsed_ok v (length ts) (parseAndExpression n v ts)"
    and "3 * length ts + 1 \<le> n \<Longrightarrow> nodes_ok v ns \<Longrightarrow> parsed_ok v (Suc (length ts)) (and_loop n v ns ts)"
    and "3 * length ts + 1 \<le> n \<Longrightarrow> parsed_ok v (length ts) (parseOperation n v ts)"
  using assms unfolding level_ok_def by blast+

lemma then_or_loop_ok:
  assumes lev: "level_ok v n" and ts: "tokens_ok ts" and n: "3 * length ts + 2 \<le> n"
    and ns: "\<And>sel. sel_ok v sel \<Longrightarrow> nodes_ok v (append_node v ns sel)"
  shows "parsed_ok v (length ts)
    (and_then (parseAndExpression n v ts) (\<lambda>(sel, rest). or_loop n v (append_node v ns sel) rest))"
proof (rule parsed_ok_and_then [OF level_okD(3) [OF lev ts n]])
  fix sel rest
  assume *: "sel_ok v sel" "tokens_ok rest" "length rest < length ts"
  have "3 * length rest + 1 \<le> n" using *(3) n by simp
  from parsed_ok_mono [OF level_okD(2) [OF lev *(2) this ns [OF *(1)]], of "length ts"] *(3)
  show "parsed_ok v (length ts) (case (sel, rest) of (sel, rest) \<Rightarrow> or_loop n v (append_node v ns sel) rest)"
    by simp
qed

lemma then_and_loop_ok:
  assumes lev: "level_ok v n" and ts: "tokens_ok ts" and n: "3 * length ts + 1 \<le> n"
    and ns: "\<And>sel. sel_ok v sel \<Longrightarrow> nodes_ok v (append_node v ns sel)"
  shows "parsed_ok v (length ts)
    (and_then (parseOperation n v ts) (\<lambda>(sel, rest). and_loop n v (append_node v ns sel) rest))"
proof (rule parsed_ok_and_then [OF level_okD(5) [OF lev ts n]])
  fix sel rest
  assume *: "sel_ok v sel" "tokens_ok rest" "length rest < length ts"
  have "3 * length rest + 1 \<le> n" using *(3) n by simp
  from parsed_ok_mono [OF level_okD(4) [OF lev *(2) this ns [OF *(1)]], of "length ts"] *(3)
  show "parsed_ok v (length ts) (case (sel, rest) of (sel, rest) \<Rightarrow> and_loop n v (append_node v ns sel) rest)"
    by simp
qed

lemma or_loop_ok:
  assumes lev: "level_ok v n" and "tokens_ok ts" and "3 * length ts + 1 \<le> Suc n" and "nodes_ok v ns"
  shows "parsed_ok v (Suc (length ts)) (or_loop (Suc n) v ns ts)"
proof (cases ts)
  case (Cons t us)
  show ?thesis
  proof (cases "tokKind t = TokOr")
    case True
    then have "tokens_ok us" using tokens_ok_not_eof [of t us] assms(2) Cons by simp
    from then_or_loop_ok [OF lev this _ nodes_ok_append(2) [OF assms(4)]] assms(3) True Cons show ?thesis
      by (auto intro: parsed_ok_mono)
  qed (use assms finish_nodes_ok [of v ns OrNode] Cons in simp)
qed (use assms in simp)

lemma and_loop_ok:
  assumes lev: "level_ok v n" and "tokens_ok ts" and "3 * length ts + 1 \<le> Suc n" and "nodes_ok v ns"
  shows "parsed_ok v (Suc (length ts)) (and_loop (Suc n) v ns ts)"
proof (cases ts)
  case (Cons t us)
  show ?thesis
  proof (cases "tokKind t = TokAnd")
    case True
    then have "tokens_ok us" using tokens_ok_not_eof [of t us] assms(2) Cons by simp
    from then_and_loop_ok [OF lev this _ nodes_ok_append(2) [OF assms(4)]] assms(3) True Cons show ?thesis
      by (auto intro: parsed_ok_mono)
  qed (use assms finish_nodes_ok [of v ns AndNode] Cons in simp)
qed (use assms in simp)

lemma parseOperation_ok:
  assumes lev: "level_ok v n" and ts: "tokens_ok ts" and n: "3 * length ts + 1 \<le> Suc n"
  shows "parsed_ok v (length ts) (parseOperation (Suc n) v ts)"
proof -
  obtain b t us where strip: "strip_nots False ts = Return (b, t # us)" and us: "tokens_ok (t # us)"
    and len: "length (t # us) \<le> length ts"
    using strip_nots_ok [OF ts] by blast
  have "parsed_ok v (length (t # us))
      (if tokKind t = TokLParen then and_then (parseOrExpression n v us) close_paren else parse_simple v t us)"
  proof (cases "tokKind t = TokLParen")
    case True
    then have "tokens_ok us" using tokens_ok_not_eof [OF us] by simp
    moreover have "3 * length us + 3 \<le> n" using len n by simp
    ultimately have "parsed_ok v (length us) (parseOrExpression n v us)"
      by (rule level_okD(1) [OF lev])
    then have "parsed_ok v (length (t # us)) (and_then (parseOrExpression n v us) close_paren)"
      by (rule parsed_ok_and_then) (rule close_paren_ok, auto)
    then show ?thesis using True by simp
  qed (use parse_simple_ok [OF us] in simp)
  then have "parsed_ok v (length (t # us)) (and_then
      (if tokKind t = TokLParen then and_then (parseOrExpression n v us) close_paren else parse_simple v t us)
      (negate_sel v b))"
    by (rule parsed_ok_and_then) (rule negate_sel_ok)
  then show ?thesis
    using ts strip len by (auto intro: parsed_ok_mono)
qed

lemma level_ok: "level_ok v n"
proof (induction n)
  case (Suc n)
  note lev = Suc.IH
  show ?case
    unfolding level_ok_def
  proof (intro allI impI conjI)
    fix ts ns
    assume ts: "tokens_ok ts"
    show "parsed_ok v (length ts) (parseOrExpression (Suc n) v ts)" if "3 * length ts + 3 \<le> Suc n"
      using then_or_loop_ok [OF lev ts _ nodes_ok_append(1)] that by simp
    show "parsed_ok v (length ts) (parseAndExpression (Suc n) v ts)" if "3 * length ts + 2 \<le> Suc n"
      using then_and_loop_ok [OF lev ts _ nodes_ok_append(1)] that by simp
    show "parsed_ok v (length ts) (parseOperation (Suc n) v ts)" if "3 * length ts + 1 \<le> Suc n"
      using parseOperation_ok [OF lev ts that] .
    show "parsed_ok v (Suc (length ts)) (or_loop (Suc n) v ns ts)"
      if "3 * length ts + 1 \<le> Suc n" "nodes_ok v ns"
      using or_loop_ok [OF lev ts that] .
    show "parsed_ok v (Suc (length ts)) (and_loop (Suc n) v ns ts)"
      if "3 * length ts + 1 \<le> Suc n" "nodes_ok v ns"
      using and_loop_ok [OF lev ts that] .
  qed
qed (simp add: level_ok_def)

text \<open>Every input is parsed or rejected, in either mode.\<close>

lemma parseRoot_returns:
  "\<exists>r. parseRoot s v = Return r \<and> (\<forall>sel. r = Inr sel \<longrightarrow> sel_ok v sel)"
proof (cases "AppendTokens [] s")
  case (Inl e)
  then show ?thesis by (simp add: parseRoot_def)
next
  case (Inr tokens)
  then obtain ts where ts: "tokens = ts @ [tok TokEOF]" "\<forall>t \<in> set ts. token_ok t"
    using AppendTokens_Inr [OF Inr] by auto
  have ok: "tokens_ok tokens" using tokens_ok_append [OF ts(2)] ts(1) by simp
  obtain t us where t: "tokens = t # us" using ok by (cases tokens) simp_all
  have "parsed_ok v (length tokens) (parseOrExpression (parse_fuel tokens) v tokens)"
    by (rule level_okD(1) [OF level_ok ok]) (simp add: parse_fuel_def)
  then show ?thesis
    using Inr t
    by (cases "parseOrExpression (parse_fuel tokens) v tokens")
       (auto simp: parseRoot_def parsed_ok_def and_then_def sel_ok_def sel_node_def split: sum.splits)
qed

section \<open>The parser as a whole\<close>

text \<open>C13. Parsing terminates without a panic on every string; a selector it returns is well formed:
  its labels have at most 512 identifier bytes, its values can be quoted, its sets are strictly
  sorted and every conjunction and disjunction has at least two operands.\<close>

theorem parse_returns:
  "\<exists>r. Parse mkID s = Return r \<and> (\<forall>sel. r = Inr sel \<longrightarrow> node_ok (root sel))"
proof -
  obtain r where r: "parseRoot s False = Return r" "\<forall>sel. r = Inr sel \<longrightarrow> sel_ok False sel"
    using parseRoot_returns by blast
  then show ?thesis
    by (cases r) (auto simp: Parse_def sel_ok_def updateFields_def Let_def split: option.split)
qed

theorem parse_returns_witness:
  "\<exists>r. Parse (@) ''has(a) && b in {'c', 'a'}'' = Return r \<and> (\<forall>sel. r = Inr sel \<longrightarrow> node_ok (root sel))"
  by (rule parse_returns)

text \<open>C14. Validating a string reports exactly the error that parsing it reports.\<close>

theorem validate_agrees_with_parse:
  "\<exists>e. Validate s = Return e
     \<and> (case e of None \<Rightarrow> (\<exists>sel. Parse mkID s = Return (Inr sel)) | Some err \<Rightarrow> Parse mkID s = Return (Inl err))"
proof -
  obtain r where r: "parseRoot s False = Return r" "\<forall>sel. r = Inr sel \<longrightarrow> sel_ok False sel"
    using parseRoot_returns by blast
  then show ?thesis
    by (cases r) (auto simp: Validate_def Parse_def parseRoot_modes sel_ok_def split: option.split)
qed

end
