(* ===== verification/Selector_RoundTrip.thy ===== *)
theory Selector_RoundTrip
  imports Selector_Parser
begin

text \<open>
  Printing a selector and parsing the text again. The printed form of a well-formed node is
  parsed to the same node with pairs of adjacent negations removed, which evaluates alike; so the
  string form, and with it the unique ID that is a digest of it, identifies a selector up to
  evaluation.
\<close>

section \<open>The tokens of a node\<close>

fun value_tokens :: "string list \<Rightarrow> Token list" where
  "value_tokens [] = []"
| "value_tokens [v] = [Token TokStringLiteral v]"
| "value_tokens (v # vs) = Token TokStringLiteral v # tok TokComma # value_tokens vs"

fun node_tokens :: "Node \<Rightarrow> Token list" where
  "node_tokens (LabelEqValueNode l x) = [Token TokLabel l, tok TokEq, Token TokStringLiteral x]"
| "node_tokens (LabelNeValueNode l x) = [Token TokLabel l, tok TokNe, Token TokStringLiteral x]"
| "node_tokens (LabelContainsValueNode l x) = [Token TokLabel l, tok TokContains, Token TokStringLiteral x]"
| "node_tokens (LabelStartsWithValueNode l x) = [Token TokLabel l, tok TokStartsWith, Token TokStringLiteral x]"
| "node_tokens (LabelEndsWithValueNode l x) = [Token TokLabel l, tok TokEndsWith, Token TokStringLiteral x]"
| "node_tokens (LabelInSetNode l ss) =
     [Token TokLabel l, tok TokIn, tok TokLBrace] @ value_tokens (elems ss) @ [tok TokRBrace]"
| "node_tokens (LabelNotInSetNode l ss) =
     [Token TokLabel l, tok TokNotIn, tok TokLBrace] @ value_tokens (elems ss) @ [tok TokRBrace]"
| "node_tokens (HasNode l) = [Token TokHas l]"
| "node_tokens (NotNode n) = tok TokNot # node_tokens n"
| "node_tokens (AndNode []) = []"
| "node_tokens (AndNode (op # ops)) =
     tok TokLParen # node_tokens op @ concat (map (\<lambda>n. tok TokAnd # node_tokens n) ops) @ [tok TokRParen]"
| "node_tokens (OrNode []) = []"
| "node_tokens (OrNode (op # ops)) =
     tok TokLParen # node_tokens op @ concat (map (\<lambda>n. tok TokOr # node_tokens n) ops) @ [tok TokRParen]"
| "node_tokens AllNode = [tok TokAll]"
| "node_tokens GlobalNode = [tok TokGlobal]"

section \<open>The text of a node\<close>

definition node_string :: "Node \<Rightarrow> string" where
  "node_string n = concat (collectFragments n [])"

fun values_string :: "string list \<Rightarrow> string" where
  "values_string [] = []"
| "values_string [v] = quote_for v @ v @ quote_for v"
| "values_string (v # vs) = quote_for v @ v @ quote_for v @ '', '' @ values_string vs"

lemma in_op_values_append: "in_op_values first (xs @ ys) vs = xs @ in_op_values first ys vs"
  by (induction vs arbitrary: first ys) (simp_all add: Let_def)

lemma concat_in_op_values:
  "concat (in_op_values first fr vs)
   = concat fr @ (if vs = [] \<or> first then [] else '', '') @ values_string vs"
proof (induction vs arbitrary: first fr)
  case (Cons v vs)
  have "concat (in_op_values first fr (v # vs))
      = concat (in_op_values False (fr @ (if first then [] else ['', '']) @ [quote_for v, v, quote_for v]) vs)"
    by (simp add: Let_def)
  also have "\<dots> = concat fr @ (if first then [] else '', '') @ quote_for v @ v @ quote_for v
      @ (if vs = [] then [] else '', '') @ values_string vs"
    by (simp add: Cons.IH)
  finally show ?case by (cases vs) simp_all
qed simp

lemma fold_fragments_append:
  assumes "\<And>n xs ys. n \<in> set ns \<Longrightarrow> collectFragments n (xs @ ys) = xs @ collectFragments n ys"
  shows "fold (\<lambda>n fr. collectFragments n (fr @ [s])) ns (xs @ ys)
    = xs @ fold (\<lambda>n fr. collectFragments n (fr @ [s])) ns ys"
  using assms by (induction ns arbitrary: ys) simp_all

lemma collectFragments_append: "collectFragments n (xs @ ys) = xs @ collectFragments n ys"
proof (induction n arbitrary: xs ys)
  case (AndNode ops)
  then show ?case by (cases ops) (simp_all add: fold_fragments_append)
next
  case (OrNode ops)
  then show ?case by (cases ops) (simp_all add: fold_fragments_append)
qed (simp_all add: appendLabelOpAndQuotedString_def collectInOpFragments_def in_op_values_append)

lemma concat_collectFragments: "concat (collectFragments n fr) = concat fr @ node_string n"
  using collectFragments_append [of n fr "[]"] by (simp add: node_string_def)

lemma concat_fold_fragments:
  "concat (fold (\<lambda>n fr. collectFragments n (fr @ [s])) ns fr)
   = concat fr @ concat (map (\<lambda>n. s @ node_string n) ns)"
  by (induction ns arbitrary: fr) (simp_all add: concat_collectFragments)

lemma node_string_simps:
  "node_string (LabelEqValueNode l x) = l @ '' == '' @ quote_for x @ x @ quote_for x"
  "node_string (LabelNeValueNode l x) = l @ '' != '' @ quote_for x @ x @ quote_for x"
  "node_string (LabelContainsValueNode l x) = l @ '' contains '' @ quote_for x @ x @ quote_for x"
  "node_string (LabelStartsWithValueNode l x) = l @ '' starts with '' @ quote_for x @ x @ quote_for x"
  "node_string (LabelEndsWithValueNode l x) = l @ '' ends with '' @ quote_for x @ x @ quote_for x"
  "node_string (LabelInSetNode l ss) = l @ '' in {'' @ values_string (elems ss) @ ''}''"
  "node_string (LabelNotInSetNode l ss) = l @ '' not in {'' @ values_string (elems ss) @ ''}''"
  "node_string (HasNode l) = ''has('' @ l @ '')''"
  "node_string (NotNode n) = ''!'' @ node_string n"
  "node_string (AndNode (op # ops)) =
     ''('' @ node_string op @ concat (map (\<lambda>n. '' && '' @ node_string n) ops) @ '')''"
  "node_string (OrNode (op # ops)) =
     ''('' @ node_string op @ concat (map (\<lambda>n. '' || '' @ node_string n) ops) @ '')''"
  "node_string AllNode = ''all()''" "node_string GlobalNode = ''global()''"
  unfolding node_string_def [of "LabelEqValueNode l x"]
    node_string_def [of "LabelNeValueNode l x"]
    node_string_def [of "LabelContainsValueNode l x"]
    node_string_def [of "LabelStartsWithValueNode l x"]
    node_string_def [of "LabelEndsWithValueNode l x"]
    node_string_def [of "LabelInSetNode l ss"]
    node_string_def [of "LabelNotInSetNode l ss"]
    node_string_def [of "HasNode l"]
    node_string_def [of "NotNode n"]
    node_string_def [of "AndNode (op # ops)"]
    node_string_def [of "OrNode (op # ops)"]
    node_string_def [of "AllNode"]
    node_string_def [of "GlobalNode"]
  by (simp_all add: concat_collectFragments concat_fold_fragments concat_in_op_values
      appendLabelOpAndQuotedString_def collectInOpFragments_def)

section \<open>Tokenizing the text of a node\<close>

definition not_label :: "Token list \<Rightarrow> bool" where
  "not_label toks \<longleftrightarrow> (\<forall>v. last_token toks \<noteq> Some (Token TokLabel v))"

lemma not_label_append [simp]: "not_label (toks @ [t]) \<longleftrightarrow> tokKind t \<noteq> TokLabel"
  by (cases t) (auto simp: not_label_def last_token_def)

lemma trimWhitespace_idem [simp]: "trimWhitespace (trimWhitespace s) = trimWhitespace s"
  by (simp add: trimWhitespace_def)

lemma trimWhitespace_Cons [simp]:
  "trimWhitespace (c # s) = (if c = CHR '' '' \<or> c = CHR 0x09 then trimWhitespace s else c # s)"
  by (simp add: trimWhitespace_def)

lemma AppendTokens_trim [simp]: "AppendTokens toks (trimWhitespace s) = AppendTokens toks s"
  by (subst (1 2) AppendTokens_step) simp

lemma AppendTokens_space [simp]: "AppendTokens toks (CHR '' '' # s) = AppendTokens toks s"
  using AppendTokens_trim [of toks "CHR '' '' # s"] by (simp del: AppendTokens_trim) simp

lemma AppendTokens_token:
  "next_token (last_token toks) (c # s) = Inr (t, r) \<Longrightarrow> c \<noteq> CHR '' '' \<Longrightarrow> c \<noteq> CHR 0x09 \<Longrightarrow>
   AppendTokens toks (c # s) = AppendTokens (toks @ [t]) r"
  by (subst AppendTokens_step) simp

lemma AppendTokens_punctuation [simp]:
  "AppendTokens toks (CHR ''('' # s) = AppendTokens (toks @ [tok TokLParen]) s"
  "AppendTokens toks (CHR '')'' # s) = AppendTokens (toks @ [tok TokRParen]) s"
  "AppendTokens toks (CHR ''{'' # s) = AppendTokens (toks @ [tok TokLBrace]) s"
  "AppendTokens toks (CHR ''}'' # s) = AppendTokens (toks @ [tok TokRBrace]) s"
  "AppendTokens toks (CHR '','' # s) = AppendTokens (toks @ [tok TokComma]) s"
  "AppendTokens toks (CHR ''='' # CHR ''='' # s) = AppendTokens (toks @ [tok TokEq]) s"
  "AppendTokens toks (CHR ''!'' # CHR ''='' # s) = AppendTokens (toks @ [tok TokNe]) s"
  "AppendTokens toks (CHR ''&'' # CHR ''&'' # s) = AppendTokens (toks @ [tok TokAnd]) s"
  "AppendTokens toks (CHR ''|'' # CHR ''|'' # s) = AppendTokens (toks @ [tok TokOr]) s"
  by (rule AppendTokens_token; simp add: next_token_def cut_double_def go_cut_prefix_def)+

lemma AppendTokens_not:
  "s = [] \<or> hd s \<noteq> CHR ''='' \<Longrightarrow> AppendTokens toks (CHR ''!'' # s) = AppendTokens (toks @ [tok TokNot]) s"
  by (rule AppendTokens_token; cases s; simp add: next_token_def go_cut_prefix_def)

lemma AppendTokens_literal:
  assumes "value_ok x"
  shows "AppendTokens toks (quote_for x @ x @ quote_for x @ s) = AppendTokens (toks @ [Token TokStringLiteral x]) s"
proof -
  obtain q where q: "quote_for x = [q]" "q = CHR 0x22 \<or> q = CHR 0x27" "q \<notin> set x"
    using assms by (cases "CHR 0x22 \<in> set x") (auto simp: quote_for_def value_ok_def go_contains_char)
  have "cut_string q (x @ q # s) = Inr (Token TokStringLiteral x, s)"
    using q(3) by (simp add: cut_string_def go_index_char_append)
  with q show ?thesis by (auto intro!: AppendTokens_token simp: next_token_def)
qed

text \<open>A label followed by something other than an opening parenthesis is not read as a call.\<close>

lemma label_not_call:
  assumes "\<forall>c \<in> set l. identifierChar c" and "\<not> identifierChar c" and "c \<noteq> CHR ''(''" and "\<forall>d \<in> set w. identifierChar d"
  shows "\<not> go_has_prefix (l @ c # r) (w @ ''('')"
proof
  assume "go_has_prefix (l @ c # r) (w @ ''('')"
  then obtain u where u: "l @ c # r = w @ CHR ''('' # u" by (auto simp: go_has_prefix_iff)
  have paren: "\<not> identifierChar (CHR ''('')" by (simp add: identifierChar_def)
  have "dropWhile identifierChar (l @ c # r) = c # r" using assms(1,2) by simp
  moreover have "dropWhile identifierChar (w @ CHR ''('' # u) = CHR ''('' # u" using assms(4) paren by simp
  ultimately show False using u assms(3) by simp
qed

lemma AppendTokens_label:
  assumes "not_label toks" and "label_ok l" and "\<not> identifierChar c" and "c \<noteq> CHR ''(''"
  shows "AppendTokens toks (l @ c # r) = AppendTokens (toks @ [Token TokLabel l]) (c # r)"
proof -
  obtain b l' where l: "l = b # l'" using assms(2) by (cases l) (simp_all add: label_ok_def)
  have ident: "\<forall>c \<in> set l. identifierChar c" using assms(2) by (simp add: label_ok_def)
  then have "identifierChar b" using l by simp
  then have b: "b \<notin> set ''(){},=!&| ''" "b \<noteq> CHR 0x22" "b \<noteq> CHR 0x27" "b \<noteq> CHR 0x09"
    by (auto simp: identifierChar_def)
  have call: "\<not> go_has_prefix (l @ c # r) ''has(''" "\<not> go_has_prefix (l @ c # r) ''all(''"
    "\<not> go_has_prefix (l @ c # r) ''global(''"
    using label_not_call [OF ident assms(3,4), of "''has''"] label_not_call [OF ident assms(3,4), of "''all''"]
      label_not_call [OF ident assms(3,4), of "''global''"]
    by (simp_all add: identifierChar_def)
  have "cut_word (l @ c # r) = Inr (Token TokLabel l, c # r)"
    using cutIdentifier_append [OF assms(2), of "c # r"] assms(3) call
    by (simp add: cut_word_def go_cut_prefix_def isWordBoundary_def)
  then have "next_token (last_token toks) (b # l' @ c # r) = Inr (Token TokLabel l, c # r)"
    using assms(1) b unfolding l
    by (auto simp: next_token_def Let_def not_label_def split: option.split Token.split Kind.split)
  from AppendTokens_token [OF this] b show ?thesis by (simp add: l)
qed

text \<open>The operators that are words.\<close>

lemma AppendTokens_operator:
  assumes "\<not> identifierChar c" and "c \<noteq> CHR '' ''" and "c \<noteq> CHR 0x09" and "toks = toks' @ [Token TokLabel l]"
  shows "AppendTokens toks (''contains '' @ c # s) = AppendTokens (toks @ [tok TokContains]) (c # s)"
    "AppendTokens toks (''starts with '' @ c # s) = AppendTokens (toks @ [tok TokStartsWith]) (c # s)"
    "AppendTokens toks (''ends with '' @ c # s) = AppendTokens (toks @ [tok TokEndsWith]) (c # s)"
    "AppendTokens toks (''not in '' @ c # s) = AppendTokens (toks @ [tok TokNotIn]) (c # s)"
    "AppendTokens toks (''in '' @ c # s) = AppendTokens (toks @ [tok TokIn]) (c # s)"
proof -
  have last: "last_token toks = Some (Token TokLabel l)" using assms(4) by (simp add: last_token_def)
  have boundary: "isWordBoundary (c # s)" using assms(1) by (simp add: isWordBoundary_def)
  have space: "isWordBoundary (CHR '' '' # t)" for t by (simp add: isWordBoundary_def identifierChar_def)
  note cut = next_token_def cut_operator_def cutPrefixCheckBreak_def cutMultiWordPrefixCheckBreak_def
    go_cut_prefix_def last boundary space assms(2,3)
  show "AppendTokens toks (''contains '' @ c # s) = AppendTokens (toks @ [tok TokContains]) (c # s)"
    using AppendTokens_token [of toks "CHR ''c''" "''ontains '' @ c # s"] by (simp add: cut)
  show "AppendTokens toks (''starts with '' @ c # s) = AppendTokens (toks @ [tok TokStartsWith]) (c # s)"
    using AppendTokens_token [of toks "CHR ''s''" "''tarts with '' @ c # s"] by (simp add: cut)
  show "AppendTokens toks (''ends with '' @ c # s) = AppendTokens (toks @ [tok TokEndsWith]) (c # s)"
    using AppendTokens_token [of toks "CHR ''e''" "''nds with '' @ c # s"] by (simp add: cut)
  show "AppendTokens toks (''not in '' @ c # s) = AppendTokens (toks @ [tok TokNotIn]) (c # s)"
    using AppendTokens_token [of toks "CHR ''n''" "''ot in '' @ c # s"] by (simp add: cut)
  show "AppendTokens toks (''in '' @ c # s) = AppendTokens (toks @ [tok TokIn]) (c # s)"
    using AppendTokens_token [of toks "CHR ''i''" "''n '' @ c # s"] by (simp add: cut)
qed

lemma AppendTokens_call:
  assumes "not_label toks"
  shows "label_ok l \<Longrightarrow> AppendTokens toks (''has('' @ l @ '')'' @ s) = AppendTokens (toks @ [Token TokHas l]) s"
    and "AppendTokens toks (''all()'' @ s) = AppendTokens (toks @ [tok TokAll]) s"
    and "AppendTokens toks (''global()'' @ s) = AppendTokens (toks @ [tok TokGlobal]) s"
proof -
  have last: "(case last_token toks of Some (Token TokLabel label) \<Rightarrow> cut_operator label i | _ \<Rightarrow> cut_word i)
      = cut_word i" for i
    using assms by (auto simp: not_label_def split: option.split Token.split Kind.split)
  note cut = next_token_def cut_word_def cut_close_def go_cut_prefix_def last Let_def
  {
    assume l: "label_ok l"
    then have "trimWhitespace (l @ CHR '')'' # s) = l @ CHR '')'' # s"
      by (cases l) (auto simp: label_ok_def identifierChar_def)
    moreover have "cutIdentifier (l @ CHR '')'' # s) = Inr (l, CHR '')'' # s)"
      by (rule cutIdentifier_append [OF l]) (simp add: isWordBoundary_def identifierChar_def)
    ultimately show "AppendTokens toks (''has('' @ l @ '')'' @ s) = AppendTokens (toks @ [Token TokHas l]) s"
      using AppendTokens_token [of toks "CHR ''h''" "''as('' @ l @ '')'' @ s"] by (simp add: cut)
  }
  show "AppendTokens toks (''all()'' @ s) = AppendTokens (toks @ [tok TokAll]) s"
    using AppendTokens_token [of toks "CHR ''a''" "''ll()'' @ s"] by (simp add: cut)
  show "AppendTokens toks (''global()'' @ s) = AppendTokens (toks @ [tok TokGlobal]) s"
    using AppendTokens_token [of toks "CHR ''g''" "''lobal()'' @ s"] by (simp add: cut)
qed

lemma quote_for_cases: obtains q where "quote_for x = [q]" "q = CHR 0x22 \<or> q = CHR 0x27"
  by (cases "go_contains x [CHR 0x22]") (auto simp: quote_for_def)

lemma AppendTokens_comparison:
  assumes "not_label toks" and "label_ok l" and "value_ok x"
  shows "AppendTokens toks (l @ '' == '' @ quote_for x @ x @ quote_for x @ s)
      = AppendTokens (toks @ [Token TokLabel l, tok TokEq, Token TokStringLiteral x]) s"
    and "AppendTokens toks (l @ '' != '' @ quote_for x @ x @ quote_for x @ s)
      = AppendTokens (toks @ [Token TokLabel l, tok TokNe, Token TokStringLiteral x]) s"
    and "AppendTokens toks (l @ '' contains '' @ quote_for x @ x @ quote_for x @ s)
      = AppendTokens (toks @ [Token TokLabel l, tok TokContains, Token TokStringLiteral x]) s"
    and "AppendTokens toks (l @ '' starts with '' @ quote_for x @ x @ quote_for x @ s)
      = AppendTokens (toks @ [Token TokLabel l, tok TokStartsWith, Token TokStringLiteral x]) s"
    and "AppendTokens toks (l @ '' ends with '' @ quote_for x @ x @ quote_for x @ s)
      = AppendTokens (toks @ [Token TokLabel l, tok TokEndsWith, Token TokStringLiteral x]) s"
proof -
  have space: "AppendTokens toks (l @ CHR '' '' # r) = AppendTokens (toks @ [Token TokLabel l]) r" for r
    using AppendTokens_label [OF assms(1,2), of "CHR '' ''" r] by (simp add: identifierChar_def)
  obtain q where q: "quote_for x = [q]" "q = CHR 0x22 \<or> q = CHR 0x27" by (rule quote_for_cases)
  then have c: "\<not> identifierChar q" "q \<noteq> CHR '' ''" "q \<noteq> CHR 0x09" by (auto simp: identifierChar_def)
  note lit = AppendTokens_literal [OF assms(3), unfolded q(1), simplified]
  note ops = AppendTokens_operator [OF c refl, simplified]
  show "AppendTokens toks (l @ '' == '' @ quote_for x @ x @ quote_for x @ s)
      = AppendTokens (toks @ [Token TokLabel l, tok TokEq, Token TokStringLiteral x]) s"
    by (simp add: space q(1) lit)
  show "AppendTokens toks (l @ '' != '' @ quote_for x @ x @ quote_for x @ s)
      = AppendTokens (toks @ [Token TokLabel l, tok TokNe, Token TokStringLiteral x]) s"
    by (simp add: space q(1) lit)
  show "AppendTokens toks (l @ '' contains '' @ quote_for x @ x @ quote_for x @ s)
      = AppendTokens (toks @ [Token TokLabel l, tok TokContains, Token TokStringLiteral x]) s"
    by (simp add: space q(1) ops lit)
  show "AppendTokens toks (l @ '' starts with '' @ quote_for x @ x @ quote_for x @ s)
      = AppendTokens (toks @ [Token TokLabel l, tok TokStartsWith, Token TokStringLiteral x]) s"
    by (simp add: space q(1) ops lit)
  show "AppendTokens toks (l @ '' ends with '' @ quote_for x @ x @ quote_for x @ s)
      = AppendTokens (toks @ [Token TokLabel l, tok TokEndsWith, Token TokStringLiteral x]) s"
    by (simp add: space q(1) ops lit)
qed

lemma AppendTokens_values:
  "\<forall>v \<in> set vs. value_ok v \<Longrightarrow>
   AppendTokens toks (values_string vs @ s) = AppendTokens (toks @ value_tokens vs) s"
  by (induction vs arbitrary: toks rule: values_string.induct) (simp_all add: AppendTokens_literal)

lemma AppendTokens_set:
  assumes "not_label toks" and "label_ok l" and "\<forall>v \<in> set vs. value_ok v"
  shows "AppendTokens toks (l @ '' in {'' @ values_string vs @ ''}'' @ s)
      = AppendTokens (toks @ [Token TokLabel l, tok TokIn, tok TokLBrace] @ value_tokens vs @ [tok TokRBrace]) s"
    and "AppendTokens toks (l @ '' not in {'' @ values_string vs @ ''}'' @ s)
      = AppendTokens (toks @ [Token TokLabel l, tok TokNotIn, tok TokLBrace] @ value_tokens vs @ [tok TokRBrace]) s"
proof -
  have space: "AppendTokens toks (l @ CHR '' '' # r) = AppendTokens (toks @ [Token TokLabel l]) r" for r
    using AppendTokens_label [OF assms(1,2), of "CHR '' ''" r] by (simp add: identifierChar_def)
  have "\<not> identifierChar (CHR ''{'')" by (simp add: identifierChar_def)
  from AppendTokens_operator [OF this _ _ refl, of toks l, simplified]
  show "AppendTokens toks (l @ '' in {'' @ values_string vs @ ''}'' @ s)
      = AppendTokens (toks @ [Token TokLabel l, tok TokIn, tok TokLBrace] @ value_tokens vs @ [tok TokRBrace]) s"
    and "AppendTokens toks (l @ '' not in {'' @ values_string vs @ ''}'' @ s)
      = AppendTokens (toks @ [Token TokLabel l, tok TokNotIn, tok TokLBrace] @ value_tokens vs @ [tok TokRBrace]) s"
    by (simp_all add: space AppendTokens_values [OF assms(3)])
qed

lemma label_first: "label_ok l \<Longrightarrow> l \<noteq> [] \<and> hd l \<noteq> CHR ''=''"
  by (cases l) (auto simp: label_ok_def identifierChar_def)

lemma node_string_first:
  "node_ok n \<Longrightarrow> node_string n \<noteq> [] \<and> hd (node_string n) \<noteq> CHR ''=''"
proof (induction n)
  case (AndNode ops)
  then show ?case by (cases ops) (simp_all add: node_string_simps)
next
  case (OrNode ops)
  then show ?case by (cases ops) (simp_all add: node_string_simps)
qed (simp_all add: node_string_simps label_first)

lemma AppendTokens_nodes:
  assumes "\<And>n toks s. n \<in> set ns \<Longrightarrow> node_ok n \<Longrightarrow> not_label toks \<Longrightarrow>
      AppendTokens toks (node_string n @ s) = AppendTokens (toks @ node_tokens n) s"
    and "\<And>toks s. AppendTokens toks (sep @ s) = AppendTokens (toks @ [t]) s" and "tokKind t \<noteq> TokLabel"
    and "list_all node_ok ns"
  shows "AppendTokens toks (concat (map (\<lambda>n. sep @ node_string n) ns) @ s)
    = AppendTokens (toks @ concat (map (\<lambda>n. t # node_tokens n) ns)) s"
  using assms
proof (induction ns arbitrary: toks)
  case (Cons n ns)
  have "AppendTokens toks (concat (map (\<lambda>n. sep @ node_string n) (n # ns)) @ s)
      = AppendTokens (toks @ [t]) (node_string n @ concat (map (\<lambda>n. sep @ node_string n) ns) @ s)"
    using Cons.prems(2) by simp
  also have "\<dots> = AppendTokens ((toks @ [t]) @ node_tokens n) (concat (map (\<lambda>n. sep @ node_string n) ns) @ s)"
    using Cons.prems(1,3,4) by simp
  also have "\<dots> = AppendTokens (((toks @ [t]) @ node_tokens n) @ concat (map (\<lambda>n. t # node_tokens n) ns)) s"
    using Cons.prems by (intro Cons.IH) simp_all
  finally show ?case by simp
qed simp

lemma AppendTokens_node:
  "node_ok n \<Longrightarrow> not_label toks \<Longrightarrow> AppendTokens toks (node_string n @ s) = AppendTokens (toks @ node_tokens n) s"
proof (induction n arbitrary: toks s)
  case (NotNode n)
  then have "AppendTokens toks (CHR ''!'' # node_string n @ s)
      = AppendTokens (toks @ [tok TokNot]) (node_string n @ s)"
    using node_string_first [of n] by (intro AppendTokens_not) simp
  with NotNode show ?case by (simp add: node_string_simps)
next
  case (AndNode ops)
  then obtain op ns where ops: "ops = op # ns" by (cases ops) simp_all
  show ?case
    using AndNode AppendTokens_nodes [of ns "'' && ''" "tok TokAnd"]
    by (simp add: ops node_string_simps)
next
  case (OrNode ops)
  then obtain op ns where ops: "ops = op # ns" by (cases ops) simp_all
  show ?case
    using OrNode AppendTokens_nodes [of ns "'' || ''" "tok TokOr"]
    by (simp add: ops node_string_simps)
qed (simp_all add: node_string_simps AppendTokens_comparison [simplified] AppendTokens_set [simplified]
    AppendTokens_call [simplified] set_ok_def)

section \<open>Parsing the tokens of a node\<close>

text \<open>The parser counts negations, so a node comes back without pairs of adjacent ones;
  \<open>collapse_neg neg n\<close> is what is read for \<open>n\<close> under a negation (\<open>neg\<close>) or not.\<close>

fun collapse_neg :: "bool \<Rightarrow> Node \<Rightarrow> Node" where
  "collapse_neg neg (NotNode n) = collapse_neg (\<not> neg) n"
| "collapse_neg neg (AndNode ops) =
     (let n = AndNode (map (collapse_neg False) ops) in if neg then NotNode n else n)"
| "collapse_neg neg (OrNode ops) =
     (let n = OrNode (map (collapse_neg False) ops) in if neg then NotNode n else n)"
| "collapse_neg neg n = (if neg then NotNode n else n)"

lemma Evaluate_collapse: "Evaluate (collapse_neg neg n) ls \<longleftrightarrow> neg \<noteq> Evaluate n ls"
  by (induction neg n rule: collapse_neg.induct) (auto simp: Let_def list_all_iff list_ex_iff)

text \<open>The part of \<open>parseOperation\<close> after its first check.\<close>

definition operation_body :: "nat \<Rightarrow> bool \<Rightarrow> Token list \<Rightarrow> parsed" where
  "operation_body n neg tokens =
     (case strip_nots neg tokens of
        Return (negated, t # ts) \<Rightarrow>
          and_then
            (if tokKind t = TokLParen then and_then (parseOrExpression n False ts) close_paren
             else parse_simple False t ts)
            (negate_sel False negated)
      | _ \<Rightarrow> Panic)"

lemma parseOperation_body:
  "tokens \<noteq> [] \<Longrightarrow> parseOperation (Suc n) False tokens = operation_body n False tokens"
  by (simp add: operation_body_def)

lemma operation_body_not [simp]: "operation_body n neg (tok TokNot # ts) = operation_body n (\<not> neg) ts"
  by (simp add: operation_body_def)

lemma operation_body_simple:
  assumes "parse_simple False t ts = Return (Inr (Some m, rest))"
    and "tokKind t \<noteq> TokNot" and "tokKind t \<noteq> TokLParen"
  shows "operation_body n neg (t # ts) = Return (Inr (Some (if neg then NotNode m else m), rest))"
  using assms by (simp add: operation_body_def negate_sel_def and_then_simps)

lemma operation_body_paren:
  assumes "parseOrExpression n False ts = Return (Inr (Some m, tok TokRParen # rest))"
  shows "operation_body n neg (tok TokLParen # ts) = Return (Inr (Some (if neg then NotNode m else m), rest))"
  using assms by (simp add: operation_body_def negate_sel_def close_paren_def and_then_simps)

lemma parse_values_tokens:
  "parse_values us (value_tokens vs @ tok TokRBrace # rest) = Return (us @ vs, tok TokRBrace # rest)"
  by (induction vs arbitrary: us rule: value_tokens.induct) simp_all

lemma convert_set_ok:
  assumes "set_ok ss"
  shows "fst (ConvertToStringSetInPlace (if elems ss = [] then None else Some (elems ss))) = ss"
proof -
  obtain ss' s' where c: "ConvertToStringSetInPlace ss = (ss', s')" by (cases "ConvertToStringSetInPlace ss")
  have ss: "(if elems ss = [] then None else Some (elems ss)) = ss"
    using assms by (cases ss) (auto simp: set_ok_def)
  have "elems ss' = elems ss"
    using ConvertToStringSetInPlace_spec(1,2) [OF c] assms by (auto simp: set_ok_def intro: strict_sorted_equal)
  moreover have "ss' = ss" if "length (elems ss) \<le> 1"
    using c that by (simp add: ConvertToStringSetInPlace_def)
  moreover have "ss' \<noteq> None" if "\<not> length (elems ss) \<le> 1"
    using c that by (auto simp: ConvertToStringSetInPlace_def Let_def)
  ultimately show ?thesis
    unfolding ss c by (cases ss; cases ss'; fastforce)
qed

lemma parse_set_tokens:
  assumes "set_ok ss"
  shows "parse_set_op False mk (tok TokLBrace) (value_tokens (elems ss) @ tok TokRBrace # rest)
    = Return (Inr (Some (mk ss), rest))"
  using convert_set_ok [OF assms]
  by (simp add: parse_set_op_def parse_values_tokens sel_node_def Let_def)

lemma node_tokens_first: "node_ok n \<Longrightarrow> node_tokens n \<noteq> [] \<and> tokKind (hd (node_tokens n)) \<noteq> TokEOF"
proof (induction n)
  case (AndNode ops)
  then show ?case by (cases ops) simp_all
next
  case (OrNode ops)
  then show ?case by (cases ops) simp_all
qed simp_all

text \<open>The node is read from its tokens, with three units of fuel per token.\<close>

definition reads :: "Node \<Rightarrow> bool" where
  "reads m \<longleftrightarrow> node_tokens m \<noteq> [] \<and>
     (\<forall>k neg t ts. 3 * length (node_tokens m) \<le> k \<longrightarrow>
        operation_body k neg (node_tokens m @ t # ts) = Return (Inr (Some (collapse_neg neg m), t # ts)))"

lemma parseOperation_reads:
  assumes "reads m" and "3 * length (node_tokens m) + 1 \<le> k"
  shows "parseOperation k False (node_tokens m @ t # ts) = Return (Inr (Some (collapse_neg False m), t # ts))"
  using assms by (cases k) (simp_all add: parseOperation_body reads_def del: parseOperation.simps)

lemma and_loop_reads:
  assumes "\<forall>m \<in> set ns. reads m" and "tokKind t \<noteq> TokAnd"
    and "3 * length (concat (map (\<lambda>m. tok TokAnd # node_tokens m) ns)) + 1 \<le> k"
  shows "and_loop k False ms (concat (map (\<lambda>m. tok TokAnd # node_tokens m) ns) @ t # ts)
    = Return (Inr (finish_nodes False AndNode (ms @ map (collapse_neg False) ns), t # ts))"
  using assms
proof (induction ns arbitrary: k ms)
  case Nil
  then show ?case by (cases k) simp_all
next
  case (Cons m ns)
  then obtain j where k: "k = Suc j" by (cases k) simp_all
  obtain u us where u: "concat (map (\<lambda>m. tok TokAnd # node_tokens m) ns) @ t # ts = u # us"
    by (cases ns) simp_all
  have "parseOperation j False (node_tokens m @ u # us) = Return (Inr (Some (collapse_neg False m), u # us))"
    using Cons.prems k by (intro parseOperation_reads) simp_all
  moreover have "and_loop j False (ms @ [collapse_neg False m]) (u # us)
      = Return (Inr (finish_nodes False AndNode ((ms @ [collapse_neg False m]) @ map (collapse_neg False) ns), t # ts))"
    using Cons.prems k u by (subst u [symmetric], intro Cons.IH) simp_all
  ultimately show ?case by (simp add: k u append_node_def)
qed

lemma parseAndExpression_reads:
  assumes "\<forall>m \<in> set (op # ns). reads m" and "tokKind t \<noteq> TokAnd"
    and "3 * length (node_tokens op @ concat (map (\<lambda>m. tok TokAnd # node_tokens m) ns)) + 2 \<le> k"
  shows "parseAndExpression k False (node_tokens op @ concat (map (\<lambda>m. tok TokAnd # node_tokens m) ns) @ t # ts)
    = Return (Inr (finish_nodes False AndNode (map (collapse_neg False) (op # ns)), t # ts))"
proof -
  obtain j where k: "k = Suc j" using assms(3) by (cases k) simp_all
  obtain u us where u: "concat (map (\<lambda>m. tok TokAnd # node_tokens m) ns) @ t # ts = u # us"
    by (cases ns) simp_all
  have "parseOperation j False (node_tokens op @ u # us) = Return (Inr (Some (collapse_neg False op), u # us))"
    using assms k by (intro parseOperation_reads) simp_all
  moreover have "and_loop j False [collapse_neg False op] (u # us)
      = Return (Inr (finish_nodes False AndNode ([collapse_neg False op] @ map (collapse_neg False) ns), t # ts))"
    using assms k u by (subst u [symmetric], intro and_loop_reads) simp_all
  ultimately show ?thesis by (simp add: k u append_node_def)
qed

lemma or_loop_reads:
  assumes "\<forall>m \<in> set ns. reads m" and "tokKind t \<noteq> TokAnd" and "tokKind t \<noteq> TokOr"
    and "3 * length (concat (map (\<lambda>m. tok TokOr # node_tokens m) ns)) + 1 \<le> k"
  shows "or_loop k False ms (concat (map (\<lambda>m. tok TokOr # node_tokens m) ns) @ t # ts)
    = Return (Inr (finish_nodes False OrNode (ms @ map (collapse_neg False) ns), t # ts))"
  using assms
proof (induction ns arbitrary: k ms)
  case Nil
  then show ?case by (cases k) simp_all
next
  case (Cons m ns)
  then obtain j where k: "k = Suc j" by (cases k) simp_all
  obtain u us where u: "concat (map (\<lambda>m. tok TokOr # node_tokens m) ns) @ t # ts = u # us" "tokKind u \<noteq> TokAnd"
    using Cons.prems(2) by (cases ns) simp_all
  have "parseAndExpression j False (node_tokens m @ u # us) = Return (Inr (Some (collapse_neg False m), u # us))"
    using Cons.prems k u parseAndExpression_reads [of m "[]" u j us] by (simp add: finish_nodes_def)
  moreover have "or_loop j False (ms @ [collapse_neg False m]) (u # us)
      = Return (Inr (finish_nodes False OrNode ((ms @ [collapse_neg False m]) @ map (collapse_neg False) ns), t # ts))"
    using Cons.prems k by (subst u(1) [symmetric], intro Cons.IH) simp_all
  ultimately show ?case by (simp add: k u append_node_def)
qed

lemma parseOrExpression_or:
  assumes "\<forall>m \<in> set (op # ns). reads m" and "tokKind t \<noteq> TokAnd" and "tokKind t \<noteq> TokOr"
    and "3 * length (node_tokens op @ concat (map (\<lambda>m. tok TokOr # node_tokens m) ns)) + 3 \<le> k"
  shows "parseOrExpression k False (node_tokens op @ concat (map (\<lambda>m. tok TokOr # node_tokens m) ns) @ t # ts)
    = Return (Inr (finish_nodes False OrNode (map (collapse_neg False) (op # ns)), t # ts))"
proof -
  obtain j where k: "k = Suc j" using assms(4) by (cases k) simp_all
  obtain u us where u: "concat (map (\<lambda>m. tok TokOr # node_tokens m) ns) @ t # ts = u # us" "tokKind u \<noteq> TokAnd"
    using assms(2) by (cases ns) simp_all
  have "parseAndExpression j False (node_tokens op @ u # us) = Return (Inr (Some (collapse_neg False op), u # us))"
    using assms k u parseAndExpression_reads [of op "[]" u j us] by (simp add: finish_nodes_def)
  moreover have "or_loop j False [collapse_neg False op] (u # us)
      = Return (Inr (finish_nodes False OrNode ([collapse_neg False op] @ map (collapse_neg False) ns), t # ts))"
    using assms k by (subst u(1) [symmetric], intro or_loop_reads) simp_all
  ultimately show ?thesis by (simp add: k u append_node_def)
qed

lemma parseOrExpression_and:
  assumes "\<forall>m \<in> set (op # ns). reads m" and "tokKind t \<noteq> TokAnd" and "tokKind t \<noteq> TokOr"
    and "3 * length (node_tokens op @ concat (map (\<lambda>m. tok TokAnd # node_tokens m) ns)) + 3 \<le> k"
  shows "parseOrExpression k False (node_tokens op @ concat (map (\<lambda>m. tok TokAnd # node_tokens m) ns) @ t # ts)
    = Return (Inr (finish_nodes False AndNode (map (collapse_neg False) (op # ns)), t # ts))"
proof -
  obtain j where k: "k = Suc j" using assms(4) by (cases k) simp_all
  have "parseAndExpression j False (node_tokens op @ concat (map (\<lambda>m. tok TokAnd # node_tokens m) ns) @ t # ts)
      = Return (Inr (finish_nodes False AndNode (map (collapse_neg False) (op # ns)), t # ts))"
    using assms k by (intro parseAndExpression_reads) simp_all
  moreover have "or_loop j False [m] (t # ts) = Return (Inr (Some m, t # ts))" for m
    using assms k by (cases j) (simp_all add: finish_nodes_def)
  ultimately show ?thesis by (simp add: k append_node_def finish_nodes_def)
qed

lemma node_reads: "node_ok n \<Longrightarrow> reads n"
proof (induction n)
  case (NotNode n)
  then show ?case by (simp add: reads_def)
next
  case (AndNode ops)
  then obtain op op' ns where ops: "ops = op # op' # ns" by (cases ops rule: remdups_adj.cases) simp_all
  then have r: "\<forall>m \<in> set (op # op' # ns). reads m" using AndNode by (simp add: list_all_iff)
  show ?case
    unfolding reads_def
  proof (intro conjI allI impI)
    fix k neg t ts
    assume "3 * length (node_tokens (AndNode ops)) \<le> k"
    then show "operation_body k neg (node_tokens (AndNode ops) @ t # ts)
        = Return (Inr (Some (collapse_neg neg (AndNode ops)), t # ts))"
      using parseOrExpression_and [OF r, of "tok TokRParen" k "t # ts"]
      by (simp add: ops finish_nodes_def operation_body_paren)
  qed (simp add: ops)
next
  case (OrNode ops)
  then obtain op op' ns where ops: "ops = op # op' # ns" by (cases ops rule: remdups_adj.cases) simp_all
  then have r: "\<forall>m \<in> set (op # op' # ns). reads m" using OrNode by (simp add: list_all_iff)
  show ?case
    unfolding reads_def
  proof (intro conjI allI impI)
    fix k neg t ts
    assume "3 * length (node_tokens (OrNode ops)) \<le> k"
    then show "operation_body k neg (node_tokens (OrNode ops) @ t # ts)
        = Return (Inr (Some (collapse_neg neg (OrNode ops)), t # ts))"
      using parseOrExpression_or [OF r, of "tok TokRParen" k "t # ts"]
      by (simp add: ops finish_nodes_def operation_body_paren)
  qed (simp add: ops)
qed (simp_all add: reads_def operation_body_simple parse_simple_def parse_label_def parse_string_op_def
    sel_node_def parse_set_tokens)

lemma parseRoot_node_string:
  assumes "node_ok n"
  shows "parseRoot (node_string n) False = Return (Inr (Some (collapse_neg False n)))"
proof -
  have "AppendTokens [] (node_string n) = AppendTokens (node_tokens n) []"
    using AppendTokens_node [OF assms, of "[]" "[]"] by (simp add: not_label_def last_token_def)
  then have lexed: "AppendTokens [] (node_string n) = Inr (node_tokens n @ [tok TokEOF])"
    by (simp add: AppendTokens_step [of _ "[]"] trimWhitespace_def)
  obtain t ts where t: "node_tokens n @ [tok TokEOF] = t # ts" "tokKind t \<noteq> TokEOF"
    using node_tokens_first [OF assms] by (cases "node_tokens n") simp_all
  have "parseOrExpression (parse_fuel (t # ts)) False (node_tokens n @ [tok TokEOF])
      = Return (Inr (Some (collapse_neg False n), [tok TokEOF]))"
    using parseOrExpression_or [of n "[]" "tok TokEOF" "parse_fuel (t # ts)" "[]"] node_reads [OF assms]
    by (simp add: parse_fuel_def finish_nodes_def flip: t(1))
  then show ?thesis
    using lexed t by (simp add: parseRoot_def)
qed

section \<open>Printing and parsing\<close>

text \<open>C12. The string form of a well-formed selector parses to the selector without pairs of adjacent
  negations, which matches the same labels.\<close>

theorem parse_print:
  assumes "node_ok n" and "sel = updateFields mkID \<lparr>root = n, stringRep = [], sel_hash = []\<rparr>"
  shows "\<exists>sel'. Parse mkID (Selector_String sel) = Return (Inr sel')
    \<and> root sel' = collapse_neg False n \<and> (\<forall>ls. EvaluateLabels sel' ls = EvaluateLabels sel ls)"
  using parseRoot_node_string [OF assms(1)]
  by (simp add: assms(2) Parse_def Selector_String_def updateFields_def Let_def EvaluateLabels_def
      Evaluate_collapse flip: node_string_def)

theorem parse_print_witness:
  "\<exists>sel'. Parse (@) (Selector_String (updateFields (@)
        \<lparr>root = NotNode (NotNode (LabelInSetNode ''a'' (Some [''b'', ''c'']))), stringRep = [], sel_hash = []\<rparr>)) = Return (Inr sel')
    \<and> root sel' = collapse_neg False (NotNode (NotNode (LabelInSetNode ''a'' (Some [''b'', ''c'']))))
    \<and> (\<forall>ls. EvaluateLabels sel' ls = EvaluateLabels (updateFields (@)
        \<lparr>root = NotNode (NotNode (LabelInSetNode ''a'' (Some [''b'', ''c'']))), stringRep = [], sel_hash = []\<rparr>) ls)"
  by (rule parse_print [OF _ refl]) (simp, code_simp)

lemma Parse_Inr:
  assumes "Parse mkID u = Return (Inr x)"
  shows "node_ok (root x)" and "Selector_String x = node_string (root x)"
    and "sel_hash x = mkID ''s'' (Selector_String x)"
proof -
  obtain r where "parseRoot u False = Return r" "\<forall>sel. r = Inr sel \<longrightarrow> sel_ok False sel"
    using parseRoot_returns by blast
  with assms show "node_ok (root x)" "Selector_String x = node_string (root x)"
    "sel_hash x = mkID ''s'' (Selector_String x)"
    by (cases r; auto simp: Parse_def sel_ok_def updateFields_def Let_def Selector_String_def node_string_def
        split: option.splits)+
qed

text \<open>C16. Two parsed selectors that \<open>Equal\<close> takes to be equal match the same labels, provided the
  digest does not collide on their strings.\<close>

theorem equal_selectors_match_alike:
  assumes "Parse mkID s = Return (Inr a)" and "Parse mkID t = Return (Inr b)"
    and "Selector_Equal (Some a) (Some b)"
    and "mkID ''s'' (Selector_String a) = mkID ''s'' (Selector_String b) \<Longrightarrow> Selector_String a = Selector_String b"
  shows "EvaluateLabels a ls = EvaluateLabels b ls"
proof -
  have "sel_hash b = sel_hash a" using assms(3) by (simp add: Selector_Equal_def)
  then have "mkID ''s'' (Selector_String a) = mkID ''s'' (Selector_String b)"
    unfolding Parse_Inr(3) [OF assms(1)] Parse_Inr(3) [OF assms(2)] by (rule sym)
  from assms(4) [OF this] have "node_string (root a) = node_string (root b)"
    unfolding Parse_Inr(2) [OF assms(1)] Parse_Inr(2) [OF assms(2)] .
  then have "collapse_neg False (root a) = collapse_neg False (root b)"
    using parseRoot_node_string [OF Parse_Inr(1) [OF assms(1)]] parseRoot_node_string [OF Parse_Inr(1) [OF assms(2)]]
    by simp
  then show ?thesis
    using Evaluate_collapse [of False "root a" ls] Evaluate_collapse [of False "root b" ls] by (simp add: EvaluateLabels_def)
qed

theorem equal_selectors_match_alike_witness:
  "\<exists>a b. Parse (@) ''has(a)'' = Return (Inr a) \<and> Parse (@) ''( has( a ) )'' = Return (Inr b)
    \<and> EvaluateLabels a [''a'' \<mapsto> ''b''] = EvaluateLabels b [''a'' \<mapsto> ''b'']"
proof -
  let ?a = "\<lparr>root = HasNode ''a'', stringRep = ''has(a)'', sel_hash = ''shas(a)''\<rparr>"
  have p: "Parse (@) ''has(a)'' = Return (Inr ?a)" "Parse (@) ''( has( a ) )'' = Return (Inr ?a)"
    by code_simp+
  have "EvaluateLabels ?a [''a'' \<mapsto> ''b''] = EvaluateLabels ?a [''a'' \<mapsto> ''b'']"
    by (rule equal_selectors_match_alike [OF p]) (simp_all add: Selector_Equal_def)
  with p show ?thesis by blast
qed

end
