(* ===== verification/IP_Net.thy ===== *)
theory IP_Net
  imports Calico_Base "HOL-Library.Word"
begin

text \<open>
  Addresses and networks as \<^verbatim>\<open>libcalico-go/lib/net\<close> has them, and the address
  filters of \<^verbatim>\<open>libcalico-go/lib/ipam/addr_filter.go\<close>. An address is an IPv4 or an
  IPv6 address; the code always compares and converts the four-byte form of an IPv4 address, so
  the sixteen-byte form of it is not a value of its own. The lemmas show that networks are nested
  or disjoint, and that the filter made of a slice of networks decides whether it covers a whole
  network by counting addresses.
\<close>

unbundle bit_operations_syntax

section \<open>Addresses\<close>

datatype IP = V4 "32 word" | V6 "128 word"

fun Version :: "IP \<Rightarrow> nat" where
  "Version (V4 _) = 4"
| "Version (V6 _) = 6"

fun IPToBigInt :: "IP \<Rightarrow> int" where
  "IPToBigInt (V4 a) = uint a"
| "IPToBigInt (V6 a) = uint a"

text \<open>\<^verbatim>\<open>FillBytes\<close> panics when the absolute value does not fit.\<close>

definition BigIntToIP :: "int \<Rightarrow> bool \<Rightarrow> IP run" where
  "BigIntToIP ipInt v6 =
     (if v6 then (if \<bar>ipInt\<bar> < 2 ^ 128 then Return (V6 (word_of_int \<bar>ipInt\<bar>)) else Panic)
      else if \<bar>ipInt\<bar> < 2 ^ 32 then Return (V4 (word_of_int \<bar>ipInt\<bar>)) else Panic)"

definition IncrementIP :: "IP \<Rightarrow> int \<Rightarrow> IP run" where
  "IncrementIP ip increment =
     (let expectingV6 = (Version ip = 6); sum = IPToBigInt ip + increment
      in BigIntToIP sum expectingV6)"

section \<open>Networks\<close>

text \<open>The mask has \<open>ones\<close> leading ones; its length is that of the address.\<close>

record IPNet =
  net_IP :: IP
  ones :: nat

fun ip_bits :: "IP \<Rightarrow> nat" where
  "ip_bits (V4 _) = 32"
| "ip_bits (V6 _) = 128"

definition zeros :: "IPNet \<Rightarrow> nat" where
  "zeros n = ip_bits (net_IP n) - ones n"

definition Contains :: "IPNet \<Rightarrow> IP \<Rightarrow> bool" where
  "Contains n ip =
     (case (net_IP n, ip) of
        (V4 a, V4 b) \<Rightarrow> a AND NOT (mask (zeros n)) = b AND NOT (mask (zeros n))
      | (V6 a, V6 b) \<Rightarrow> a AND NOT (mask (zeros n)) = b AND NOT (mask (zeros n))
      | _ \<Rightarrow> False)"

definition IsNetOverlap :: "IPNet \<Rightarrow> IPNet \<Rightarrow> bool" where
  "IsNetOverlap i n \<longleftrightarrow> Contains n (net_IP i) \<or> Contains i (net_IP n)"

definition Covers :: "IPNet \<Rightarrow> IPNet \<Rightarrow> bool" where
  "Covers i n \<longleftrightarrow> Contains i (net_IP n) \<and> ones i \<le> ones n"

definition NthIP :: "IPNet \<Rightarrow> nat \<Rightarrow> IP run" where
  "NthIP i n = IncrementIP (net_IP i) (int n)"

definition NumAddrs :: "IPNet \<Rightarrow> int" where
  "NumAddrs i = 2 ^ zeros i"

section \<open>Address filters\<close>

record addrFilter =
  MatchesIP :: "IP \<Rightarrow> bool"
  MatchesWholeCIDR :: "IPNet \<Rightarrow> bool"
  MatchesSome :: "IPNet \<Rightarrow> bool"

definition nilAddrFilter :: addrFilter where
  "nilAddrFilter = \<lparr>MatchesIP = (\<lambda>_. False), MatchesWholeCIDR = (\<lambda>_. False), MatchesSome = (\<lambda>_. False)\<rparr>"

definition cidr_MatchesSome :: "IPNet list \<Rightarrow> IPNet \<Rightarrow> bool" where
  "cidr_MatchesSome c ip = list_ex (\<lambda>cidr. IsNetOverlap cidr ip) c"

definition cidr_MatchesIP :: "IPNet list \<Rightarrow> IP \<Rightarrow> bool" where
  "cidr_MatchesIP c ip = list_ex (\<lambda>cidr. Contains cidr ip) c"

text \<open>The nested loop: a network is dropped when a later one contains its address. The outer loop
  reads the slice ahead of what it writes, so the shared storage does not matter.\<close>

fun drop_overlapped :: "IPNet list \<Rightarrow> IPNet list" where
  "drop_overlapped [] = []"
| "drop_overlapped (cidr # c) =
     (if list_ex (\<lambda>larger. Contains larger (net_IP cidr)) c then drop_overlapped c
      else cidr # drop_overlapped c)"

definition filterOutDuplicates :: "IPNet list \<Rightarrow> IPNet list" where
  "filterOutDuplicates c = drop_overlapped (sort_key NumAddrs c)"

definition filterDupesAndGetNumCoveredIPs :: "IPNet list \<Rightarrow> IPNet list \<times> int" where
  "filterDupesAndGetNumCoveredIPs c =
     (let filtered = filterOutDuplicates c
      in (filtered, fold (\<lambda>cidr num. num + NumAddrs cidr) filtered 0))"

fun whole_loop :: "IPNet \<Rightarrow> IPNet list \<Rightarrow> IPNet list \<Rightarrow> IPNet list option" where
  "whole_loop cand [] overlapping = Some overlapping"
| "whole_loop cand (cidr # c) overlapping =
     (if Covers cidr cand then None
      else whole_loop cand c (if Contains cand (net_IP cidr) then overlapping @ [cidr] else overlapping))"

definition cidr_MatchesWholeCIDR :: "IPNet list \<Rightarrow> IPNet \<Rightarrow> bool" where
  "cidr_MatchesWholeCIDR c cand =
     (case whole_loop cand c [] of
        None \<Rightarrow> True
      | Some overlapping \<Rightarrow>
          if length overlapping = 0 then False
          else (let (_, numCoveredIPs) = filterDupesAndGetNumCoveredIPs overlapping
                in numCoveredIPs = NumAddrs cand))"

definition cidrSliceFilter :: "IPNet list \<Rightarrow> addrFilter" where
  "cidrSliceFilter c =
     \<lparr>MatchesIP = cidr_MatchesIP c, MatchesWholeCIDR = cidr_MatchesWholeCIDR c, MatchesSome = cidr_MatchesSome c\<rparr>"

section \<open>Networks are intervals\<close>

lemma and_not_mask_eq:
  fixes a b :: "'a :: len word"
  shows "a AND NOT (mask z) = b AND NOT (mask z) \<longleftrightarrow> uint a div 2 ^ z = uint b div 2 ^ z"
proof -
  have "uint a div 2 ^ z = uint b div 2 ^ z \<longleftrightarrow> (\<forall>i. bit (uint a) (z + i) = bit (uint b) (z + i))"
    by (simp add: bit_eq_iff bit_drop_bit_eq flip: drop_bit_eq_div)
  also have "\<dots> \<longleftrightarrow> (\<forall>i \<ge> z. bit a i = bit b i)"
    by (metis bit_uint_iff bit_imp_le_length le_Suc_ex le_add1)
  also have "\<dots> \<longleftrightarrow> a AND NOT (mask z) = b AND NOT (mask z)"
    by (auto simp: bit_eq_iff bit_and_iff bit_not_iff bit_mask_iff not_less dest: bit_imp_le_length)
  finally show ?thesis by simp
qed

text \<open>The addresses of one version are an initial segment of the integers.\<close>

lemma IPToBigInt_bounds: "0 \<le> IPToBigInt ip \<and> IPToBigInt ip < 2 ^ ip_bits ip"
proof (cases ip)
  case (V4 a)
  then show ?thesis using uint_bounded [of a] by simp
next
  case (V6 a)
  then show ?thesis using uint_bounded [of a] by simp
qed

lemma Version_ip_bits: "Version a = Version b \<longleftrightarrow> ip_bits a = ip_bits b"
  by (cases a; cases b) simp_all

lemma IP_eq_iff: "a = b \<longleftrightarrow> Version a = Version b \<and> IPToBigInt a = IPToBigInt b"
  by (cases a; cases b) (simp_all add: word_uint_eq_iff)

text \<open>The address of the same version with a given number.\<close>

definition ip_like :: "IP \<Rightarrow> int \<Rightarrow> IP" where
  "ip_like ip x = (case ip of V4 _ \<Rightarrow> V4 (word_of_int x) | V6 _ \<Rightarrow> V6 (word_of_int x))"

lemma ip_like:
  assumes "0 \<le> x" and "x < 2 ^ ip_bits ip"
  shows "IPToBigInt (ip_like ip x) = x" and "Version (ip_like ip x) = Version ip"
    and "BigIntToIP x (Version ip = 6) = Return (ip_like ip x)"
  using assms by (cases ip; simp add: ip_like_def uint_word_of_int BigIntToIP_def)+

lemma Contains_iff:
  "Contains n ip \<longleftrightarrow> Version ip = Version (net_IP n)
     \<and> IPToBigInt ip div 2 ^ zeros n = IPToBigInt (net_IP n) div 2 ^ zeros n"
  by (cases ip; cases "net_IP n") (auto simp: Contains_def and_not_mask_eq)

lemma Contains_self [simp]: "Contains n (net_IP n)"
  by (simp add: Contains_iff)

lemma div_pow_mono:
  fixes a b :: int
  assumes "a div 2 ^ i = b div 2 ^ i" and "i \<le> j"
  shows "a div 2 ^ j = b div 2 ^ j"
proof -
  have "x div 2 ^ j = x div 2 ^ i div 2 ^ (j - i)" for x :: int
    using assms(2) by (simp flip: drop_bit_eq_div)
  with assms(1) show ?thesis by simp
qed

text \<open>Networks that share an address are nested.\<close>

lemma Contains_nested:
  assumes "Contains a x" and "Contains b x" and "zeros a \<le> zeros b" and "Contains a y"
  shows "Contains b y"
  using assms div_pow_mono [of "IPToBigInt x" "zeros a" "IPToBigInt y" "zeros b"]
  by (simp add: Contains_iff)

definition net_set :: "IPNet \<Rightarrow> IP set" where
  "net_set n = {ip. Contains n ip}"

lemma mem_net_set [simp]: "ip \<in> net_set n \<longleftrightarrow> Contains n ip"
  by (simp add: net_set_def)

lemma div_eq_interval:
  fixes x q z :: int
  assumes "0 < z"
  shows "x div z = q \<longleftrightarrow> q * z \<le> x \<and> x < q * z + z"
proof
  assume "x div z = q"
  then show "q * z \<le> x \<and> x < q * z + z"
    using div_mult_mod_eq [of x z] pos_mod_bound [OF assms, of x] pos_mod_sign [OF assms, of x] by auto
next
  assume "q * z \<le> x \<and> x < q * z + z"
  then show "x div z = q"
    by (intro int_div_pos_eq [of _ _ _ "x - q * z"]) auto
qed

text \<open>The range of a network ends within the address space.\<close>

lemma net_top:
  assumes "ones n \<le> ip_bits (net_IP n)"
  shows "IPToBigInt (net_IP n) div 2 ^ zeros n * 2 ^ zeros n + 2 ^ zeros n \<le> (2 :: int) ^ ip_bits (net_IP n)"
proof -
  let ?z = "2 ^ zeros n :: int" and ?b = "IPToBigInt (net_IP n)" and ?m = "2 ^ ip_bits (net_IP n) :: int"
  let ?q = "?b div ?z"
  have dvd: "?z dvd ?m" by (simp add: zeros_def le_imp_power_dvd)
  then obtain k where k: "?m = ?z * k" by blast
  have "?q * ?z \<le> ?b" using div_eq_interval [of ?z ?b ?q] by simp
  also have "?b < k * ?z" using IPToBigInt_bounds [of "net_IP n"] k by (simp add: mult.commute)
  finally have "?q < k" by (rule mult_right_less_imp_less) simp
  then have "?q + 1 \<le> k" by simp
  then have "(?q + 1) * ?z \<le> k * ?z" by (rule mult_right_mono) simp
  then show ?thesis using k by (simp add: algebra_simps)
qed

lemma card_net_set:
  assumes "ones n \<le> ip_bits (net_IP n)"
  shows "int (card (net_set n)) = NumAddrs n"
proof -
  let ?z = "2 ^ zeros n :: int" and ?b = "IPToBigInt (net_IP n)" and ?m = "2 ^ ip_bits (net_IP n) :: int"
  let ?q = "?b div ?z"
  note hi = net_top [OF assms]
  have q: "0 \<le> ?q * ?z" using IPToBigInt_bounds [of "net_IP n"] by (simp add: pos_imp_zdiv_nonneg_iff)
  have "bij_betw IPToBigInt (net_set n) {?q * ?z ..< ?q * ?z + ?z}"
  proof (rule bij_betw_imageI)
    show "inj_on IPToBigInt (net_set n)"
      by (auto intro!: inj_onI simp: Contains_iff IP_eq_iff)
    show "IPToBigInt ` net_set n = {?q * ?z ..< ?q * ?z + ?z}"
    proof (intro set_eqI iffI)
      fix x assume "x \<in> {?q * ?z ..< ?q * ?z + ?z}"
      then have x: "x div ?z = ?q" "0 \<le> x" "x < ?m"
        using div_eq_interval [of ?z x ?q] hi q by auto
      with ip_like [of x "net_IP n"] show "x \<in> IPToBigInt ` net_set n"
        by (auto simp: Contains_iff intro!: image_eqI [of _ _ "ip_like (net_IP n) x"])
    qed (auto simp: Contains_iff div_eq_interval)
  qed
  then have "card (net_set n) = card {?q * ?z ..< ?q * ?z + ?z}" by (rule bij_betw_same_card)
  then show ?thesis by (simp add: NumAddrs_def)
qed

definition net_ok :: "IPNet \<Rightarrow> bool" where
  "net_ok n \<longleftrightarrow> ones n \<le> ip_bits (net_IP n)"

definition nets_set :: "IPNet list \<Rightarrow> IP set" where
  "nets_set c = (\<Union>n \<in> set c. net_set n)"

lemma nets_set_simps [simp]: "nets_set [] = {}" "nets_set (n # c) = net_set n \<union> nets_set c"
  by (simp_all add: nets_set_def)

lemma finite_net_set: "net_ok n \<Longrightarrow> finite (net_set n)"
  using card_net_set [of n] by (auto simp: net_ok_def NumAddrs_def intro: card_ge_0_finite)

lemma NumAddrs_le_iff: "NumAddrs a \<le> NumAddrs b \<longleftrightarrow> zeros a \<le> zeros b"
  by (simp add: NumAddrs_def)

lemma card_drop_overlapped:
  assumes "sorted (map NumAddrs c)" and "list_all net_ok c"
  shows "int (card (nets_set c)) = sum_list (map NumAddrs (drop_overlapped c)) \<and> finite (nets_set c)"
  using assms
proof (induction c)
  case (Cons n c)
  show ?case
  proof (cases "list_ex (\<lambda>larger. Contains larger (net_IP n)) c")
    case True
    then obtain m where m: "m \<in> set c" "Contains m (net_IP n)" by (auto simp: list_ex_iff)
    then have "zeros n \<le> zeros m" using Cons.prems(1) by (auto simp: NumAddrs_le_iff)
    with m(2) have "net_set n \<subseteq> net_set m" using Contains_nested [of n "net_IP n" m] by auto
    with m(1) have "nets_set (n # c) = nets_set c" by (auto simp: nets_set_def)
    with True Cons show ?thesis by simp
  next
    case False
    have "net_set n \<inter> nets_set c = {}"
    proof (rule ccontr)
      assume "net_set n \<inter> nets_set c \<noteq> {}"
      then obtain m x where m: "m \<in> set c" "Contains n x" "Contains m x" by (auto simp: nets_set_def)
      then have "zeros n \<le> zeros m" using Cons.prems(1) by (auto simp: NumAddrs_le_iff)
      with m Contains_nested [of n x m "net_IP n"] False show False by (auto simp: list_ex_iff)
    qed
    with Cons False finite_net_set [of n] card_net_set [of n] show ?thesis
      by (simp add: card_Un_disjoint net_ok_def)
  qed
qed simp

lemma filterDupes_covered:
  assumes "list_all net_ok c"
  shows "snd (filterDupesAndGetNumCoveredIPs c) = int (card (nets_set c))" and "finite (nets_set c)"
proof -
  have "fold (\<lambda>cidr num. num + NumAddrs cidr) ns k = k + sum_list (map NumAddrs ns)" for ns k
    by (induction ns arbitrary: k) simp_all
  moreover have "nets_set (sort_key NumAddrs c) = nets_set c" by (simp add: nets_set_def)
  moreover have "list_all net_ok (sort_key NumAddrs c)" using assms by (simp add: list_all_iff)
  ultimately show "snd (filterDupesAndGetNumCoveredIPs c) = int (card (nets_set c))" "finite (nets_set c)"
    using card_drop_overlapped [of "sort_key NumAddrs c"]
    by (simp_all add: filterDupesAndGetNumCoveredIPs_def filterOutDuplicates_def Let_def)
qed

lemma whole_loop_eq:
  "whole_loop cand c ov =
     (if list_ex (\<lambda>n. Covers n cand) c then None else Some (ov @ filter (\<lambda>n. Contains cand (net_IP n)) c))"
  by (induction c arbitrary: ov) simp_all

lemma Covers_iff:
  assumes "net_ok a" and "net_ok b"
  shows "Covers a b \<longleftrightarrow> net_set b \<subseteq> net_set a \<and> zeros b \<le> zeros a"
proof -
  have "ones a \<le> ones b \<longleftrightarrow> zeros b \<le> zeros a" if "Contains a (net_IP b)"
    using that assms Version_ip_bits [of "net_IP a" "net_IP b"] by (auto simp: zeros_def net_ok_def Contains_iff)
  then show ?thesis
    using Contains_nested [of b "net_IP b" a] by (auto simp: Covers_def subset_iff)
qed

lemma net_set_smaller:
  assumes "net_ok n" and "net_ok cand" and "\<not> Covers n cand" and "Contains n x" and "Contains cand x"
  shows "zeros n < zeros cand" and "net_set n \<subseteq> net_set cand" and "Contains cand (net_IP n)"
proof -
  show "zeros n < zeros cand"
    using assms Contains_nested [of cand x n] by (fastforce simp: Covers_iff)
  with assms Contains_nested [of n x cand] show "net_set n \<subseteq> net_set cand" "Contains cand (net_IP n)"
    by auto
qed

lemma MatchesWholeCIDR_iff:
  assumes "list_all net_ok c" and "net_ok cand"
  shows "cidr_MatchesWholeCIDR c cand \<longleftrightarrow> net_set cand \<subseteq> nets_set c"
proof (cases "list_ex (\<lambda>n. Covers n cand) c")
  case True
  then obtain n where "n \<in> set c" "Covers n cand" by (auto simp: list_ex_iff)
  then have "net_set cand \<subseteq> nets_set c"
    using assms by (auto simp: Covers_iff list_all_iff nets_set_def)
  with True show ?thesis by (simp add: cidr_MatchesWholeCIDR_def whole_loop_eq)
next
  case False
  let ?ov = "filter (\<lambda>n. Contains cand (net_IP n)) c"
  have small: "net_set n \<subseteq> net_set cand" "Contains cand (net_IP n)"
    if "n \<in> set c" "Contains n x" "Contains cand x" for n x
    using net_set_smaller [of n cand x] that assms False by (auto simp: list_all_iff list_ex_iff)
  have sub: "nets_set ?ov \<subseteq> net_set cand"
  proof
    fix x assume "x \<in> nets_set ?ov"
    then obtain n where n: "n \<in> set c" "Contains cand (net_IP n)" "Contains n x" by (auto simp: nets_set_def)
    from small(1) [OF n(1) Contains_self n(2)] n(3) show "x \<in> net_set cand" by auto
  qed
  have ov: "nets_set ?ov = net_set cand \<longleftrightarrow> net_set cand \<subseteq> nets_set c"
  proof
    assume all: "net_set cand \<subseteq> nets_set c"
    have "x \<in> nets_set ?ov" if x: "x \<in> net_set cand" for x
    proof -
      from all x obtain n where n: "n \<in> set c" "Contains n x" by (auto simp: nets_set_def subset_iff)
      with small(2) [of n x] x show ?thesis by (auto simp: nets_set_def)
    qed
    with sub show "nets_set ?ov = net_set cand" by blast
  qed (auto simp: nets_set_def)
  have cov: "snd (filterDupesAndGetNumCoveredIPs ?ov) = int (card (nets_set ?ov))"
    by (rule filterDupes_covered(1)) (use assms(1) in \<open>auto simp: list_all_iff\<close>)
  have eq: "card (nets_set ?ov) = card (net_set cand) \<longleftrightarrow> nets_set ?ov = net_set cand"
    using card_subset_eq [OF finite_net_set [OF assms(2)] sub] by auto
  have "nets_set ?ov \<noteq> net_set cand" if "?ov = []"
    using that Contains_self [of cand] by (auto simp only: nets_set_simps mem_net_set)
  moreover have "cidr_MatchesWholeCIDR c cand \<longleftrightarrow> ?ov \<noteq> [] \<and> int (card (nets_set ?ov)) = NumAddrs cand"
    using False cov by (simp add: cidr_MatchesWholeCIDR_def whole_loop_eq case_prod_unfold del: filter_empty_conv)
  ultimately show ?thesis
    using ov eq card_net_set [of cand] assms(2) by (auto simp: net_ok_def)
qed

section \<open>The contract of an address filter\<close>

text \<open>What the callers of a filter rely on, on the networks \<open>ok\<close>: a whole match is a match of every
  address, and where no part matches no address does.\<close>

locale addr_filter =
  fixes f :: addrFilter and ok :: "IPNet \<Rightarrow> bool"
  assumes whole: "ok n \<Longrightarrow> MatchesWholeCIDR f n \<Longrightarrow> Contains n ip \<Longrightarrow> MatchesIP f ip"
    and some: "ok n \<Longrightarrow> \<not> MatchesSome f n \<Longrightarrow> Contains n ip \<Longrightarrow> \<not> MatchesIP f ip"

interpretation nil_filter: addr_filter nilAddrFilter "\<lambda>_. True"
  by unfold_locales (simp_all add: nilAddrFilter_def)

lemma IsNetOverlap_iff: "IsNetOverlap a b \<longleftrightarrow> (\<exists>x. Contains a x \<and> Contains b x)"
proof
  assume "\<exists>x. Contains a x \<and> Contains b x"
  then obtain x where "Contains a x" "Contains b x" by auto
  then show "IsNetOverlap a b"
    using Contains_nested [of a x b "net_IP a"] Contains_nested [of b x a "net_IP b"] nat_le_linear [of "zeros a" "zeros b"]
    by (auto simp: IsNetOverlap_def)
qed (auto simp: IsNetOverlap_def intro: Contains_self)

lemma cidr_MatchesIP_iff: "cidr_MatchesIP c ip \<longleftrightarrow> ip \<in> nets_set c"
  by (simp add: cidr_MatchesIP_def list_ex_iff nets_set_def)

lemma cidr_slice_contract:
  assumes "list_all net_ok c"
  shows "addr_filter (cidrSliceFilter c) net_ok"
proof
  fix n ip
  assume n: "net_ok n" "Contains n ip"
  show "MatchesIP (cidrSliceFilter c) ip" if "MatchesWholeCIDR (cidrSliceFilter c) n"
    using that n(2) MatchesWholeCIDR_iff [OF assms n(1)]
    by (simp add: cidrSliceFilter_def cidr_MatchesIP_iff subset_iff)
  show "\<not> MatchesIP (cidrSliceFilter c) ip" if "\<not> MatchesSome (cidrSliceFilter c) n"
    using that n by (auto simp: cidrSliceFilter_def cidr_MatchesIP_def cidr_MatchesSome_def list_ex_iff IsNetOverlap_iff)
qed

text \<open>Every mask that \<^verbatim>\<open>Mask.Size\<close> describes has at most as many ones as bits, so
  \<open>net_ok\<close> holds of the networks of a filter.\<close>

interpretation cidr_slice: addr_filter "cidrSliceFilter (filter net_ok c)" net_ok for c
  by (rule cidr_slice_contract) (simp add: list_all_iff)

end
