(* ===== verification/IPAM_Block.thy ===== *)
theory IPAM_Block
  imports IP_Net
begin

text \<open>
  Allocation blocks, the unit in which Calico's IPAM hands out addresses:
  \<^verbatim>\<open>libcalico-go/lib/ipam/ipam_block.go\<close>, the block of
  \<^verbatim>\<open>libcalico-go/lib/backend/model/block.go\<close> and the owner attributes of
  \<^verbatim>\<open>ipam_attributes.go\<close>. A block maps the ordinals of its addresses to
  attributes, through an index that ordinals share, and keeps the free ordinals in a queue. A run
  that indexes a slice out of range panics. The clock readings are arguments, in nanoseconds. A map
  of attributes can be nil, and \<^verbatim>\<open>reflect.DeepEqual\<close> tells nil from empty; the map
  of sequence numbers has the decimal ordinals as its keys, which stand for the ordinals. The
  pointers in the allocations are shared but never written through, so they are their values.
\<close>

section \<open>Blocks\<close>

type_synonym owner_attrs = "(string \<rightharpoonup> string) option"

record AllocationAttribute =
  HandleID :: "string option"
  ActiveOwnerAttrs :: owner_attrs
  AlternateOwnerAttrs :: owner_attrs
  ReleasedAt :: "int option"

record AllocationBlock =
  CIDR :: IPNet
  Affinity :: "string option"
  Allocations :: "nat option list"
  Unallocated :: "nat list"
  Attributes :: "AllocationAttribute list"
  SequenceNumber :: "64 word"
  SequenceNumberForAllocation :: "nat \<rightharpoonup> 64 word"
  Deleted :: bool

definition SetSequenceNumberForOrdinal :: "nat \<Rightarrow> AllocationBlock \<Rightarrow> AllocationBlock" where
  "SetSequenceNumberForOrdinal ordinal b =
     b\<lparr>SequenceNumberForAllocation := (SequenceNumberForAllocation b)(ordinal \<mapsto> SequenceNumber b)\<rparr>"

definition GetSequenceNumberForOrdinal :: "AllocationBlock \<Rightarrow> nat \<Rightarrow> 64 word" where
  "GetSequenceNumberForOrdinal b ordinal =
     (case SequenceNumberForAllocation b ordinal of Some n \<Rightarrow> n | None \<Rightarrow> 0)"

definition ClearSequenceNumberForOrdinal :: "nat \<Rightarrow> AllocationBlock \<Rightarrow> AllocationBlock" where
  "ClearSequenceNumberForOrdinal ordinal b =
     b\<lparr>SequenceNumberForAllocation := (SequenceNumberForAllocation b)(ordinal := None)\<rparr>"

definition MarkDeleted :: "AllocationBlock \<Rightarrow> AllocationBlock" where
  "MarkDeleted b = b\<lparr>Deleted := True\<rparr>"

definition IsDeleted :: "AllocationBlock \<Rightarrow> bool" where
  "IsDeleted b = Deleted b"

definition affinity_host :: string where "affinity_host = ''host''"
definition affinity_virtual :: string where "affinity_virtual = ''virtual''"

definition Host :: "AllocationBlock \<Rightarrow> string" where
  "Host b =
     (case Affinity b of
        None \<Rightarrow> []
      | Some a \<Rightarrow>
          if go_has_prefix a (affinity_host @ '':'') then go_trim_prefix a (affinity_host @ '':'')
          else if go_has_prefix a (affinity_virtual @ '':'') then go_trim_prefix a (affinity_virtual @ '':'')
          else [])"

definition block_AffinityType :: "AllocationBlock \<Rightarrow> string" where
  "block_AffinityType b =
     (case Affinity b of
        None \<Rightarrow> []
      | Some a \<Rightarrow>
          if go_has_prefix a (affinity_host @ '':'') then affinity_host
          else if go_has_prefix a (affinity_virtual @ '':'') then affinity_virtual
          else [])"

text \<open>The shift is one of a 64-bit integer, which is zero from 64 places on.\<close>

definition net_addresses :: "IPNet \<Rightarrow> int" where
  "net_addresses n = sint (push_bit (zeros n) 1 :: 64 word)"

definition NumAddresses :: "AllocationBlock \<Rightarrow> int" where
  "NumAddresses b = net_addresses (CIDR b)"

datatype ipam_error =
  AffinityMismatch | NoAffinity | NotInBlock IP | AlreadyAssigned IP | NotAllocated IP | InCooldown IP
| BadSequenceNumber string "64 word" "64 word" | BadHandle string string string | OwnerBadHandle IP string string | OwnerMismatch IP
| NotAssignedToHandle IP string | BadAffinity

text \<open>\<^verbatim>\<open>Int64\<close> keeps the low 64 bits, as the library implements it; its documentation leaves the
  result open when the value does not fit, and no theorem relies on that case.\<close>

definition IPToOrdinal :: "AllocationBlock \<Rightarrow> IP \<Rightarrow> (ipam_error, nat) result" where
  "IPToOrdinal b ip =
     (let ipAsInt = IPToBigInt ip; baseInt = IPToBigInt (net_IP (CIDR b));
          ord = sint (word_of_int (ipAsInt - baseInt) :: 64 word)
      in if ord < 0 \<or> ord \<ge> NumAddresses b then Inl (NotInBlock ip) else Inr (nat ord))"

definition OrdinalToIP :: "AllocationBlock \<Rightarrow> nat \<Rightarrow> IP run" where
  "OrdinalToIP b ord = NthIP (CIDR b) ord"

definition attribute_node :: string where "attribute_node = ''node''"

fun non_affine_loop :: "AllocationBlock \<Rightarrow> nat \<Rightarrow> nat option list \<Rightarrow> (IP \<times> string) list run" where
  "non_affine_loop b ordinal [] = Return []"
| "non_affine_loop b ordinal (attrIdx # rest) =
     (case attrIdx of
        None \<Rightarrow> non_affine_loop b (ordinal + 1) rest
      | Some i \<Rightarrow>
          if i \<ge> length (Attributes b) then non_affine_loop b (ordinal + 1) rest
          else (let attrs = ActiveOwnerAttrs (Attributes b ! i);
                    host = (case attrs of None \<Rightarrow> [] | Some m \<Rightarrow> (case m attribute_node of Some h \<Rightarrow> h | None \<Rightarrow> []))
                in if Host b \<noteq> [] \<and> host = Host b then non_affine_loop b (ordinal + 1) rest
                   else run_bind (OrdinalToIP b ordinal)
                          (\<lambda>addr. run_bind (non_affine_loop b (ordinal + 1) rest)
                             (\<lambda>allocs. Return ((addr, host) # allocs)))))"

definition NonAffineAllocations :: "AllocationBlock \<Rightarrow> (IP \<times> string) list run" where
  "NonAffineAllocations b = non_affine_loop b 0 (Allocations b)"

section \<open>Creating a block\<close>

record HostReservedAttr =
  StartOfBlock :: int
  EndOfBlock :: int
  rsvd_Handle :: string
  Note :: string

definition reserve_host :: "nat \<Rightarrow> HostReservedAttr \<Rightarrow> AllocationBlock \<Rightarrow> AllocationBlock run" where
  "reserve_host numAddresses r b =
     (if StartOfBlock r < 0 \<or> int numAddresses - EndOfBlock r < StartOfBlock r \<or> EndOfBlock r < 0 then Panic
      else (let start = nat (StartOfBlock r); stop = nat (EndOfBlock r); attrIndex = length (Attributes b);
                allocs = fold (\<lambda>i a. a[i := Some attrIndex]) [0..<start] (Allocations b);
                allocs = fold (\<lambda>i a. a[numAddresses - i := Some attrIndex]) [1..<stop + 1] allocs;
                attr = \<lparr>HandleID = Some (rsvd_Handle r), ActiveOwnerAttrs = Some [''note'' \<mapsto> Note r],
                        AlternateOwnerAttrs = None, ReleasedAt = None\<rparr>
            in Return (b\<lparr>Unallocated := drop start (take (numAddresses - stop) (Unallocated b)),
                         Allocations := allocs, Attributes := Attributes b @ [attr]\<rparr>)))"

definition newBlock :: "64 word \<Rightarrow> IPNet \<Rightarrow> HostReservedAttr option \<Rightarrow> AllocationBlock run" where
  "newBlock now cidr rsvdAttr =
     (let numAddresses = net_addresses cidr
      in if numAddresses < 0 then Panic
         else (let n = nat numAddresses;
                   b = \<lparr>CIDR = cidr, Affinity = None, Allocations = replicate n None, Unallocated = [0..<n],
                        Attributes = [], SequenceNumber = now, SequenceNumberForAllocation = Map.empty,
                        Deleted = False\<rparr>
               in case rsvdAttr of None \<Rightarrow> Return b | Some r \<Rightarrow> reserve_host n r b))"

section \<open>Affinity\<close>

record AffinityConfig =
  AffinityType :: string
  aff_Host :: string

definition affinityMatches :: "AffinityConfig \<Rightarrow> string \<Rightarrow> bool" where
  "affinityMatches cfg affinity \<longleftrightarrow> affinity = AffinityType cfg @ '':'' @ aff_Host cfg"

definition getAffinityConfig :: "AllocationBlock \<Rightarrow> (ipam_error, AffinityConfig) result" where
  "getAffinityConfig b =
     (case Affinity b of
        None \<Rightarrow> Inl BadAffinity
      | Some a \<Rightarrow>
          if go_has_prefix a (affinity_host @ '':'')
          then Inr \<lparr>AffinityType = affinity_host, aff_Host = go_trim_prefix a (affinity_host @ '':'')\<rparr>
          else if go_has_prefix a (affinity_virtual @ '':'')
          then Inr \<lparr>AffinityType = affinity_virtual, aff_Host = go_trim_prefix a (affinity_virtual @ '':'')\<rparr>
          else Inl BadAffinity)"

text \<open>The check that opens both ways of assigning.\<close>

definition affinity_error :: "bool \<Rightarrow> AffinityConfig \<Rightarrow> AllocationBlock \<Rightarrow> ipam_error option" where
  "affinity_error affinityCheck cfg b =
     (case Affinity b of
        Some a \<Rightarrow> if affinityCheck \<and> \<not> affinityMatches cfg a then Some AffinityMismatch else None
      | None \<Rightarrow> if affinityCheck then Some NoAffinity else None)"

section \<open>Attributes\<close>

definition sanitizeHandle :: "string \<Rightarrow> string" where
  "sanitizeHandle handleID = takeWhile (\<lambda>c. c \<noteq> CHR 0x0D) handleID"

fun find_attribute :: "AllocationAttribute \<Rightarrow> nat \<Rightarrow> AllocationAttribute list \<Rightarrow> nat option" where
  "find_attribute attr idx [] = None"
| "find_attribute attr idx (existing # rest) =
     (if attr = existing then Some idx else find_attribute attr (idx + 1) rest)"

definition findOrAddAttribute ::
  "string option \<Rightarrow> owner_attrs \<Rightarrow> owner_attrs \<Rightarrow> AllocationBlock \<Rightarrow> nat \<times> AllocationBlock" where
  "findOrAddAttribute handleID attrs alternateAttrs b =
     (let attr = \<lparr>HandleID = handleID, ActiveOwnerAttrs = attrs, AlternateOwnerAttrs = alternateAttrs,
                  ReleasedAt = None\<rparr>
      in case find_attribute attr 0 (Attributes b) of
           Some idx \<Rightarrow> (idx, b)
         | None \<Rightarrow> (length (Attributes b), b\<lparr>Attributes := Attributes b @ [attr]\<rparr>))"

definition addCooldownAttribute :: "int \<Rightarrow> AllocationBlock \<Rightarrow> nat \<times> AllocationBlock" where
  "addCooldownAttribute now b =
     (length (Attributes b),
      b\<lparr>Attributes := Attributes b @
          [\<lparr>HandleID = None, ActiveOwnerAttrs = None, AlternateOwnerAttrs = None, ReleasedAt = Some now\<rparr>]\<rparr>)"

fun indexes_loop :: "string \<Rightarrow> nat \<Rightarrow> AllocationAttribute list \<Rightarrow> nat list" where
  "indexes_loop handleID i [] = []"
| "indexes_loop handleID i (attr # rest) =
     (if (case HandleID attr of Some h \<Rightarrow> sanitizeHandle h = handleID | None \<Rightarrow> False)
      then i # indexes_loop handleID (i + 1) rest else indexes_loop handleID (i + 1) rest)"

definition attributeIndexesByHandle :: "AllocationBlock \<Rightarrow> string \<Rightarrow> nat list" where
  "attributeIndexesByHandle b handleID = indexes_loop handleID 0 (Attributes b)"

definition intInSlice :: "nat \<Rightarrow> nat list \<Rightarrow> bool" where
  "intInSlice searchInt xs \<longleftrightarrow> searchInt \<in> set xs"

section \<open>Garbage collection\<close>

definition deallocatable :: "int \<Rightarrow> int \<Rightarrow> AllocationAttribute \<Rightarrow> bool" where
  "deallocatable now ipCooldownSeconds attr =
     (case ReleasedAt attr of
        None \<Rightarrow> False
      | Some t \<Rightarrow> if ipCooldownSeconds \<ge> 0 then t < now - ipCooldownSeconds * 1000000000 else True)"

definition gc_step ::
  "int \<Rightarrow> int \<Rightarrow> nat \<Rightarrow> bool \<times> nat set \<times> AllocationBlock \<Rightarrow> (bool \<times> nat set \<times> AllocationBlock) run" where
  "gc_step now cooldown o' = (\<lambda>(changed, usedAttrs, b).
     run_bind (at (Allocations b) o') (\<lambda>alloc.
       case alloc of
         None \<Rightarrow> Return (changed, usedAttrs, b)
       | Some i \<Rightarrow>
           run_bind (at (Attributes b) i) (\<lambda>attr.
             if deallocatable now cooldown attr
             then Return (True, usedAttrs,
                    ClearSequenceNumberForOrdinal o'
                      (b\<lparr>Allocations := (Allocations b)[o' := None], Unallocated := Unallocated b @ [o']\<rparr>))
             else Return (changed, insert i usedAttrs, b))))"

text \<open>The loop that keeps the used attributes: \<open>x\<close> is the old index, \<open>y\<close> the next new one.\<close>

fun reindex :: "nat \<Rightarrow> nat \<Rightarrow> nat set \<Rightarrow> 'a list \<Rightarrow> nat option list \<times> 'a list" where
  "reindex x y used [] = ([], [])"
| "reindex x y used (a # rest) =
     (if x \<in> used
      then (let (newIndexes, newAttrs) = reindex (x + 1) (y + 1) used rest in (Some y # newIndexes, a # newAttrs))
      else (let (newIndexes, newAttrs) = reindex (x + 1) y used rest in (None # newIndexes, newAttrs)))"

definition rewrite_step :: "nat option list \<Rightarrow> nat \<Rightarrow> AllocationBlock \<Rightarrow> AllocationBlock run" where
  "rewrite_step newIndexes i b =
     run_bind (at (Allocations b) i) (\<lambda>alloc.
       case alloc of
         None \<Rightarrow> Return b
       | Some x \<Rightarrow>
           run_bind (at newIndexes x) (\<lambda>y. Return (b\<lparr>Allocations := (Allocations b)[i := y]\<rparr>)))"

definition garbageCollect :: "int \<Rightarrow> int \<Rightarrow> AllocationBlock \<Rightarrow> (bool \<times> AllocationBlock) run" where
  "garbageCollect now ipCooldownSeconds b =
     run_bind (run_fold (gc_step now ipCooldownSeconds) [0..<nat (NumAddresses b)] (False, {}, b))
       (\<lambda>(changed, usedAttrs, b).
          let (newIndexes, newAttrs) = reindex 0 0 usedAttrs (Attributes b)
          in if length newAttrs \<noteq> length (Attributes b)
             then run_bind (run_fold (rewrite_step newIndexes) [0..<nat (NumAddresses b)] (b\<lparr>Attributes := newAttrs\<rparr>))
                    (\<lambda>b. Return (True, b))
             else Return (changed, b))"

definition blockFromBackend :: "int \<Rightarrow> int \<Rightarrow> AllocationBlock \<Rightarrow> AllocationBlock run" where
  "blockFromBackend now ipCooldownSeconds b =
     run_bind (garbageCollect now ipCooldownSeconds b) (\<lambda>(_, b). Return b)"

section \<open>Assigning\<close>

definition allocate :: "nat \<Rightarrow> nat \<Rightarrow> AllocationBlock \<Rightarrow> AllocationBlock run" where
  "allocate attrIndex ordinal b =
     (if ordinal < length (Allocations b)
      then Return (b\<lparr>Allocations := (Allocations b)[ordinal := Some attrIndex]\<rparr>)
      else Panic)"

text \<open>
  The loop over the free ordinals. The code filters the slice in place: an ordinal is written at
  or before the place from which it was read, so the slice it reads is the old one.
\<close>

fun auto_loop ::
  "int \<Rightarrow> string option \<Rightarrow> owner_attrs \<Rightarrow> addrFilter \<Rightarrow> nat list \<Rightarrow> IPNet list \<Rightarrow> nat list \<Rightarrow> nat option
     \<Rightarrow> AllocationBlock \<Rightarrow> (IPNet list \<times> nat list \<times> AllocationBlock) run" where
  "auto_loop num handleID attrs reservations [] ips updated attrIndexPtr b = Return (ips, updated, b)"
| "auto_loop num handleID attrs reservations (ordinal # rest) ips updated attrIndexPtr b =
     (if int (length ips) \<ge> num then Return (ips, updated @ ordinal # rest, b)
      else run_bind (OrdinalToIP b ordinal) (\<lambda>addr.
        if MatchesIP reservations addr
        then auto_loop num handleID attrs reservations rest ips (updated @ [ordinal]) attrIndexPtr b
        else (let (attrIndex, b) = (case attrIndexPtr of
                                      Some i \<Rightarrow> (i, b)
                                    | None \<Rightarrow> findOrAddAttribute handleID attrs None b)
              in run_bind (allocate attrIndex ordinal b) (\<lambda>b.
                   auto_loop num handleID attrs reservations rest
                     (ips @ [\<lparr>net_IP = addr, ones = ones (CIDR b)\<rparr>]) updated (Some attrIndex)
                     (SetSequenceNumberForOrdinal ordinal b)))))"

definition autoAssign ::
  "int \<Rightarrow> string option \<Rightarrow> AffinityConfig \<Rightarrow> owner_attrs \<Rightarrow> bool \<Rightarrow> addrFilter \<Rightarrow> AllocationBlock
     \<Rightarrow> ((ipam_error, IPNet list) result \<times> AllocationBlock) run" where
  "autoAssign num handleID affinityCfg attrs affinityCheck reservations b =
     (case affinity_error affinityCheck affinityCfg b of
        Some e \<Rightarrow> Return (Inl e, b)
      | None \<Rightarrow>
          run_bind (auto_loop num handleID attrs reservations (Unallocated b) [] [] None b)
            (\<lambda>(ips, updated, b). Return (Inr ips, b\<lparr>Unallocated := updated\<rparr>)))"

definition assign ::
  "bool \<Rightarrow> IP \<Rightarrow> string option \<Rightarrow> owner_attrs \<Rightarrow> AffinityConfig \<Rightarrow> AllocationBlock
     \<Rightarrow> (ipam_error option \<times> AllocationBlock) run" where
  "assign affinityCheck address handleID attrs affinityCfg b =
     (case affinity_error affinityCheck affinityCfg b of
        Some e \<Rightarrow> Return (Some e, b)
      | None \<Rightarrow>
          (case IPToOrdinal b address of
             Inl e \<Rightarrow> Return (Some e, b)
           | Inr ordinal \<Rightarrow>
               (let b = SetSequenceNumberForOrdinal ordinal b
                in run_bind (at (Allocations b) ordinal) (\<lambda>alloc.
                     if alloc \<noteq> None then Return (Some (AlreadyAssigned address), b)
                     else (let (attrIndex, b) = findOrAddAttribute handleID attrs None b
                           in run_bind (allocate attrIndex ordinal b)
                                (\<lambda>b. Return (None, b\<lparr>Unallocated := remove1 ordinal (Unallocated b)\<rparr>)))))))"

section \<open>Counting and listing\<close>

fun count_unfiltered :: "addrFilter \<Rightarrow> IPNet \<Rightarrow> nat list \<Rightarrow> nat \<Rightarrow> nat run" where
  "count_unfiltered f n [] k = Return k"
| "count_unfiltered f n (ord # rest) k =
     run_bind (NthIP n ord) (\<lambda>ip. count_unfiltered f n rest (if MatchesIP f ip then k else k + 1))"

definition NumFreeAddresses :: "addrFilter \<Rightarrow> AllocationBlock \<Rightarrow> nat run" where
  "NumFreeAddresses reservations b =
     (if MatchesWholeCIDR reservations (CIDR b) then Return 0
      else if MatchesSome reservations (CIDR b) then count_unfiltered reservations (CIDR b) (Unallocated b) 0
      else Return (length (Unallocated b)))"

fun count_filtered :: "addrFilter \<Rightarrow> IPNet \<Rightarrow> nat list \<Rightarrow> int \<Rightarrow> int run" where
  "count_filtered f n [] k = Return k"
| "count_filtered f n (ord # rest) k =
     run_bind (NthIP n ord) (\<lambda>ip. count_filtered f n rest (if MatchesIP f ip then k + 1 else k))"

definition NumReservedAddresses :: "addrFilter \<Rightarrow> AllocationBlock \<Rightarrow> int run" where
  "NumReservedAddresses reservations b =
     (if MatchesWholeCIDR reservations (CIDR b) then Return (NumAddresses b)
      else if \<not> MatchesSome reservations (CIDR b) then Return 0
      else count_filtered reservations (CIDR b) [0..<nat (NumAddresses b)] 0)"

text \<open>\<open>toLower\<close> is \<^verbatim>\<open>strings.ToLower\<close>, on all of Unicode.\<close>

definition WindowsReservedHandle :: string where
  "WindowsReservedHandle = ''windows-reserved-ipam-handle''"

fun empty_loop :: "(string \<Rightarrow> string) \<Rightarrow> AllocationAttribute list \<Rightarrow> nat option list \<Rightarrow> bool run" where
  "empty_loop toLower attributes [] = Return True"
| "empty_loop toLower attributes (attrIdx # rest) =
     (case attrIdx of
        None \<Rightarrow> empty_loop toLower attributes rest
      | Some i \<Rightarrow>
          run_bind (at attributes i) (\<lambda>attrs.
            if (case HandleID attrs of None \<Rightarrow> True | Some h \<Rightarrow> toLower h \<noteq> WindowsReservedHandle)
            then Return False
            else empty_loop toLower attributes rest))"

definition block_empty :: "(string \<Rightarrow> string) \<Rightarrow> AllocationBlock \<Rightarrow> bool run" where
  "block_empty toLower b = empty_loop toLower (Attributes b) (Allocations b)"

fun in_use_loop :: "AllocationBlock \<Rightarrow> nat \<Rightarrow> nat option list \<Rightarrow> IP list run" where
  "in_use_loop b o' [] = Return []"
| "in_use_loop b o' (idx # rest) =
     (case idx of
        None \<Rightarrow> in_use_loop b (o' + 1) rest
      | Some _ \<Rightarrow> run_bind (OrdinalToIP b o') (\<lambda>ip. run_bind (in_use_loop b (o' + 1) rest) (\<lambda>ips. Return (ip # ips))))"

definition inUseIPs :: "AllocationBlock \<Rightarrow> IP list run" where
  "inUseIPs b = in_use_loop b 0 (Allocations b)"

fun by_handle_loop :: "AllocationBlock \<Rightarrow> nat list \<Rightarrow> nat list \<Rightarrow> IP list run" where
  "by_handle_loop b attrIndexes [] = Return []"
| "by_handle_loop b attrIndexes (o' # rest) =
     run_bind (at (Allocations b) o') (\<lambda>alloc.
       if (case alloc of Some i \<Rightarrow> intInSlice i attrIndexes | None \<Rightarrow> False)
       then run_bind (OrdinalToIP b o') (\<lambda>ip. run_bind (by_handle_loop b attrIndexes rest) (\<lambda>ips. Return (ip # ips)))
       else by_handle_loop b attrIndexes rest)"

definition ipsByHandle :: "AllocationBlock \<Rightarrow> string \<Rightarrow> IP list run" where
  "ipsByHandle b handleID =
     by_handle_loop b (attributeIndexesByHandle b handleID) [0..<nat (NumAddresses b)]"

section \<open>Releasing\<close>

text \<open>\<open>parseIP\<close> is \<^verbatim>\<open>net.ParseIP\<close>; \<^verbatim>\<open>MustParseIP\<close> panics where
  it fails.\<close>

record ReleaseOptions =
  Address :: string
  opt_Handle :: string
  opt_SequenceNumber :: "64 word option"

definition uniqueAddresses :: "ReleaseOptions list \<Rightarrow> string \<rightharpoonup> ReleaseOptions" where
  "uniqueAddresses addresses = fold (\<lambda>opt m. m(Address opt \<mapsto> opt)) addresses Map.empty"

definition attr_handle :: "AllocationAttribute \<Rightarrow> string" where
  "attr_handle attr = (case HandleID attr of Some h \<Rightarrow> sanitizeHandle h | None \<Rightarrow> [])"

definition count_handle :: "string \<Rightarrow> (string \<rightharpoonup> int) \<Rightarrow> string \<rightharpoonup> int" where
  "count_handle handleID counts =
     (if handleID \<noteq> [] then counts(handleID \<mapsto> (case counts handleID of Some k \<Rightarrow> k | None \<Rightarrow> 0) + 1) else counts)"

text \<open>One address of the request: it is skipped, or its ordinal and its handle are noted.\<close>

datatype release_outcome = Skipped IP | Noted nat string

definition sequence_conflict :: "AllocationBlock \<Rightarrow> ReleaseOptions \<Rightarrow> nat \<Rightarrow> ipam_error option" where
  "sequence_conflict b opts ordinal =
     (case opt_SequenceNumber opts of
        Some n \<Rightarrow>
          if n \<noteq> GetSequenceNumberForOrdinal b ordinal
          then Some (BadSequenceNumber (Address opts) n (GetSequenceNumberForOrdinal b ordinal))
          else None
      | None \<Rightarrow> None)"

definition release_one ::
  "(string \<Rightarrow> IP option) \<Rightarrow> AllocationBlock \<Rightarrow> string \<Rightarrow> ReleaseOptions \<Rightarrow> (ipam_error, release_outcome) result run" where
  "release_one parseIP b ipStr opts =
     (case parseIP ipStr of
        None \<Rightarrow> Panic
      | Some ip \<Rightarrow>
          (case IPToOrdinal b ip of
             Inl e \<Rightarrow> Return (Inl e)
           | Inr ordinal \<Rightarrow>
               (case sequence_conflict b opts ordinal of
                  Some e \<Rightarrow> Return (Inl e)
                | None \<Rightarrow>
                    run_bind (at (Allocations b) ordinal) (\<lambda>attrIdx.
                      case attrIdx of
                        None \<Rightarrow> Return (Inr (Skipped ip))
                      | Some i \<Rightarrow>
                          run_bind (at (Attributes b) i) (\<lambda>attr.
                            if ReleasedAt attr \<noteq> None then Return (Inr (Skipped ip))
                            else if opt_Handle opts \<noteq> [] \<and> attr_handle attr \<noteq> opt_Handle opts
                            then Return (Inl (BadHandle (Address opts) (opt_Handle opts) (attr_handle attr)))
                            else Return (Inr (Noted ordinal (attr_handle attr))))))))"

fun release_loop ::
  "(string \<Rightarrow> IP option) \<Rightarrow> AllocationBlock \<Rightarrow> (string \<rightharpoonup> ReleaseOptions) \<Rightarrow> string list
     \<Rightarrow> IP list \<times> (string \<rightharpoonup> int) \<times> nat list
     \<Rightarrow> (ipam_error, IP list \<times> (string \<rightharpoonup> int) \<times> nat list) result run" where
  "release_loop parseIP b uniq [] acc = Return (Inr acc)"
| "release_loop parseIP b uniq (ipStr # rest) acc =
     (case uniq ipStr of
        None \<Rightarrow> release_loop parseIP b uniq rest acc
      | Some opts \<Rightarrow>
          and_then (release_one parseIP b ipStr opts) (\<lambda>out.
            let (unallocated, counts, ordinals) = acc
            in case out of
                 Skipped ip \<Rightarrow> release_loop parseIP b uniq rest (unallocated @ [ip], counts, ordinals)
               | Noted ordinal handleID \<Rightarrow>
                   release_loop parseIP b uniq rest (unallocated, count_handle handleID counts, ordinals @ [ordinal])))"

text \<open>\<open>ks\<close> is the order in which the loop visits the addresses; \<open>now\<close> and \<open>now'\<close> are the readings of
  the clock for the release and for the garbage collection.\<close>

definition release ::
  "int \<Rightarrow> int \<Rightarrow> int \<Rightarrow> (string \<Rightarrow> IP option) \<Rightarrow> string list \<Rightarrow> ReleaseOptions list \<Rightarrow> AllocationBlock
     \<Rightarrow> ((ipam_error, IP list \<times> (string \<rightharpoonup> int)) result \<times> AllocationBlock) run" where
  "release now now' ipCooldownSeconds parseIP ks addresses b =
     run_bind (release_loop parseIP b (uniqueAddresses addresses) ks ([], Map.empty, []))
       (\<lambda>r. case r of
          Inl e \<Rightarrow> Return (Inl e, b)
        | Inr (unallocated, counts, ordinals) \<Rightarrow>
            if length ordinals = 0 then Return (Inr (unallocated, counts), b)
            else (let (releaseAttrIdx, b) = addCooldownAttribute now b
                  in run_bind (run_fold (\<lambda>ordinal b. run_bind (allocate releaseAttrIdx ordinal b)
                                (\<lambda>b. Return (SetSequenceNumberForOrdinal ordinal b))) ordinals b) (\<lambda>b.
                     run_bind (garbageCollect now' ipCooldownSeconds b) (\<lambda>(_, b).
                       Return (Inr (unallocated, counts), b)))))"

definition sequence_matches :: "ReleaseOptions \<Rightarrow> AllocationBlock \<Rightarrow> nat \<Rightarrow> bool" where
  "sequence_matches opts b o' =
     (case opt_SequenceNumber opts of None \<Rightarrow> True | Some n \<Rightarrow> n = GetSequenceNumberForOrdinal b o')"

definition by_handle_step ::
  "int \<Rightarrow> ReleaseOptions \<Rightarrow> nat list \<Rightarrow> nat \<Rightarrow> nat option \<times> nat \<times> AllocationBlock
     \<Rightarrow> (nat option \<times> nat \<times> AllocationBlock) run" where
  "by_handle_step now opts attrIndexes o' = (\<lambda>(releaseAttrIdx, releaseCount, b).
     run_bind (at (Allocations b) o') (\<lambda>alloc.
       case alloc of
         None \<Rightarrow> Return (releaseAttrIdx, releaseCount, b)
       | Some attrIndex \<Rightarrow>
           if intInSlice attrIndex attrIndexes \<and> sequence_matches opts b o'
           then (let (i, b) = (case releaseAttrIdx of Some i \<Rightarrow> (i, b) | None \<Rightarrow> addCooldownAttribute now b)
                 in run_bind (allocate i o' b) (\<lambda>b. Return (Some i, releaseCount + 1, b)))
           else Return (releaseAttrIdx, releaseCount, b)))"

definition releaseByHandle ::
  "int \<Rightarrow> int \<Rightarrow> int \<Rightarrow> ReleaseOptions \<Rightarrow> AllocationBlock \<Rightarrow> (nat \<times> AllocationBlock) run" where
  "releaseByHandle now now' ipCooldownSeconds opts b =
     (let attrIndexes = attributeIndexesByHandle b (opt_Handle opts)
      in if length attrIndexes = 0 then Return (0, b)
         else run_bind (run_fold (by_handle_step now opts attrIndexes) [0..<nat (NumAddresses b)] (None, 0, b))
                (\<lambda>(_, releaseCount, b).
                   run_bind (garbageCollect now' ipCooldownSeconds b) (\<lambda>(_, b). Return (releaseCount, b))))"

section \<open>Ownership\<close>

record AttributeOwner =
  owner_Namespace :: string
  owner_Name :: string

definition EmptyAttributeOwner :: AttributeOwner where
  "EmptyAttributeOwner = \<lparr>owner_Namespace = [], owner_Name = []\<rparr>"

definition AttributePod :: string where "AttributePod = ''pod''"
definition AttributeNamespace :: string where "AttributeNamespace = ''namespace''"

definition attrs_empty :: "owner_attrs \<Rightarrow> bool" where
  "attrs_empty attrs = (case attrs of None \<Rightarrow> True | Some m \<Rightarrow> m = Map.empty)"

definition Matches :: "AttributeOwner \<Rightarrow> owner_attrs \<Rightarrow> bool" where
  "Matches owner attrs =
     (if owner_Namespace owner = [] \<and> owner_Name owner = [] then attrs_empty attrs
      else case attrs of
             None \<Rightarrow> False
           | Some m \<Rightarrow>
               \<not> attrs_empty attrs \<and> m AttributePod = Some (owner_Name owner)
               \<and> m AttributeNamespace = Some (owner_Namespace owner))"

definition verifyExpectedOwner :: "owner_attrs \<Rightarrow> AttributeOwner option \<Rightarrow> IP \<Rightarrow> ipam_error option" where
  "verifyExpectedOwner currentAttrs expectedOwner ip =
     (case expectedOwner of
        None \<Rightarrow> None
      | Some owner \<Rightarrow> if Matches owner currentAttrs then None else Some (OwnerMismatch ip))"

record ownershipPreconditions =
  pre_handle :: string
  pre_activeOwner :: "AttributeOwner option"
  pre_alternateOwner :: "AttributeOwner option"

record ownershipUpdate =
  upd_handle :: "string option"
  upd_activeOwner :: owner_attrs
  clearActiveOwner :: bool
  upd_alternateOwner :: owner_attrs
  clearAlternateOwner :: bool

definition updated_owner :: "bool \<Rightarrow> owner_attrs \<Rightarrow> owner_attrs \<Rightarrow> owner_attrs" where
  "updated_owner clear upd current = (if clear then None else if upd \<noteq> None then upd else current)"

definition ownership_conflict ::
  "IP \<Rightarrow> ownershipPreconditions \<Rightarrow> AllocationAttribute \<Rightarrow> ipam_error option" where
  "ownership_conflict ip pre attr =
     (if pre_handle pre \<noteq> [] \<and> attr_handle attr \<noteq> pre_handle pre
      then Some (OwnerBadHandle ip (pre_handle pre) (attr_handle attr))
      else case verifyExpectedOwner (ActiveOwnerAttrs attr) (pre_activeOwner pre) ip of
             Some e \<Rightarrow> Some e
           | None \<Rightarrow> verifyExpectedOwner (AlternateOwnerAttrs attr) (pre_alternateOwner pre) ip)"

definition updateAllocationOwnership ::
  "int \<Rightarrow> int \<Rightarrow> IP \<Rightarrow> ownershipPreconditions \<Rightarrow> ownershipUpdate \<Rightarrow> AllocationBlock
     \<Rightarrow> ((ipam_error, string) result \<times> AllocationBlock) run" where
  "updateAllocationOwnership now ipCooldownSeconds ip pre update b =
     (case IPToOrdinal b ip of
        Inl e \<Rightarrow> Return (Inl e, b)
      | Inr ordinal \<Rightarrow>
          run_bind (at (Allocations b) ordinal) (\<lambda>attrIdx.
            case attrIdx of
              None \<Rightarrow> Return (Inl (NotAllocated ip), b)
            | Some i \<Rightarrow>
                run_bind (at (Attributes b) i) (\<lambda>attr.
                  if ReleasedAt attr \<noteq> None then Return (Inl (InCooldown ip), b)
                  else case ownership_conflict ip pre attr of
                         Some e \<Rightarrow> Return (Inl e, b)
                       | None \<Rightarrow>
                           (let fromHandle = attr_handle attr;
                                toHandle = (case upd_handle update of Some h \<Rightarrow> sanitizeHandle h | None \<Rightarrow> fromHandle);
                                activeOwner = updated_owner (clearActiveOwner update) (upd_activeOwner update) (ActiveOwnerAttrs attr);
                                alternateOwner = updated_owner (clearAlternateOwner update) (upd_alternateOwner update) (AlternateOwnerAttrs attr);
                                (newIdx, b) = findOrAddAttribute (Some toHandle) activeOwner alternateOwner b
                            in if newIdx = i then Return (Inr fromHandle, b)
                               else run_bind (allocate newIdx ordinal b) (\<lambda>b.
                                    run_bind (garbageCollect now ipCooldownSeconds (SetSequenceNumberForOrdinal ordinal b))
                                      (\<lambda>(_, b). Return (Inr fromHandle, b)))))))"

record MoveOptions =
  ToHandle :: string
  move_Attrs :: owner_attrs
  ExpectedOwner :: "AttributeOwner option"
  ExpectedHandle :: string

definition moveIPToHandle ::
  "int \<Rightarrow> int \<Rightarrow> IP \<Rightarrow> MoveOptions \<Rightarrow> AllocationBlock \<Rightarrow> ((ipam_error, string) result \<times> AllocationBlock) run" where
  "moveIPToHandle now cfg ip opts b =
     updateAllocationOwnership now cfg ip
       \<lparr>pre_handle = ExpectedHandle opts, pre_activeOwner = ExpectedOwner opts, pre_alternateOwner = None\<rparr>
       \<lparr>upd_handle = Some (ToHandle opts), upd_activeOwner = move_Attrs opts,
        clearActiveOwner = (move_Attrs opts = None), upd_alternateOwner = None, clearAlternateOwner = False\<rparr> b"

record OwnerAttributeUpdates =
  new_ActiveOwnerAttrs :: owner_attrs
  ClearActiveOwner :: bool
  new_AlternateOwnerAttrs :: owner_attrs
  ClearAlternateOwner :: bool

record OwnerAttributePreconditions =
  ExpectedActiveOwner :: "AttributeOwner option"
  VerifyActiveOwnerEmpty :: bool
  ExpectedAlternateOwner :: "AttributeOwner option"
  VerifyAlternateOwnerEmpty :: bool

definition expectedActiveOwner :: "OwnerAttributePreconditions option \<Rightarrow> AttributeOwner option" where
  "expectedActiveOwner p =
     (case p of None \<Rightarrow> None
      | Some p \<Rightarrow> if VerifyActiveOwnerEmpty p then Some EmptyAttributeOwner else ExpectedActiveOwner p)"

definition expectedAlternateOwner :: "OwnerAttributePreconditions option \<Rightarrow> AttributeOwner option" where
  "expectedAlternateOwner p =
     (case p of None \<Rightarrow> None
      | Some p \<Rightarrow> if VerifyAlternateOwnerEmpty p then Some EmptyAttributeOwner else ExpectedAlternateOwner p)"

definition setOwnerAttributes ::
  "int \<Rightarrow> int \<Rightarrow> IP \<Rightarrow> string \<Rightarrow> OwnerAttributeUpdates \<Rightarrow> OwnerAttributePreconditions option \<Rightarrow> AllocationBlock
     \<Rightarrow> (ipam_error option \<times> AllocationBlock) run" where
  "setOwnerAttributes now cfg ip handleID updates preconditions b =
     (case IPToOrdinal b ip of
        Inl e \<Rightarrow> Return (Some e, b)
      | Inr ordinal \<Rightarrow>
          run_bind (at (Allocations b) ordinal) (\<lambda>attrIndex.
            case attrIndex of
              None \<Rightarrow> Return (Some (NotAllocated ip), b)
            | Some i \<Rightarrow>
                run_bind (at (Attributes b) i) (\<lambda>attr.
                  if (case HandleID attr of None \<Rightarrow> True | Some h \<Rightarrow> sanitizeHandle h \<noteq> handleID)
                  then Return (Some (NotAssignedToHandle ip handleID), b)
                  else (let pre = \<lparr>pre_handle = [],
                                   pre_activeOwner = (if new_ActiveOwnerAttrs updates \<noteq> None \<or> ClearActiveOwner updates
                                                      then expectedActiveOwner preconditions else None),
                                   pre_alternateOwner = (if new_AlternateOwnerAttrs updates \<noteq> None \<or> ClearAlternateOwner updates
                                                         then expectedAlternateOwner preconditions else None)\<rparr>
                        in run_bind (updateAllocationOwnership now cfg ip pre
                              \<lparr>upd_handle = None, upd_activeOwner = new_ActiveOwnerAttrs updates,
                               clearActiveOwner = ClearActiveOwner updates,
                               upd_alternateOwner = new_AlternateOwnerAttrs updates,
                               clearAlternateOwner = ClearAlternateOwner updates\<rparr> b)
                              (\<lambda>(r, b). Return (case r of Inl e \<Rightarrow> Some e | Inr _ \<Rightarrow> None, b))))))"

definition allocationAttributesForIP ::
  "IP \<Rightarrow> AllocationBlock \<Rightarrow> (ipam_error, AllocationAttribute) result run" where
  "allocationAttributesForIP ip b =
     (case IPToOrdinal b ip of
        Inl e \<Rightarrow> Return (Inl e)
      | Inr ordinal \<Rightarrow>
          run_bind (at (Allocations b) ordinal) (\<lambda>attrIndex.
            case attrIndex of
              None \<Rightarrow> Return (Inl (NotAllocated ip))
            | Some i \<Rightarrow>
                run_bind (at (Attributes b) i) (\<lambda>attr.
                  if ReleasedAt attr \<noteq> None then Return (Inl (InCooldown ip))
                  else Return (Inr \<lparr>HandleID = map_option sanitizeHandle (HandleID attr),
                                    ActiveOwnerAttrs = ActiveOwnerAttrs attr,
                                    AlternateOwnerAttrs = AlternateOwnerAttrs attr, ReleasedAt = None\<rparr>))))"

section \<open>Finding the block of an address\<close>

definition mask_ip :: "nat \<Rightarrow> IP \<Rightarrow> IP" where
  "mask_ip z ip = (case ip of V4 a \<Rightarrow> V4 (a AND NOT (mask z)) | V6 a \<Rightarrow> V6 (a AND NOT (mask z)))"

definition getBlockCIDRForAddress :: "IP \<Rightarrow> nat \<Rightarrow> IPNet" where
  "getBlockCIDRForAddress addr blockSize =
     \<lparr>net_IP = mask_ip (ip_bits addr - blockSize) addr, ones = blockSize\<rparr>"

definition largerThanOrEqualToBlock :: "IPNet \<Rightarrow> nat \<Rightarrow> bool" where
  "largerThanOrEqualToBlock blockCIDR blockSize \<longleftrightarrow> ones blockCIDR \<le> blockSize"

end
