(* ===== verification/IPAM_Alloc.thy ===== *)
theory IPAM_Alloc
  imports IPAM_Block
begin

text \<open>
  The correctness of the allocation blocks. The invariant says that the free queue holds exactly
  the ordinals without an allocation, each once, and that every allocation has its attributes.
  The abstract state of a block is the attribute of each ordinal; each operation is described by
  what it does to that map, and no operation panics on a block that satisfies the invariant.
\<close>

section \<open>The size of a block\<close>

text \<open>A network that can be a block: its address is the first of its range and its size fits in
  the 64-bit integers.\<close>

definition cidr_ok :: "IPNet \<Rightarrow> bool" where
  "cidr_ok n \<longleftrightarrow> net_ok n \<and> zeros n < 63 \<and> IPToBigInt (net_IP n) mod 2 ^ zeros n = 0"

definition net_size :: "IPNet \<Rightarrow> nat" where
  "net_size n = 2 ^ zeros n"

lemma sint_small: "0 \<le> x \<Longrightarrow> x < 2 ^ 63 \<Longrightarrow> sint (word_of_int x :: 64 word) = x"
  by (simp add: signed_of_int signed_take_bit_int_eq_self)

lemma net_addresses_ok:
  assumes "zeros n < 63"
  shows "net_addresses n = int (net_size n)"
proof -
  have "(2 :: int) ^ zeros n < 2 ^ 63" using assms by (intro power_strict_increasing) simp_all
  with sint_small [of "2 ^ zeros n"] show ?thesis
    by (simp add: net_addresses_def net_size_def push_bit_eq_mult)
qed

text \<open>The address of an ordinal.\<close>

definition nth_ip :: "IPNet \<Rightarrow> nat \<Rightarrow> IP" where
  "nth_ip n i = ip_like (net_IP n) (IPToBigInt (net_IP n) + int i)"

lemma nth_ip_ok:
  assumes "cidr_ok n" and "i < net_size n"
  shows "NthIP n i = Return (nth_ip n i)" and "IPToBigInt (nth_ip n i) = IPToBigInt (net_IP n) + int i"
    and "Version (nth_ip n i) = Version (net_IP n)" and "Contains n (nth_ip n i)"
proof -
  let ?b = "IPToBigInt (net_IP n)"
  have z: "?b mod 2 ^ zeros n = 0" "net_ok n" using assms(1) by (simp_all add: cidr_ok_def)
  have i: "int i < 2 ^ zeros n" using assms(2) by (simp add: net_size_def flip: of_nat_less_iff)
  have base: "?b div 2 ^ zeros n * 2 ^ zeros n = ?b" using z(1) by (simp add: dvd_div_mult_self mod_eq_0_iff_dvd)
  have "?b + 2 ^ zeros n \<le> 2 ^ ip_bits (net_IP n)" using net_top [of n] base z(2) by (simp add: net_ok_def)
  then have lt: "?b + int i < 2 ^ ip_bits (net_IP n)" "0 \<le> ?b"
    using i IPToBigInt_bounds [of "net_IP n"] by linarith+
  with ip_like [of "?b + int i" "net_IP n"]
  show num: "IPToBigInt (nth_ip n i) = ?b + int i" and v: "Version (nth_ip n i) = Version (net_IP n)"
    and "NthIP n i = Return (nth_ip n i)"
    by (simp_all add: nth_ip_def NthIP_def IncrementIP_def)
  have "(?b + int i) div 2 ^ zeros n = ?b div 2 ^ zeros n"
    using i div_eq_interval [of "2 ^ zeros n" "?b + int i" "?b div 2 ^ zeros n", unfolded base] by simp
  with num v show "Contains n (nth_ip n i)" by (simp add: Contains_iff)
qed

section \<open>The invariant\<close>

definition size_of :: "AllocationBlock \<Rightarrow> nat" where
  "size_of b = net_size (CIDR b)"

definition block_inv :: "AllocationBlock \<Rightarrow> bool" where
  "block_inv b \<longleftrightarrow> cidr_ok (CIDR b) \<and> length (Allocations b) = size_of b
     \<and> distinct (Unallocated b)
     \<and> (\<forall>o'. o' \<in> set (Unallocated b) \<longleftrightarrow> o' < size_of b \<and> Allocations b ! o' = None)
     \<and> (\<forall>o' i. o' < size_of b \<longrightarrow> Allocations b ! o' = Some i \<longrightarrow> i < length (Attributes b))"

lemma block_invD:
  assumes "block_inv b"
  shows "cidr_ok (CIDR b)" and "length (Allocations b) = size_of b" and "distinct (Unallocated b)"
    and "o' \<in> set (Unallocated b) \<longleftrightarrow> o' < size_of b \<and> Allocations b ! o' = None"
    and "o' < size_of b \<Longrightarrow> Allocations b ! o' = Some i \<Longrightarrow> i < length (Attributes b)"
  using assms by (auto simp: block_inv_def)

text \<open>The attribute of an ordinal: the abstract state of a block.\<close>

definition attr_at :: "AllocationBlock \<Rightarrow> nat \<rightharpoonup> AllocationAttribute" where
  "attr_at b o' =
     (if o' < size_of b then map_option (\<lambda>i. Attributes b ! i) (Allocations b ! o') else None)"

lemma block_addresses: "block_inv b \<Longrightarrow> NumAddresses b = int (size_of b)"
  by (simp add: block_inv_def cidr_ok_def NumAddresses_def size_of_def net_addresses_ok)

lemma block_ordinal_ip:
  assumes "block_inv b" and "o' < size_of b"
  shows "OrdinalToIP b o' = Return (nth_ip (CIDR b) o')" and "IPToOrdinal b (nth_ip (CIDR b) o') = Inr o'"
proof -
  note ok = nth_ip_ok [OF block_invD(1) [OF assms(1)], of o']
  show "OrdinalToIP b o' = Return (nth_ip (CIDR b) o')"
    using ok(1) assms(2) by (simp add: OrdinalToIP_def size_of_def)
  have "zeros (CIDR b) < 63" using block_invD(1) [OF assms(1)] by (simp add: cidr_ok_def)
  then have "(2 :: int) ^ zeros (CIDR b) < 2 ^ 63" by (intro power_strict_increasing) simp_all
  moreover have "int o' < 2 ^ zeros (CIDR b)" using assms(2) by (simp add: size_of_def net_size_def flip: of_nat_less_iff)
  ultimately have "int o' < 2 ^ 63" by (rule order.strict_trans [rotated])
  then have "sint (word_of_int (int o') :: 64 word) = int o'" by (intro sint_small of_nat_0_le_iff)
  with ok(2) assms(2) block_addresses [OF assms(1)] show "IPToOrdinal b (nth_ip (CIDR b) o') = Inr o'"
    by (simp add: IPToOrdinal_def Let_def size_of_def)
qed

lemma IPToOrdinal_bound: "IPToOrdinal b ip = Inr o' \<Longrightarrow> block_inv b \<Longrightarrow> o' < size_of b"
  using block_addresses [of b] by (auto simp: IPToOrdinal_def Let_def split: if_splits)

section \<open>A new block\<close>

lemma length_fold_update [simp]: "length (fold (\<lambda>i a. a[g i := x]) is xs) = length xs"
  by (induction "is" arbitrary: xs) simp_all

lemma nth_fold_update:
  "j < length xs \<Longrightarrow> fold (\<lambda>i a. a[g i := x]) is xs ! j = (if j \<in> g ` set is then x else xs ! j)"
  by (induction "is" arbitrary: xs) (auto simp: nth_list_update)

lemma newBlock_inv:
  assumes "cidr_ok cidr"
    and "\<forall>r. rsvd = Some r \<longrightarrow> 0 \<le> StartOfBlock r \<and> 0 \<le> EndOfBlock r \<and> StartOfBlock r + EndOfBlock r \<le> int (net_size cidr)"
  shows "\<exists>b. newBlock now cidr rsvd = Return b \<and> block_inv b \<and> CIDR b = cidr"
proof (cases rsvd)
  case None
  with assms(1) show ?thesis
    by (auto simp: newBlock_def Let_def net_addresses_ok cidr_ok_def block_inv_def size_of_def)
next
  case (Some r)
  define s where "s = nat (StartOfBlock r)"
  define e where "e = nat (EndOfBlock r)"
  have se: "StartOfBlock r = int s" "EndOfBlock r = int e" "s + e \<le> net_size cidr"
    using assms(2) Some by (auto simp: s_def e_def)
  let ?n = "net_size cidr"
  have free: "drop s (take (?n - e) [0..<?n]) = [s..<?n - e]"
    using se(3) by (simp add: take_upt drop_upt)
  define allocs where "allocs = fold (\<lambda>i a. a[?n - i := Some (0 :: nat)]) [Suc 0..<Suc e]
      (fold (\<lambda>i a. a[i := Some 0]) [0..<s] (replicate ?n None))"
  have len: "length allocs = ?n" by (simp add: allocs_def del: upt_Suc)
  have "j \<in> (-) ?n ` set [Suc 0..<Suc e]" if "?n - e \<le> j" "j < ?n" for j
    using that se(3) by (intro image_eqI [of _ _ "?n - j"]) auto
  then have img: "j \<in> (-) ?n ` set [Suc 0..<Suc e] \<longleftrightarrow> ?n - e \<le> j" if "j < ?n" for j
    using that se(3) by (auto simp del: upt_Suc)
  have "allocs ! j = (if s \<le> j \<and> j < ?n - e then None else Some 0)" if "j < ?n" for j
    using that img [OF that] nth_fold_update [of j _ "(-) ?n" "Some (0 :: nat)" "[Suc 0..<Suc e]"]
      nth_fold_update [of j _ "\<lambda>i. i" "Some (0 :: nat)" "[0..<s]"]
    by (auto simp: allocs_def simp del: upt_Suc)
  with len assms(1) se Some free show ?thesis
    by (auto simp: newBlock_def reserve_host_def net_addresses_ok cidr_ok_def block_inv_def size_of_def Let_def
        allocs_def [symmetric] simp del: upt_Suc split: if_splits)
qed

section \<open>Attributes\<close>

definition plain_attr :: "string option \<Rightarrow> owner_attrs \<Rightarrow> owner_attrs \<Rightarrow> AllocationAttribute" where
  "plain_attr handleID attrs alternateAttrs =
     \<lparr>HandleID = handleID, ActiveOwnerAttrs = attrs, AlternateOwnerAttrs = alternateAttrs, ReleasedAt = None\<rparr>"

lemma find_attribute_Some:
  "find_attribute attr k xs = Some i \<Longrightarrow> k \<le> i \<and> i - k < length xs \<and> xs ! (i - k) = attr"
proof (induction attr k xs rule: find_attribute.induct)
  case (2 attr k x xs)
  show ?case
  proof (cases "attr = x")
    case False
    with 2 have "k + 1 \<le> i \<and> i - (k + 1) < length xs \<and> xs ! (i - (k + 1)) = attr" by simp
    moreover from this have "i - k = Suc (i - (k + 1))" by linarith
    ultimately show ?thesis by simp
  qed (use 2 in simp)
qed simp

text \<open>The block \<open>b'\<close> is the block \<open>b\<close> with more attributes.\<close>

definition more_attributes :: "AllocationBlock \<Rightarrow> AllocationBlock \<Rightarrow> bool" where
  "more_attributes b b' \<longleftrightarrow> (\<exists>xs. b' = b\<lparr>Attributes := Attributes b @ xs\<rparr>)"

lemma findOrAddAttribute_spec:
  assumes "findOrAddAttribute h a alt b = (i, b')"
  shows "i < length (Attributes b')" and "Attributes b' ! i = plain_attr h a alt" and "more_attributes b b'"
proof -
  have "i < length (Attributes b') \<and> Attributes b' ! i = plain_attr h a alt \<and> more_attributes b b'"
  proof (cases "find_attribute (plain_attr h a alt) 0 (Attributes b)")
    case None
    with assms show ?thesis by (auto simp: findOrAddAttribute_def plain_attr_def Let_def more_attributes_def)
  next
    case (Some j)
    with assms find_attribute_Some [OF Some] show ?thesis
      by (auto simp: findOrAddAttribute_def plain_attr_def Let_def more_attributes_def intro!: exI [of _ "[]"])
  qed
  then show "i < length (Attributes b')" "Attributes b' ! i = plain_attr h a alt" "more_attributes b b'"
    by simp_all
qed

lemma more_attributes_simps:
  assumes "more_attributes b b'"
  shows "CIDR b' = CIDR b" and "Allocations b' = Allocations b" and "Unallocated b' = Unallocated b"
    and "SequenceNumber b' = SequenceNumber b" and "SequenceNumberForAllocation b' = SequenceNumberForAllocation b"
    and "Affinity b' = Affinity b" and "size_of b' = size_of b"
  using assms by (auto simp: more_attributes_def size_of_def)

lemma more_attributes_inv:
  assumes "block_inv b" and "more_attributes b b'"
  shows "block_inv b'" and "attr_at b' = attr_at b"
proof -
  obtain xs where b': "b' = b\<lparr>Attributes := Attributes b @ xs\<rparr>" using assms(2) by (auto simp: more_attributes_def)
  have "i < length (Attributes b @ xs)" if "o' < size_of b" "Allocations b ! o' = Some i" for o' i
    using block_invD(5) [OF assms(1) that] by simp
  with assms(1) show "block_inv b'" by (auto simp: b' block_inv_def size_of_def)
  show "attr_at b' = attr_at b"
  proof
    fix x
    show "attr_at b' x = attr_at b x"
      using block_invD(5) [OF assms(1), of x]
      by (cases "Allocations b ! x") (simp_all add: b' attr_at_def size_of_def nth_append)
  qed
qed

section \<open>Pointing ordinals at an attribute\<close>

definition give :: "nat \<Rightarrow> nat \<Rightarrow> AllocationBlock \<Rightarrow> AllocationBlock" where
  "give i o' b = SetSequenceNumberForOrdinal o' (b\<lparr>Allocations := (Allocations b)[o' := Some i]\<rparr>)"

lemma give_simps [simp]:
  "CIDR (give i o' b) = CIDR b" "Attributes (give i o' b) = Attributes b" "Unallocated (give i o' b) = Unallocated b"
  "Allocations (give i o' b) = (Allocations b)[o' := Some i]" "SequenceNumber (give i o' b) = SequenceNumber b"
  "SequenceNumberForAllocation (give i o' b) = (SequenceNumberForAllocation b)(o' \<mapsto> SequenceNumber b)"
  "size_of (give i o' b) = size_of b"
  by (simp_all add: give_def SetSequenceNumberForOrdinal_def size_of_def)

lemma fold_give:
  "CIDR (fold (give i) os b) = CIDR b" "Attributes (fold (give i) os b) = Attributes b"
  "Unallocated (fold (give i) os b) = Unallocated b" "SequenceNumber (fold (give i) os b) = SequenceNumber b"
  "length (Allocations (fold (give i) os b)) = length (Allocations b)" "size_of (fold (give i) os b) = size_of b"
  "o' < length (Allocations b) \<Longrightarrow>
     Allocations (fold (give i) os b) ! o' = (if o' \<in> set os then Some i else Allocations b ! o')"
  "SequenceNumberForAllocation (fold (give i) os b) o'
     = (if o' \<in> set os then Some (SequenceNumber b) else SequenceNumberForAllocation b o')"
  by (induction os arbitrary: b) (auto simp: nth_list_update)

lemma attr_at_fold_give:
  assumes "block_inv b" and "i < length (Attributes b)" and "set os \<subseteq> {..<size_of b}"
  shows "attr_at (fold (give i) os b) o' = (if o' \<in> set os then Some (Attributes b ! i) else attr_at b o')"
  using assms block_invD(2) [OF assms(1)] by (auto simp: attr_at_def fold_give)

lemma fold_give_inv:
  assumes "block_inv b" and "i < length (Attributes b)" and "set os \<subseteq> {..<size_of b}"
  shows "block_inv ((fold (give i) os b)\<lparr>Unallocated := filter (\<lambda>x. x \<notin> set os) (Unallocated b)\<rparr>)"
  using assms block_invD(1,2,3,5) [OF assms(1)] block_invD(4) [OF assms(1)]
  by (auto simp: block_inv_def fold_give size_of_def [of "_\<lparr>Unallocated := _\<rparr>"] size_of_def [symmetric]
      split: if_splits)

section \<open>Automatic assignment\<close>

definition usable :: "addrFilter \<Rightarrow> IPNet \<Rightarrow> nat \<Rightarrow> bool" where
  "usable f n o' \<longleftrightarrow> \<not> MatchesIP f (nth_ip n o')"

definition ordinal_net :: "IPNet \<Rightarrow> nat \<Rightarrow> IPNet" where
  "ordinal_net n o' = \<lparr>net_IP = nth_ip n o', ones = ones n\<rparr>"

text \<open>The ordinals that are handed out: the first usable ones of the queue.\<close>

definition chosen :: "int \<Rightarrow> addrFilter \<Rightarrow> IPNet \<Rightarrow> nat list \<Rightarrow> nat list" where
  "chosen k f n os = take (nat k) (filter (usable f n) os)"

lemma chosen_in: "x \<in> set (chosen k f n os) \<Longrightarrow> x \<in> set os \<and> usable f n x"
  by (auto simp: chosen_def dest: in_set_takeD)

lemma filter_not_chosen: "x \<notin> set os \<Longrightarrow> filter (\<lambda>y. y \<noteq> x \<and> P y) os = filter P os"
  by (rule filter_cong) auto

lemma auto_loop_eq:
  assumes "cidr_ok (CIDR b)" and "length (Allocations b) = size_of b" and "set os \<subseteq> {..<size_of b}" and "distinct os"
    and "(case ptr of Some i \<Rightarrow> (i, b) | None \<Rightarrow> findOrAddAttribute h a None b) = (i, b1)"
    and "ch = chosen (num - int (length ips)) f (CIDR b) os"
  shows "auto_loop num h a f os ips upd ptr b
    = Return (ips @ map (ordinal_net (CIDR b)) ch, upd @ filter (\<lambda>x. x \<notin> set ch) os,
        if ch = [] then b else fold (give i) ch b1)"
  using assms
proof (induction os arbitrary: ips upd ptr b i b1 ch)
  case Nil
  then show ?case by (simp add: chosen_def)
next
  case (Cons x os)
  have ip: "OrdinalToIP b x = Return (nth_ip (CIDR b) x)"
    using nth_ip_ok(1) [OF Cons.prems(1), of x] Cons.prems(3) by (simp add: OrdinalToIP_def size_of_def)
  consider (full) "int (length ips) \<ge> num" | (reserved) "\<not> int (length ips) \<ge> num" "\<not> usable f (CIDR b) x"
    | (free) "\<not> int (length ips) \<ge> num" "usable f (CIDR b) x" by blast
  then show ?case
  proof cases
    case full
    then show ?thesis by (simp add: Cons.prems(6) chosen_def)
  next
    case reserved
    then have ch: "ch = chosen (num - int (length ips)) f (CIDR b) os"
      by (simp add: Cons.prems(6) chosen_def)
    have "x \<notin> set ch" using Cons.prems(4) by (auto simp: ch dest: chosen_in)
    with reserved ip Cons.IH [OF Cons.prems(1,2) _ _ Cons.prems(5) ch, of "upd @ [x]"] Cons.prems(3,4)
    show ?thesis by (simp add: usable_def)
  next
    case free
    define ch' where "ch' = chosen (num - int (length (ips @ [ordinal_net (CIDR b) x]))) f (CIDR b) os"
    have "nat (num - int (length ips)) = Suc (nat (num - int (length (ips @ [ordinal_net (CIDR b) x]))))"
      using free(1) by simp
    then have ch: "ch = x # ch'" using free(2) by (simp add: Cons.prems(6) ch'_def chosen_def)
    have b1: "CIDR b1 = CIDR b" "Allocations b1 = Allocations b" "size_of b1 = size_of b"
      using Cons.prems(5) more_attributes_simps [OF findOrAddAttribute_spec(3)] by (auto split: option.splits)
    have IH: "auto_loop num h a f os (ips @ [ordinal_net (CIDR b) x]) upd (Some i) (give i x b1)
        = Return ((ips @ [ordinal_net (CIDR b) x]) @ map (ordinal_net (CIDR (give i x b1))) ch', upd @ filter (\<lambda>y. y \<notin> set ch') os,
            if ch' = [] then give i x b1 else fold (give i) ch' (give i x b1))"
      using Cons.prems b1 by (intro Cons.IH) (simp_all add: ch'_def)
    have give: "SetSequenceNumberForOrdinal x (b1\<lparr>Allocations := (Allocations b)[x := Some i]\<rparr>) = give i x b1"
      using b1(2) by (simp add: give_def)
    have "x \<notin> set ch'" using Cons.prems(4) by (auto simp: ch'_def dest: chosen_in)
    with free IH Cons.prems(2,3,4,5) b1 ip show ?thesis
      by (auto simp: ch usable_def filter_not_chosen allocate_def give simp flip: ordinal_net_def)
  qed
qed

lemma autoAssign_eq:
  assumes "block_inv b" and "affinity_error chk cfg b = None"
    and "findOrAddAttribute h a None b = (i, b1)" and "ch = chosen num f (CIDR b) (Unallocated b)"
  shows "autoAssign num h cfg a chk f b =
    Return (Inr (map (ordinal_net (CIDR b)) ch),
      (if ch = [] then b else fold (give i) ch b1)\<lparr>Unallocated := filter (\<lambda>x. x \<notin> set ch) (Unallocated b)\<rparr>)"
proof -
  have "set (Unallocated b) \<subseteq> {..<size_of b}" using block_invD(4) [OF assms(1)] by auto
  with auto_loop_eq [where b = b and os = "Unallocated b" and ptr = None and h = h and a = a and i = i and ?b1.0 = b1
      and ch = ch and num = num and ips = "[]" and f = f and upd = "[]"] assms block_invD(1,2,3) [OF assms(1)]
  show ?thesis by (simp add: autoAssign_def)
qed

lemma unallocated_irrelevant [simp]:
  "attr_at (b\<lparr>Unallocated := us\<rparr>) = attr_at b" "size_of (b\<lparr>Unallocated := us\<rparr>) = size_of b"
  by (simp_all add: attr_at_def fun_eq_iff size_of_def)

lemma autoAssign_spec:
  assumes "block_inv b" and "affinity_error chk cfg b = None"
    and "ch = chosen num f (CIDR b) (Unallocated b)"
  shows "\<exists>b'. autoAssign num h cfg a chk f b = Return (Inr (map (ordinal_net (CIDR b)) ch), b')
    \<and> block_inv b' \<and> CIDR b' = CIDR b
    \<and> Unallocated b' = filter (\<lambda>x. x \<notin> set ch) (Unallocated b)
    \<and> attr_at b' = (\<lambda>o'. if o' \<in> set ch then Some (plain_attr h a None) else attr_at b o')
    \<and> (\<forall>o' \<in> set ch. GetSequenceNumberForOrdinal b' o' = SequenceNumber b)"
proof (cases "ch = []")
  case True
  obtain i b1 where fa: "findOrAddAttribute h a None b = (i, b1)" by (cases "findOrAddAttribute h a None b")
  from autoAssign_eq [OF assms(1,2) fa assms(3)] True assms(1) show ?thesis by (simp add: fun_eq_iff)
next
  case False
  obtain i b1 where fa: "findOrAddAttribute h a None b = (i, b1)" by (cases "findOrAddAttribute h a None b")
  note spec = findOrAddAttribute_spec [OF fa]
  note same = more_attributes_simps [OF spec(3)]
  note inv1 = more_attributes_inv [OF assms(1) spec(3)]
  have sub: "set ch \<subseteq> {..<size_of b1}"
    using block_invD(4) [OF assms(1)] same(7) by (auto simp: assms(3) dest: chosen_in)
  let ?b' = "(fold (give i) ch b1)\<lparr>Unallocated := filter (\<lambda>x. x \<notin> set ch) (Unallocated b1)\<rparr>"
  have "block_inv ?b'" using fold_give_inv [OF inv1(1) spec(1) sub] .
  moreover have "attr_at ?b' = (\<lambda>o'. if o' \<in> set ch then Some (plain_attr h a None) else attr_at b o')"
    using attr_at_fold_give [OF inv1(1) spec(1) sub] inv1(2) spec(2) by (simp add: fun_eq_iff)
  moreover have "GetSequenceNumberForOrdinal ?b' o' = SequenceNumber b" if "o' \<in> set ch" for o'
    using that same by (simp add: GetSequenceNumberForOrdinal_def fold_give)
  ultimately show ?thesis
    using autoAssign_eq [OF assms(1,2) fa assms(3)] False same by (simp add: fold_give)
qed

section \<open>Assigning one address\<close>

lemma assign_taken:
  assumes "block_inv b" and "affinity_error chk cfg b = None" and "IPToOrdinal b ip = Inr o'" and "attr_at b o' \<noteq> None"
  shows "\<exists>b'. assign chk ip h a cfg b = Return (Some (AlreadyAssigned ip), b') \<and> block_inv b' \<and> attr_at b' = attr_at b
    \<and> CIDR b' = CIDR b"
proof -
  have o': "o' < size_of b" using IPToOrdinal_bound [OF assms(3,1)] .
  have seq: "block_inv (SetSequenceNumberForOrdinal o' b)" "attr_at (SetSequenceNumberForOrdinal o' b) = attr_at b"
    using assms(1) by (simp_all add: block_inv_def SetSequenceNumberForOrdinal_def attr_at_def fun_eq_iff size_of_def)
  from assms(4) o' have "Allocations b ! o' \<noteq> None" by (auto simp: attr_at_def)
  with seq o' assms(2,3) block_invD(2) [OF assms(1)] show ?thesis
    by (simp add: assign_def Let_def SetSequenceNumberForOrdinal_def)
qed

lemma assign_free:
  assumes "block_inv b" and "affinity_error chk cfg b = None" and "IPToOrdinal b ip = Inr o'" and "attr_at b o' = None"
  shows "\<exists>b'. assign chk ip h a cfg b = Return (None, b') \<and> block_inv b' \<and> CIDR b' = CIDR b
    \<and> attr_at b' = (attr_at b)(o' \<mapsto> plain_attr h a None) \<and> Unallocated b' = remove1 o' (Unallocated b)
    \<and> GetSequenceNumberForOrdinal b' o' = SequenceNumber b"
proof -
  have o': "o' < size_of b" using IPToOrdinal_bound [OF assms(3,1)] .
  let ?b0 = "SetSequenceNumberForOrdinal o' b"
  obtain i b1 where fa: "findOrAddAttribute h a None ?b0 = (i, b1)" by (cases "findOrAddAttribute h a None ?b0")
  note spec = findOrAddAttribute_spec [OF fa]
  note same = more_attributes_simps [OF spec(3)]
  have seq: "block_inv ?b0" "attr_at ?b0 = attr_at b" "size_of ?b0 = size_of b" "Allocations ?b0 = Allocations b"
    "Unallocated ?b0 = Unallocated b" "CIDR ?b0 = CIDR b" "SequenceNumber ?b0 = SequenceNumber b"
    using assms(1) by (simp_all add: block_inv_def SetSequenceNumberForOrdinal_def attr_at_def fun_eq_iff size_of_def)
  note inv1 = more_attributes_inv [OF seq(1) spec(3)]
  have free: "Allocations b ! o' = None" "length (Allocations b) = size_of b"
    using assms(4) o' block_invD(2) [OF assms(1)] by (auto simp: attr_at_def)
  have sub: "set [o'] \<subseteq> {..<size_of b1}" using o' same(7) seq(3) by simp
  let ?b' = "b1\<lparr>Allocations := (Allocations b1)[o' := Some i], Unallocated := remove1 o' (Unallocated b1)\<rparr>"
  have rem: "remove1 o' (Unallocated b1) = filter (\<lambda>x. x \<notin> set [o']) (Unallocated b1)"
    using block_invD(3) [OF inv1(1)] by (auto simp: distinct_remove1_removeAll removeAll_filter_not_eq intro: filter_cong)
  have give: "?b' = (fold (give i) [o'] b1)\<lparr>Unallocated := filter (\<lambda>x. x \<notin> set [o']) (Unallocated b1)\<rparr>"
    using same(4,5) rem by (cases b1) (simp add: give_def SetSequenceNumberForOrdinal_def)
  have "block_inv ?b'" unfolding give by (rule fold_give_inv [OF inv1(1) spec(1) sub])
  moreover have "attr_at ?b' = (attr_at b)(o' \<mapsto> plain_attr h a None)"
    unfolding give using attr_at_fold_give [OF inv1(1) spec(1) sub] inv1(2) spec(2) seq(2) by (simp add: fun_eq_iff)
  moreover have "GetSequenceNumberForOrdinal ?b' o' = SequenceNumber b"
    using same(5) by (simp add: GetSequenceNumberForOrdinal_def SetSequenceNumberForOrdinal_def)
  moreover have "assign chk ip h a cfg b = Return (None, ?b')"
    using assms(2,3) fa free o' seq same by (simp add: assign_def Let_def allocate_def)
  ultimately show ?thesis using same seq by (intro exI [of _ ?b']) simp
qed

end
