(* ===== verification/IPAM_Release.thy ===== *)
theory IPAM_Release
  imports IPAM_Alloc
begin

text \<open>
  Releasing addresses: garbage collection, release by address and by handle, and the changes of
  ownership, with the invariant of \<open>IPAM_Alloc\<close> and the same abstract state.
\<close>

section \<open>Garbage collection\<close>

definition expired :: "int \<Rightarrow> int \<Rightarrow> AllocationBlock \<Rightarrow> nat \<Rightarrow> bool" where
  "expired now cd b o' \<longleftrightarrow> (case attr_at b o' of None \<Rightarrow> False | Some a \<Rightarrow> deallocatable now cd a)"

text \<open>After the ordinals below \<open>k\<close> the first loop has given up the expired ones.\<close>

definition gc_progress ::
  "int \<Rightarrow> int \<Rightarrow> AllocationBlock \<Rightarrow> nat \<Rightarrow> bool \<times> nat set \<times> AllocationBlock \<Rightarrow> bool" where
  "gc_progress now cd b k = (\<lambda>(changed, used, b').
     CIDR b' = CIDR b \<and> Attributes b' = Attributes b \<and> SequenceNumber b' = SequenceNumber b
     \<and> Affinity b' = Affinity b \<and> Deleted b' = Deleted b \<and> length (Allocations b') = size_of b
     \<and> (\<forall>o' < size_of b. Allocations b' ! o' = (if o' < k \<and> expired now cd b o' then None else Allocations b ! o'))
     \<and> Unallocated b' = Unallocated b @ filter (expired now cd b) [0..<k]
     \<and> (\<forall>o'. SequenceNumberForAllocation b' o'
           = (if o' < k \<and> expired now cd b o' then None else SequenceNumberForAllocation b o'))
     \<and> used = {i. \<exists>o' < k. Allocations b ! o' = Some i \<and> \<not> expired now cd b o'}
     \<and> (changed \<longleftrightarrow> (\<exists>o' < k. expired now cd b o')))"

lemma gc_step_progress:
  assumes "block_inv b" and "k < size_of b" and "gc_progress now cd b k s"
  shows "\<exists>s'. gc_step now cd k s = Return s' \<and> gc_progress now cd b (Suc k) s'"
proof -
  obtain changed used b' where s: "s = (changed, used, b')" by (cases s)
  have p: "CIDR b' = CIDR b" "Attributes b' = Attributes b" "length (Allocations b') = size_of b"
    "Allocations b' ! k = Allocations b ! k"
    using assms(2,3) by (simp_all add: gc_progress_def s)
  show ?thesis
  proof (cases "Allocations b ! k")
    case None
    then have "\<not> expired now cd b k" by (simp add: expired_def attr_at_def)
    with None p assms(2,3) show ?thesis
      by (simp add: gc_step_def s gc_progress_def less_Suc_eq)
         (auto simp: less_Suc_eq)
  next
    case (Some i)
    have i: "i < length (Attributes b)" using block_invD(5) [OF assms(1,2) Some] .
    have ex: "expired now cd b k \<longleftrightarrow> deallocatable now cd (Attributes b ! i)"
      using Some assms(2) by (simp add: expired_def attr_at_def)
    show ?thesis
    proof (cases "expired now cd b k")
      case True
      with Some p i ex assms(2,3) show ?thesis
        by (simp add: gc_step_def s gc_progress_def ClearSequenceNumberForOrdinal_def nth_list_update)
           (auto simp: less_Suc_eq)
    next
      case False
      with Some p i ex assms(2,3) show ?thesis
        by (simp add: gc_step_def s gc_progress_def) (auto simp: less_Suc_eq)
    qed
  qed
qed

lemma reindex_onto:
  "reindex x y used xs = (ni, na) \<Longrightarrow> m < length na \<Longrightarrow> \<exists>j < length xs. x + j \<in> used \<and> ni ! j = Some (y + m)"
proof (induction x y used xs arbitrary: ni na m rule: reindex.induct)
  case (2 x y used a xs)
  show ?case
  proof (cases "x \<in> used")
    case True
    obtain ni' na' where r: "reindex (x + 1) (y + 1) used xs = (ni', na')"
      by (cases "reindex (x + 1) (y + 1) used xs")
    then have n: "ni = Some y # ni'" "na = a # na'" using 2(3) True by simp_all
    show ?thesis
    proof (cases m)
      case 0
      with True n show ?thesis by (intro exI [of _ 0]) simp
    next
      case (Suc k)
      with "2.IH"(1) [OF True r, of k] 2(4) n obtain j
        where "j < length xs" "x + 1 + j \<in> used" "ni' ! j = Some (y + 1 + k)" by auto
      with Suc n show ?thesis by (intro exI [of _ "Suc j"]) simp
    qed
  next
    case False
    obtain ni' na' where r: "reindex (x + 1) y used xs = (ni', na')"
      by (cases "reindex (x + 1) y used xs")
    then have n: "ni = None # ni'" "na = na'" using 2(3) False by simp_all
    with "2.IH"(2) [OF False r, of m] 2(4) obtain j
      where "j < length xs" "x + 1 + j \<in> used" "ni' ! j = Some (y + m)" by auto
    with n show ?thesis by (intro exI [of _ "Suc j"]) simp
  qed
qed simp

lemma reindex_spec:
  assumes "reindex x y used xs = (ni, na)"
  shows "length ni = length xs" and "length na \<le> length xs"
    and "length na = length xs \<Longrightarrow> na = xs \<and> (\<forall>j < length xs. x + j \<in> used)"
    and "j < length xs \<Longrightarrow> x + j \<in> used \<Longrightarrow> \<exists>m < length na. ni ! j = Some (y + m) \<and> na ! m = xs ! j"
proof -
  have "length ni = length xs \<and> length na \<le> length xs
    \<and> (length na = length xs \<longrightarrow> na = xs \<and> (\<forall>j < length xs. x + j \<in> used))
    \<and> (\<forall>j < length xs. x + j \<in> used \<longrightarrow> (\<exists>m < length na. ni ! j = Some (y + m) \<and> na ! m = xs ! j))"
    using assms
  proof (induction x y used xs arbitrary: ni na rule: reindex.induct)
    case (2 x y used a xs)
    show ?case
    proof (cases "x \<in> used")
      case True
      obtain ni' na' where r: "reindex (x + 1) (y + 1) used xs = (ni', na')"
        by (cases "reindex (x + 1) (y + 1) used xs")
      then have n: "ni = Some y # ni'" "na = a # na'" using 2(3) True by simp_all
      show ?thesis
        using "2.IH"(1) [OF True r] True by (auto simp: n less_Suc_eq_0_disj All_less_Suc2 Ex_less_Suc2)
    next
      case False
      obtain ni' na' where r: "reindex (x + 1) y used xs = (ni', na')"
        by (cases "reindex (x + 1) y used xs")
      then have n: "ni = None # ni'" "na = na'" using 2(3) False by simp_all
      show ?thesis
        using "2.IH"(2) [OF False r] False by (auto simp: n less_Suc_eq_0_disj All_less_Suc2 Ex_less_Suc2)
    qed
  qed simp
  then show "length ni = length xs" "length na \<le> length xs"
    "length na = length xs \<Longrightarrow> na = xs \<and> (\<forall>j < length xs. x + j \<in> used)"
    "j < length xs \<Longrightarrow> x + j \<in> used \<Longrightarrow> \<exists>m < length na. ni ! j = Some (y + m) \<and> na ! m = xs ! j"
    by blast+
qed

text \<open>The second loop renames the indexes.\<close>

lemma rewrite_loop:
  assumes "length (Allocations b) = n" and "\<And>o' i. o' < n \<Longrightarrow> Allocations b ! o' = Some i \<Longrightarrow> i < length ni"
  shows "run_fold (rewrite_step ni) [0..<n] b
    = Return (b\<lparr>Allocations := map (\<lambda>x. Option.bind x ((!) ni)) (Allocations b)\<rparr>)"
proof -
  let ?f = "\<lambda>x. Option.bind x ((!) ni)"
  have "run_fold (rewrite_step ni) [0..<k] b
      = Return (b\<lparr>Allocations := map ?f (take k (Allocations b)) @ drop k (Allocations b)\<rparr>)" if "k \<le> n" for k
    using that
  proof (induction k)
    case (Suc k)
    let ?xs = "map ?f (take k (Allocations b)) @ drop k (Allocations b)"
    have k: "k < length (Allocations b)" using Suc.prems assms(1) by simp
    have nth: "?xs ! k = Allocations b ! k" "length ?xs = n" using k assms(1) by (simp_all add: nth_append)
    have upd: "?xs[k := ?f (Allocations b ! k)] = map ?f (take (Suc k) (Allocations b)) @ drop (Suc k) (Allocations b)"
      using k by (simp add: take_Suc_conv_app_nth list_update_append Cons_nth_drop_Suc [symmetric])
    have same: "?xs = map ?f (take (Suc k) (Allocations b)) @ drop (Suc k) (Allocations b)" if "Allocations b ! k = None"
      using that k by (simp add: take_Suc_conv_app_nth Cons_nth_drop_Suc [symmetric])
    show ?case
    proof (cases "Allocations b ! k")
      case None
      with Suc nth same k assms(1) show ?thesis by (simp add: run_fold_append rewrite_step_def)
    next
      case (Some i)
      with Suc nth upd k assms(1) assms(2) [of k i] show ?thesis by (simp add: run_fold_append rewrite_step_def)
    qed
  qed simp
  from this [of n] assms(1) show ?thesis by simp
qed

definition gc_view :: "int \<Rightarrow> int \<Rightarrow> (nat \<rightharpoonup> AllocationAttribute) \<Rightarrow> nat \<rightharpoonup> AllocationAttribute" where
  "gc_view now cd m o' = (case m o' of None \<Rightarrow> None | Some a \<Rightarrow> if deallocatable now cd a then None else Some a)"

text \<open>What does not change: everything but the allocations, the queue, the attributes and the sequence
  numbers of the ordinals.\<close>

definition same_block :: "AllocationBlock \<Rightarrow> AllocationBlock \<Rightarrow> bool" where
  "same_block b b' \<longleftrightarrow> CIDR b' = CIDR b \<and> SequenceNumber b' = SequenceNumber b \<and> Affinity b' = Affinity b
     \<and> Deleted b' = Deleted b"

lemma same_block_size: "same_block b b' \<Longrightarrow> size_of b' = size_of b"
  by (simp add: same_block_def size_of_def)

lemma gc_first_loop:
  assumes "block_inv b" and "gc_progress now cd b (size_of b) (changed, used, b1)"
  shows "block_inv b1" and "attr_at b1 = gc_view now cd (attr_at b)" and "same_block b b1"
    and "used = {i. \<exists>o' < size_of b1. Allocations b1 ! o' = Some i}"
proof -
  have p: "CIDR b1 = CIDR b" "Attributes b1 = Attributes b" "length (Allocations b1) = size_of b" "size_of b1 = size_of b"
    "\<And>o'. o' < size_of b \<Longrightarrow> Allocations b1 ! o' = (if expired now cd b o' then None else Allocations b ! o')"
    "Unallocated b1 = Unallocated b @ filter (expired now cd b) [0..<size_of b]"
    "used = {i. \<exists>o' < size_of b. Allocations b ! o' = Some i \<and> \<not> expired now cd b o'}"
    using assms(2) by (simp_all add: gc_progress_def size_of_def)
  have ex: "\<not> expired now cd b o'" if "Allocations b ! o' = None" for o'
    using that by (simp add: expired_def attr_at_def)
  show "block_inv b1"
    unfolding block_inv_def
  proof (intro conjI allI impI)
    show "distinct (Unallocated b1)"
      using block_invD(3,4) [OF assms(1)] ex by (auto simp: p(6))
    show "o' \<in> set (Unallocated b1) \<longleftrightarrow> o' < size_of b1 \<and> Allocations b1 ! o' = None" for o'
      using block_invD(4) [OF assms(1), of o'] p(4) p(5) [of o'] by (auto simp: p(6))
    show "i < length (Attributes b1)" if "o' < size_of b1" "Allocations b1 ! o' = Some i" for o' i
      using block_invD(5) [OF assms(1), of o' i] that p(2,4) p(5) [of o'] by (simp split: if_splits)
  qed (use block_invD(1) [OF assms(1)] p in simp_all)
  show "attr_at b1 = gc_view now cd (attr_at b)"
    using p(2,4,5) by (auto simp: fun_eq_iff attr_at_def gc_view_def expired_def split: option.split)
  show "same_block b b1" using assms(2) by (simp add: gc_progress_def same_block_def)
  show "used = {i. \<exists>o' < size_of b1. Allocations b1 ! o' = Some i}"
    using p(4,5) by (auto simp: p(7) split: if_splits)
qed

lemma gc_second_loop:
  assumes "block_inv b" and "used = {i. \<exists>o' < size_of b. Allocations b ! o' = Some i}"
    and "reindex 0 0 used (Attributes b) = (ni, na)"
    and "b' = b\<lparr>Attributes := na, Allocations := map (\<lambda>x. Option.bind x ((!) ni)) (Allocations b)\<rparr>"
  shows "block_inv b'" and "attr_at b' = attr_at b" and "\<forall>i < length (Attributes b'). \<exists>o' < size_of b'. Allocations b' ! o' = Some i"
proof -
  note r = reindex_spec [OF assms(3)]
  have sz: "size_of b' = size_of b" by (simp add: assms(4) size_of_def)
  have new: "\<exists>m < length na. Allocations b' ! o' = Some m \<and> na ! m = Attributes b ! i"
    if "o' < size_of b" "Allocations b ! o' = Some i" for o' i
    using r(4) [of i] that block_invD(2) [OF assms(1)] block_invD(5) [OF assms(1) that] assms(2)
    by (auto simp: assms(4))
  have none: "Allocations b' ! o' = None \<longleftrightarrow> Allocations b ! o' = None" if "o' < size_of b" for o'
    using new [OF that] block_invD(2) [OF assms(1)] that by (cases "Allocations b ! o'") (auto simp: assms(4))
  show "block_inv b'"
    unfolding block_inv_def
  proof (intro conjI allI impI)
    show "o' \<in> set (Unallocated b') \<longleftrightarrow> o' < size_of b' \<and> Allocations b' ! o' = None" for o'
      using block_invD(4) [OF assms(1), of o'] none [of o'] sz by (auto simp: assms(4))
    show "i < length (Attributes b')" if "o' < size_of b'" "Allocations b' ! o' = Some i" for o' i
      using new [of o'] none [of o'] that sz by (cases "Allocations b ! o'") (auto simp: assms(4))
  qed (use block_invD(1,2,3) [OF assms(1)] sz in \<open>simp_all add: assms(4)\<close>)
  show "attr_at b' = attr_at b"
  proof
    fix o'
    show "attr_at b' o' = attr_at b o'"
      using new [of o'] none [of o'] sz by (cases "Allocations b ! o'") (auto simp: attr_at_def assms(4))
  qed
  show "\<forall>i < length (Attributes b'). \<exists>o' < size_of b'. Allocations b' ! o' = Some i"
  proof (intro allI impI)
    fix i assume "i < length (Attributes b')"
    then obtain j where j: "j < length (Attributes b)" "j \<in> used" "ni ! j = Some i"
      using reindex_onto [OF assms(3), of i] by (auto simp: assms(4))
    then obtain o' where "o' < size_of b" "Allocations b ! o' = Some j" using assms(2) by auto
    with j(3) block_invD(2) [OF assms(1)] sz show "\<exists>o' < size_of b'. Allocations b' ! o' = Some i"
      by (auto simp: assms(4) intro!: exI [of _ o'])
  qed
qed

lemma garbageCollect_spec:
  assumes "block_inv b"
  shows "\<exists>changed b'. garbageCollect now cd b = Return (changed, b') \<and> block_inv b' \<and> same_block b b'
    \<and> attr_at b' = gc_view now cd (attr_at b)
    \<and> Unallocated b' = Unallocated b @ filter (expired now cd b) [0..<size_of b]
    \<and> (\<forall>o'. SequenceNumberForAllocation b' o' = (if o' < size_of b \<and> expired now cd b o' then None else SequenceNumberForAllocation b o'))
    \<and> (\<forall>i < length (Attributes b'). \<exists>o' < size_of b'. Allocations b' ! o' = Some i)"
proof -
  have start: "gc_progress now cd b 0 (False, {}, b)"
    using block_invD(2) [OF assms] by (simp add: gc_progress_def)
  obtain changed used b1 where run: "run_fold (gc_step now cd) [0..<size_of b] (False, {}, b) = Return (changed, used, b1)"
    and prog: "gc_progress now cd b (size_of b) (changed, used, b1)"
    using run_fold_upt [of "gc_progress now cd b" "(False, {}, b)" "size_of b" "gc_step now cd", OF start]
      gc_step_progress [OF assms] by (metis prod_cases3)
  note one = gc_first_loop [OF assms prog]
  have sz: "size_of b1 = size_of b" using same_block_size [OF one(3)] .
  have rest: "Unallocated b1 = Unallocated b @ filter (expired now cd b) [0..<size_of b]"
    "\<forall>o'. SequenceNumberForAllocation b1 o' = (if o' < size_of b \<and> expired now cd b o' then None else SequenceNumberForAllocation b o')"
    using prog by (simp_all add: gc_progress_def)
  obtain ni na where re: "reindex 0 0 used (Attributes b1) = (ni, na)" by (cases "reindex 0 0 used (Attributes b1)")
  note r = reindex_spec [OF re]
  show ?thesis
  proof (cases "length na = length (Attributes b1)")
    case True
    then have "garbageCollect now cd b = Return (changed, b1)"
      using run re block_addresses [OF assms] by (simp add: garbageCollect_def)
    moreover have "\<exists>o' < size_of b1. Allocations b1 ! o' = Some i" if "i < length (Attributes b1)" for i
      using r(3) [OF True] that one(4) by auto
    ultimately show ?thesis using one rest by blast
  next
    case False
    let ?b2 = "b1\<lparr>Attributes := na, Allocations := map (\<lambda>x. Option.bind x ((!) ni)) (Allocations b1)\<rparr>"
    have "run_fold (rewrite_step ni) [0..<size_of b] (b1\<lparr>Attributes := na\<rparr>) = Return ?b2"
      using rewrite_loop [of "b1\<lparr>Attributes := na\<rparr>" "size_of b" ni] block_invD(2,5) [OF one(1)] r(1) sz by simp
    then have "garbageCollect now cd b = Return (True, ?b2)"
      using False run re block_addresses [OF assms] block_addresses [OF one(1)] sz by (simp add: garbageCollect_def)
    moreover have "same_block b ?b2" using one(3) by (simp add: same_block_def)
    ultimately show ?thesis using gc_second_loop [OF one(1,4) re refl] one(2) rest by auto
  qed
qed

section \<open>Release by address\<close>

text \<open>The ordinal and the handle of an address that is in use.\<close>

definition noted :: "(string \<Rightarrow> IP option) \<Rightarrow> AllocationBlock \<Rightarrow> string \<Rightarrow> (nat \<times> string) option" where
  "noted parseIP b ipStr =
     (case parseIP ipStr of
        None \<Rightarrow> None
      | Some ip \<Rightarrow>
          (case IPToOrdinal b ip of
             Inl _ \<Rightarrow> None
           | Inr o' \<Rightarrow>
               (case attr_at b o' of
                  None \<Rightarrow> None
                | Some a \<Rightarrow> if ReleasedAt a = None then Some (o', attr_handle a) else None)))"

text \<open>The reasons for which a request for one address is refused: the address is not in the block, the
  sequence number is not that of the allocation, or the address is in use under another handle.\<close>

inductive refused :: "(string \<Rightarrow> IP option) \<Rightarrow> AllocationBlock \<Rightarrow> string \<Rightarrow> ReleaseOptions \<Rightarrow> ipam_error \<Rightarrow> bool"
  for parseIP b s opts where
  outside: "parseIP s = Some ip \<Longrightarrow> IPToOrdinal b ip = Inl e \<Longrightarrow> refused parseIP b s opts e"
| sequence: "parseIP s = Some ip \<Longrightarrow> IPToOrdinal b ip = Inr x \<Longrightarrow> opt_SequenceNumber opts = Some n
    \<Longrightarrow> n \<noteq> GetSequenceNumberForOrdinal b x
    \<Longrightarrow> refused parseIP b s opts (BadSequenceNumber (Address opts) n (GetSequenceNumberForOrdinal b x))"
| handle: "noted parseIP b s = Some (x, h) \<Longrightarrow> (\<forall>n. opt_SequenceNumber opts = Some n \<longrightarrow> n = GetSequenceNumberForOrdinal b x)
    \<Longrightarrow> opt_Handle opts \<noteq> [] \<Longrightarrow> opt_Handle opts \<noteq> h
    \<Longrightarrow> refused parseIP b s opts (BadHandle (Address opts) (opt_Handle opts) h)"

lemma release_one_eq:
  assumes "block_inv b" and "parseIP s = Some ip"
  shows "(\<exists>e. refused parseIP b s opts e \<and> release_one parseIP b s opts = Return (Inl e))
    \<or> (\<nexists>e. refused parseIP b s opts e) \<and> release_one parseIP b s opts
        = Return (Inr (case noted parseIP b s of Some (x, h) \<Rightarrow> Noted x h | None \<Rightarrow> Skipped ip))"
proof (cases "IPToOrdinal b ip")
  case (Inl e)
  then show ?thesis using assms(2) by (auto simp: release_one_def intro: refused.outside)
next
  case (Inr x)
  have x: "x < size_of b" "length (Allocations b) = size_of b"
    using IPToOrdinal_bound [OF Inr assms(1)] block_invD(2) [OF assms(1)] by simp_all
  show ?thesis
  proof (cases "sequence_conflict b opts x")
    case (Some e)
    then obtain n where "opt_SequenceNumber opts = Some n" "n \<noteq> GetSequenceNumberForOrdinal b x"
        "e = BadSequenceNumber (Address opts) n (GetSequenceNumberForOrdinal b x)"
      by (auto simp: sequence_conflict_def split: option.splits if_splits)
    then have "refused parseIP b s opts e" using assms(2) Inr by (auto intro: refused.sequence)
    with Some Inr show ?thesis by (auto simp: release_one_def assms(2))
  next
    case None
    then have seq: "\<forall>n. opt_SequenceNumber opts = Some n \<longrightarrow> n = GetSequenceNumberForOrdinal b x"
      by (auto simp: sequence_conflict_def split: if_splits)
    show ?thesis
    proof (cases "noted parseIP b s")
      case unused: None
      then have "release_one parseIP b s opts = Return (Inr (Skipped ip))"
        using None Inr x assms(2) block_invD(5) [OF assms(1) x(1)]
        by (auto simp: release_one_def noted_def attr_at_def split: option.splits if_splits)
      moreover have "\<not> refused parseIP b s opts e" for e
        using unused Inr assms(2) seq by (auto elim!: refused.cases)
      ultimately show ?thesis using unused by simp
    next
      case used: (Some xh)
      then obtain a where a: "attr_at b x = Some a" "ReleasedAt a = None" "xh = (x, attr_handle a)"
        using Inr assms(2) by (auto simp: noted_def split: option.splits if_splits)
      obtain i where i: "Allocations b ! x = Some i" "Attributes b ! i = a" using a(1) x by (auto simp: attr_at_def)
      have one: "release_one parseIP b s opts
          = (if opt_Handle opts \<noteq> [] \<and> attr_handle a \<noteq> opt_Handle opts
             then Return (Inl (BadHandle (Address opts) (opt_Handle opts) (attr_handle a))) else Return (Inr (Noted x (attr_handle a))))"
        using None Inr x assms(2) a i block_invD(5) [OF assms(1) x(1) i(1)] by (simp add: release_one_def)
      show ?thesis
      proof (cases "opt_Handle opts \<noteq> [] \<and> attr_handle a \<noteq> opt_Handle opts")
        case True
        then show ?thesis using one refused.handle [OF used [unfolded a(3)] seq] by auto
      next
        case False
        then have "\<not> refused parseIP b s opts e" for e
          using used a(3) Inr assms(2) seq by (auto elim!: refused.cases)
        with False show ?thesis using one used a(3) by auto
      qed
    qed
  qed
qed

abbreviation requested :: "(string \<rightharpoonup> ReleaseOptions) \<Rightarrow> string list \<Rightarrow> string list" where
  "requested uniq ks \<equiv> filter (\<lambda>k. uniq k \<noteq> None) ks"

definition all_noted :: "(string \<Rightarrow> IP option) \<Rightarrow> AllocationBlock \<Rightarrow> string list \<Rightarrow> (nat \<times> string) list" where
  "all_noted parseIP b ss = List.map_filter (noted parseIP b) ss"

text \<open>The addresses that a request asks for and that are not in use.\<close>

definition not_noted :: "(string \<Rightarrow> IP option) \<Rightarrow> AllocationBlock \<Rightarrow> string list \<Rightarrow> IP list" where
  "not_noted parseIP b ss = map (\<lambda>s. the (parseIP s)) (filter (\<lambda>s. noted parseIP b s = None) ss)"

lemma release_loop_eq:
  assumes "block_inv b" and "\<forall>k \<in> dom uniq. parseIP k \<noteq> None"
  shows "(\<exists>k \<in> set ks. \<exists>opts e. uniq k = Some opts \<and> refused parseIP b k opts e
        \<and> release_loop parseIP b uniq ks (u, c, os) = Return (Inl e))
    \<or> (\<forall>k \<in> set ks. \<forall>opts e. uniq k = Some opts \<longrightarrow> \<not> refused parseIP b k opts e)
      \<and> release_loop parseIP b uniq ks (u, c, os) = Return (Inr (u @ not_noted parseIP b (requested uniq ks),
          fold count_handle (map snd (all_noted parseIP b (requested uniq ks))) c,
          os @ map fst (all_noted parseIP b (requested uniq ks))))"
proof (induction ks arbitrary: u c os)
  case (Cons k ks)
  show ?case
  proof (cases "uniq k")
    case None
    with Cons show ?thesis by simp
  next
    case (Some opts)
    then obtain ip where ip: "parseIP k = Some ip" using assms(2) by (auto dest: domI)
    from release_one_eq [of b parseIP k ip opts, OF assms(1) ip] show ?thesis
    proof (elim disjE exE conjE)
      fix e
      assume "refused parseIP b k opts e" "release_one parseIP b k opts = Return (Inl e)"
      with Some show ?thesis by auto
    next
      assume no: "\<nexists>e. refused parseIP b k opts e"
        and one: "release_one parseIP b k opts
          = Return (Inr (case noted parseIP b k of Some (o', h) \<Rightarrow> Noted o' h | None \<Rightarrow> Skipped ip))"
      show ?thesis
      proof (cases "noted parseIP b k")
        case None
        with Some one no ip Cons.IH [of "u @ [ip]" c os] show ?thesis
          by (auto simp: all_noted_def not_noted_def map_filter_simps)
      next
        case found: (Some oh)
        obtain o' h where oh: "oh = (o', h)" by (cases oh)
        with found Some one no Cons.IH [of u "count_handle h c" "os @ [o']"] show ?thesis
          by (auto simp: all_noted_def not_noted_def map_filter_simps)
      qed
    qed
  qed
qed (simp add: all_noted_def not_noted_def map_filter_simps)

lemma give_affinity: "Affinity (fold (give i) os b) = Affinity b" "Deleted (fold (give i) os b) = Deleted b"
  by (induction os arbitrary: b) (simp_all add: give_def SetSequenceNumberForOrdinal_def)

definition cooldown_attr :: "int \<Rightarrow> AllocationAttribute" where
  "cooldown_attr now = \<lparr>HandleID = None, ActiveOwnerAttrs = None, AlternateOwnerAttrs = None, ReleasedAt = Some now\<rparr>"

lemma addCooldownAttribute_spec:
  "addCooldownAttribute now b = (length (Attributes b), b\<lparr>Attributes := Attributes b @ [cooldown_attr now]\<rparr>)"
  by (simp add: addCooldownAttribute_def cooldown_attr_def)

lemma addCooldown_more: "more_attributes b (b\<lparr>Attributes := Attributes b @ [cooldown_attr now]\<rparr>)"
  by (auto simp: more_attributes_def)

lemma mark_loop:
  assumes "set os \<subseteq> {..<length (Allocations b)}"
  shows "run_fold (\<lambda>x b. run_bind (allocate i x b) (\<lambda>b. Return (SetSequenceNumberForOrdinal x b))) os b
    = Return (fold (give i) os b)"
  using assms by (induction os arbitrary: b) (simp_all add: allocate_def give_def [symmetric])

text \<open>Pointing allocated ordinals at another attribute keeps the invariant.\<close>

lemma fold_give_allocated:
  assumes "block_inv b" and "i < length (Attributes b)" and "\<forall>x \<in> set os. x < size_of b \<and> attr_at b x \<noteq> None"
  shows "block_inv (fold (give i) os b)"
    and "attr_at (fold (give i) os b) = (\<lambda>x. if x \<in> set os then Some (Attributes b ! i) else attr_at b x)"
proof -
  have sub: "set os \<subseteq> {..<size_of b}" using assms(3) by auto
  have "filter (\<lambda>x. x \<notin> set os) (Unallocated b) = Unallocated b"
    using assms(3) block_invD(4) [OF assms(1)] by (intro filter_True) (auto simp: attr_at_def)
  moreover have "(fold (give i) os b)\<lparr>Unallocated := Unallocated b\<rparr> = fold (give i) os b"
    using fold_give(3) [of i os b] by (cases "fold (give i) os b") simp
  ultimately show "block_inv (fold (give i) os b)" using fold_give_inv [OF assms(1,2) sub] by simp
  show "attr_at (fold (give i) os b) = (\<lambda>x. if x \<in> set os then Some (Attributes b ! i) else attr_at b x)"
    using attr_at_fold_give [OF assms(1,2) sub] by blast
qed

lemma all_noted_in:
  assumes "(o', h) \<in> set (all_noted parseIP b ss)"
  shows "\<exists>s \<in> set ss. noted parseIP b s = Some (o', h)"
  using assms by (auto simp: all_noted_def List.map_filter_def)

lemma noted_allocated:
  assumes "block_inv b" and "noted parseIP b s = Some (o', h)"
  shows "o' < size_of b \<and> (\<exists>a. attr_at b o' = Some a \<and> ReleasedAt a = None \<and> attr_handle a = h)"
  using assms(2) IPToOrdinal_bound [OF _ assms(1)]
  by (auto simp: noted_def split: option.splits sum.splits if_splits)

text \<open>A request without a conflict is carried out.\<close>

lemma release_ok:
  assumes "block_inv b" and "\<forall>x \<in> set os. x < size_of b \<and> attr_at b x \<noteq> None"
    and "release_loop parseIP b (uniqueAddresses addresses) ks ([], Map.empty, []) = Return (Inr (u, counts, os))"
  shows "\<exists>b'. release now now' cd parseIP ks addresses b = Return (Inr (u, counts), b')
    \<and> block_inv b' \<and> same_block b b'
    \<and> attr_at b' = (if os = [] then attr_at b
        else gc_view now' cd (\<lambda>o'. if o' \<in> set os then Some (cooldown_attr now) else attr_at b o'))"
proof (cases "os = []")
  case True
  with assms show ?thesis by (simp add: release_def same_block_def)
next
  case False
  let ?b1 = "b\<lparr>Attributes := Attributes b @ [cooldown_attr now]\<rparr>" and ?i = "length (Attributes b)"
  note inv1 = more_attributes_inv [OF assms(1) addCooldown_more]
  note same = more_attributes_simps [OF addCooldown_more, of b now]
  have alloc: "\<forall>x \<in> set os. x < size_of ?b1 \<and> attr_at ?b1 x \<noteq> None" using assms(2) inv1(2) [of now] same(7) by simp
  note give = fold_give_allocated [OF inv1(1) _ alloc, of ?i]
  let ?b2 = "fold (give ?i) os ?b1"
  have "set os \<subseteq> {..<length (Allocations ?b1)}" using alloc block_invD(2) [OF inv1(1)] by auto
  note mark = mark_loop [OF this, of ?i]
  obtain changed b' where gc: "garbageCollect now' cd ?b2 = Return (changed, b')" "block_inv b'" "same_block ?b2 b'"
    "attr_at b' = gc_view now' cd (attr_at ?b2)"
    using garbageCollect_spec [of ?b2 now' cd] give(1) by auto
  have "same_block b b'" using gc(3) by (simp add: same_block_def fold_give give_affinity)
  moreover have "attr_at ?b2 = (\<lambda>o'. if o' \<in> set os then Some (cooldown_attr now) else attr_at b o')"
    using give(2) inv1(2) [of now] by (simp add: fun_eq_iff)
  ultimately show ?thesis using gc assms(3) False mark
    by (simp add: release_def addCooldownAttribute_spec)
qed

lemma release_spec:
  assumes "block_inv b" and "\<forall>k \<in> dom (uniqueAddresses addresses). parseIP k \<noteq> None"
    and "ns = all_noted parseIP b (requested (uniqueAddresses addresses) ks)"
  shows "(\<exists>k opts e. uniqueAddresses addresses k = Some opts \<and> refused parseIP b k opts e
        \<and> release now now' cd parseIP ks addresses b = Return (Inl e, b))
    \<or> (\<forall>k \<in> set ks. \<forall>opts e. uniqueAddresses addresses k = Some opts \<longrightarrow> \<not> refused parseIP b k opts e)
      \<and> (\<exists>b'. release now now' cd parseIP ks addresses b
          = Return (Inr (not_noted parseIP b (requested (uniqueAddresses addresses) ks), fold count_handle (map snd ns) Map.empty), b')
        \<and> block_inv b' \<and> same_block b b'
        \<and> attr_at b' = (if ns = [] then attr_at b
            else gc_view now' cd (\<lambda>o'. if o' \<in> fst ` set ns then Some (cooldown_attr now) else attr_at b o')))"
proof -
  let ?r = "release_loop parseIP b (uniqueAddresses addresses) ks ([], Map.empty, [])"
  let ?u = "not_noted parseIP b (requested (uniqueAddresses addresses) ks)"
  from release_loop_eq [OF assms(1,2), of ks "[]" Map.empty "[]"] show ?thesis
  proof (elim disjE bexE exE conjE)
    fix k opts e
    assume "uniqueAddresses addresses k = Some opts" "refused parseIP b k opts e" "?r = Return (Inl e)"
    then show ?thesis by (auto simp: release_def)
  next
    assume no: "\<forall>k \<in> set ks. \<forall>opts e. uniqueAddresses addresses k = Some opts \<longrightarrow> \<not> refused parseIP b k opts e"
      and "?r = Return (Inr ([] @ ?u,
        fold count_handle (map snd (all_noted parseIP b (requested (uniqueAddresses addresses) ks))) Map.empty,
        [] @ map fst (all_noted parseIP b (requested (uniqueAddresses addresses) ks))))"
    then have ok: "?r = Return (Inr (?u, fold count_handle (map snd ns) Map.empty, map fst ns))" by (simp add: assms(3))
    have "x < size_of b \<and> attr_at b x \<noteq> None" if "x \<in> set (map fst ns)" for x
    proof -
      from that obtain h where "(x, h) \<in> set ns" by auto
      from all_noted_in [OF this [unfolded assms(3)]] noted_allocated [OF assms(1), of parseIP _ x h]
      show ?thesis by auto
    qed
    with release_ok [OF assms(1) _ ok, of now now' cd] obtain b' where
        "release now now' cd parseIP ks addresses b = Return (Inr (?u, fold count_handle (map snd ns) Map.empty), b')"
        "block_inv b'" "same_block b b'"
        "attr_at b' = (if ns = [] then attr_at b
          else gc_view now' cd (\<lambda>o'. if o' \<in> fst ` set ns then Some (cooldown_attr now) else attr_at b o'))"
      by auto
    with no show ?thesis by blast
  qed
qed

text \<open>The counts: an entry for each handle that owned a noted address.\<close>

lemma fold_count_handle:
  "fold count_handle hs c h = (if h \<noteq> [] \<and> h \<in> set hs
     then Some ((case c h of Some k \<Rightarrow> k | None \<Rightarrow> 0) + int (count_list hs h)) else c h)"
proof (induction hs arbitrary: c)
  case (Cons x hs)
  show ?case
    using count_notin [of h hs] by (simp add: Cons.IH) (auto simp: count_handle_def)
qed simp

section \<open>Release by handle\<close>

definition handle_is :: "string \<Rightarrow> AllocationAttribute \<Rightarrow> bool" where
  "handle_is h a = (case HandleID a of Some h' \<Rightarrow> sanitizeHandle h' = h | None \<Rightarrow> False)"

lemma indexes_loop_iff:
  "j \<in> set (indexes_loop h k xs) \<longleftrightarrow> k \<le> j \<and> j - k < length xs \<and> handle_is h (xs ! (j - k))"
proof (induction h k xs arbitrary: j rule: indexes_loop.induct)
  case (2 h k x xs)
  show ?case
  proof (cases "j \<le> k")
    case True
    then have "j \<notin> set (indexes_loop h (k + 1) xs)" using 2 by (cases "handle_is h x") (simp_all add: handle_is_def)
    with True show ?thesis by (auto simp: handle_is_def)
  next
    case False
    then have "j - k = Suc (j - (k + 1))" by simp
    with 2 False show ?thesis by (cases "handle_is h x") (simp_all add: handle_is_def)
  qed
qed simp

lemma in_handle_indexes:
  "intInSlice i (attributeIndexesByHandle b h) \<longleftrightarrow> i < length (Attributes b) \<and> handle_is h (Attributes b ! i)"
  by (simp add: intInSlice_def attributeIndexesByHandle_def indexes_loop_iff)

lemma sequence_matches_upd [simp]:
  "sequence_matches opts (b\<lparr>Allocations := x\<rparr>) = sequence_matches opts b"
  "sequence_matches opts (b\<lparr>Attributes := y\<rparr>) = sequence_matches opts b"
  by (simp_all add: fun_eq_iff sequence_matches_def GetSequenceNumberForOrdinal_def split: option.split)

definition handle_match :: "ReleaseOptions \<Rightarrow> AllocationBlock \<Rightarrow> nat \<Rightarrow> bool" where
  "handle_match opts b o' \<longleftrightarrow>
     (case attr_at b o' of Some a \<Rightarrow> handle_is (opt_Handle opts) a | None \<Rightarrow> False)
     \<and> sequence_matches opts b o'"

definition point :: "nat \<Rightarrow> nat list \<Rightarrow> AllocationBlock \<Rightarrow> AllocationBlock" where
  "point i os b = b\<lparr>Allocations := fold (\<lambda>x a. a[x := Some i]) os (Allocations b)\<rparr>"

lemma fold_give_Allocations: "Allocations (fold (give i) os b) = fold (\<lambda>x a. a[x := Some i]) os (Allocations b)"
  by (induction os arbitrary: b) simp_all

lemma point_give: "point i os b = (fold (give i) os b)\<lparr>SequenceNumberForAllocation := SequenceNumberForAllocation b\<rparr>"
  by (rule AllocationBlock.equality) (simp_all add: point_def fold_give fold_give_Allocations give_affinity)

lemma block_inv_seq [simp]: "block_inv (b\<lparr>SequenceNumberForAllocation := m\<rparr>) = block_inv b"
  "attr_at (b\<lparr>SequenceNumberForAllocation := m\<rparr>) = attr_at b"
  by (simp_all add: block_inv_def attr_at_def fun_eq_iff size_of_def)

text \<open>After the ordinals below \<open>k\<close> the loop has redirected the matching ones.\<close>

definition by_handle_progress ::
  "int \<Rightarrow> ReleaseOptions \<Rightarrow> AllocationBlock \<Rightarrow> nat \<Rightarrow> nat option \<times> nat \<times> AllocationBlock \<Rightarrow> bool" where
  "by_handle_progress now opts b k = (\<lambda>(ptr, count, b').
     let os = filter (handle_match opts b) [0..<k]; i = length (Attributes b)
     in count = length os
        \<and> (if os = [] then ptr = None \<and> b' = b
           else ptr = Some i \<and> b' = point i os (b\<lparr>Attributes := Attributes b @ [cooldown_attr now]\<rparr>)))"

lemma by_handle_step_progress:
  assumes "block_inv b" and "k < size_of b" and "by_handle_progress now opts b k s"
  shows "\<exists>s'. by_handle_step now opts (attributeIndexesByHandle b (opt_Handle opts)) k s = Return s'
    \<and> by_handle_progress now opts b (Suc k) s'"
proof -
  obtain ptr count b' where s: "s = (ptr, count, b')" by (cases s)
  let ?os = "filter (handle_match opts b) [0..<k]" and ?i = "length (Attributes b)"
  let ?b1 = "b\<lparr>Attributes := Attributes b @ [cooldown_attr now]\<rparr>"
  have len: "length (Allocations b) = size_of b" using block_invD(2) [OF assms(1)] .
  have b': "length (Allocations b') = size_of b" "Allocations b' ! k = Allocations b ! k"
    "sequence_matches opts b' k = sequence_matches opts b k"
    using assms(2,3) len nth_fold_update [of k "Allocations b" "\<lambda>x. x" "Some ?i" ?os]
    by (auto simp: by_handle_progress_def s Let_def point_def split: if_splits)
  have match: "handle_match opts b k \<longleftrightarrow> (\<exists>i. Allocations b ! k = Some i
      \<and> intInSlice i (attributeIndexesByHandle b (opt_Handle opts))
      \<and> sequence_matches opts b k)"
    using assms(2) block_invD(5) [OF assms(1,2)]
    by (cases "Allocations b ! k") (auto simp: handle_match_def attr_at_def in_handle_indexes)
  show ?thesis
  proof (cases "handle_match opts b k")
    case False
    with match b' assms(2,3) show ?thesis
      by (cases "Allocations b ! k") (auto simp: by_handle_step_def s by_handle_progress_def Let_def)
  next
    case True
    then obtain i where i: "Allocations b ! k = Some i" using match by blast
    with True match have cond: "intInSlice i (attributeIndexesByHandle b (opt_Handle opts))"
      "sequence_matches opts b k" by auto
    show ?thesis
      using True i cond b' assms(2,3) len
      by (auto simp: by_handle_step_def s by_handle_progress_def Let_def addCooldownAttribute_spec allocate_def point_def
          split: if_splits)
  qed
qed

lemma releaseByHandle_spec:
  assumes "block_inv b" and "os = filter (handle_match opts b) [0..<size_of b]"
  shows "\<exists>b'. releaseByHandle now now' cd opts b = Return (length os, b') \<and> block_inv b' \<and> same_block b b'
    \<and> (\<forall>o' \<in> set os. attr_at b' o' = gc_view now' cd [o' \<mapsto> cooldown_attr now] o')
    \<and> (\<forall>o'. o' \<notin> set os \<longrightarrow> attr_at b' o' = attr_at b o' \<or> attr_at b' o' = gc_view now' cd (attr_at b) o')"
proof (cases "attributeIndexesByHandle b (opt_Handle opts) = []")
  case True
  then have "handle_match opts b o' = False" for o'
    using in_handle_indexes [of _ b "opt_Handle opts"] block_invD(5) [OF assms(1)]
    by (auto simp: handle_match_def attr_at_def intInSlice_def split: option.splits)
  with True assms show ?thesis by (simp add: releaseByHandle_def same_block_def)
next
  case False
  let ?idx = "attributeIndexesByHandle b (opt_Handle opts)" and ?i = "length (Attributes b)"
  let ?b1 = "b\<lparr>Attributes := Attributes b @ [cooldown_attr now]\<rparr>"
  have "by_handle_progress now opts b 0 (None, 0, b)" by (simp add: by_handle_progress_def)
  then have "\<exists>s. run_fold (by_handle_step now opts ?idx) [0..<size_of b] (None, 0, b) = Return s
      \<and> by_handle_progress now opts b (size_of b) s"
    using by_handle_step_progress [OF assms(1)] by (rule run_fold_upt)
  then obtain ptr count b2 where run: "run_fold (by_handle_step now opts ?idx) [0..<size_of b] (None, 0, b) = Return (ptr, count, b2)"
    and p: "by_handle_progress now opts b (size_of b) (ptr, count, b2)" by auto
  note inv1 = more_attributes_inv [OF assms(1) addCooldown_more]
  have alloc: "\<forall>x \<in> set os. x < size_of ?b1 \<and> attr_at ?b1 x \<noteq> None"
    using assms(2) inv1(2) [of now] by (auto simp: handle_match_def size_of_def split: option.splits)
  note give = fold_give_allocated [OF inv1(1) _ alloc, of ?i]
  have b2: "block_inv b2 \<and> same_block b b2 \<and> count = length os
      \<and> attr_at b2 = (\<lambda>x. if x \<in> set os then Some (cooldown_attr now) else attr_at b x)"
  proof (cases "os = []")
    case True
    then have "b2 = b" "count = 0" using p assms(2) by (simp_all add: by_handle_progress_def)
    with True assms(1) show ?thesis by (simp add: same_block_def)
  next
    case False
    then have "b2 = point ?i os ?b1" "count = length os" using p assms(2) by (simp_all add: by_handle_progress_def Let_def)
    with give inv1(2) [of now] show ?thesis
      by (simp add: point_give same_block_def fold_give give_affinity fun_eq_iff)
  qed
  then obtain changed b' where gc: "garbageCollect now' cd b2 = Return (changed, b')" "block_inv b'" "same_block b2 b'"
    "attr_at b' = gc_view now' cd (attr_at b2)"
    using garbageCollect_spec [of b2 now' cd] by auto
  from run gc(1) False block_addresses [OF assms(1)] b2 have "releaseByHandle now now' cd opts b = Return (length os, b')"
    by (simp add: releaseByHandle_def)
  with gc b2 show ?thesis by (auto simp: same_block_def gc_view_def)
qed

end
