(* ===== verification/IPAM_System.thy ===== *)
theory IPAM_System
  imports IPAM_Release
begin

text \<open>
  Changes of ownership, counting with address filters, the counts a handle keeps
  (\<^verbatim>\<open>libcalico-go/lib/ipam/ipam_handle.go\<close>), and the properties of a block under any
  sequence of operations.
\<close>

section \<open>Ownership\<close>

definition updated_attr :: "ownershipUpdate \<Rightarrow> AllocationAttribute \<Rightarrow> AllocationAttribute" where
  "updated_attr u a =
     plain_attr (Some (case upd_handle u of Some h \<Rightarrow> sanitizeHandle h | None \<Rightarrow> attr_handle a))
       (updated_owner (clearActiveOwner u) (upd_activeOwner u) (ActiveOwnerAttrs a))
       (updated_owner (clearAlternateOwner u) (upd_alternateOwner u) (AlternateOwnerAttrs a))"

lemma plain_not_deallocatable [simp]: "\<not> deallocatable now cd (plain_attr h a alt)"
  by (simp add: deallocatable_def plain_attr_def)

text \<open>
  When an update is permitted: the address is not in its cooldown, it has the expected handle when one is
  given, and its owners are the expected ones when they are given. An expected owner without a name and a
  namespace asks for an address without an owner.
\<close>

definition names_owner :: "AttributeOwner \<Rightarrow> owner_attrs \<Rightarrow> bool" where
  "names_owner w attrs \<longleftrightarrow>
     (if w = EmptyAttributeOwner then attrs = None \<or> attrs = Some Map.empty
      else \<exists>m. attrs = Some m \<and> m ''pod'' = Some (owner_Name w) \<and> m ''namespace'' = Some (owner_Namespace w))"

definition permits :: "ownershipPreconditions \<Rightarrow> AllocationAttribute \<Rightarrow> bool" where
  "permits pre a \<longleftrightarrow> ReleasedAt a = None \<and> (pre_handle pre = [] \<or> attr_handle a = pre_handle pre)
     \<and> (\<forall>w. pre_activeOwner pre = Some w \<longrightarrow> names_owner w (ActiveOwnerAttrs a))
     \<and> (\<forall>w. pre_alternateOwner pre = Some w \<longrightarrow> names_owner w (AlternateOwnerAttrs a))"

definition ownership_refusal :: "IP \<Rightarrow> ownershipPreconditions \<Rightarrow> AllocationAttribute \<Rightarrow> ipam_error" where
  "ownership_refusal ip pre a =
     (if ReleasedAt a \<noteq> None then InCooldown ip
      else if pre_handle pre \<noteq> [] \<and> attr_handle a \<noteq> pre_handle pre
      then OwnerBadHandle ip (pre_handle pre) (attr_handle a) else OwnerMismatch ip)"

lemma Matches_iff: "Matches w attrs \<longleftrightarrow> names_owner w attrs"
  by (cases w; cases attrs)
     (auto simp: Matches_def names_owner_def EmptyAttributeOwner_def attrs_empty_def AttributePod_def AttributeNamespace_def)

lemma conflict_iff:
  "ReleasedAt a = None \<Longrightarrow>
   ownership_conflict ip pre a = (if permits pre a then None else Some (ownership_refusal ip pre a))"
  by (auto simp: ownership_conflict_def permits_def ownership_refusal_def verifyExpectedOwner_def Matches_iff
      split: option.split)

lemma attr_at_cases:
  assumes "block_inv b" and "IPToOrdinal b ip = Inr x"
  shows "at (Allocations b) x = Return (Allocations b ! x)"
    and "attr_at b x = None \<Longrightarrow> Allocations b ! x = None"
    and "attr_at b x = Some a \<Longrightarrow> \<exists>i. Allocations b ! x = Some i \<and> at (Attributes b) i = Return a \<and> Attributes b ! i = a
      \<and> i < length (Attributes b)"
proof -
  have x: "x < size_of b" "length (Allocations b) = size_of b"
    using IPToOrdinal_bound [OF assms(2,1)] block_invD(2) [OF assms(1)] by simp_all
  then show "at (Allocations b) x = Return (Allocations b ! x)" by simp
  show "attr_at b x = None \<Longrightarrow> Allocations b ! x = None" using x by (auto simp: attr_at_def split: option.splits)
  show "attr_at b x = Some a \<Longrightarrow> \<exists>i. Allocations b ! x = Some i \<and> at (Attributes b) i = Return a \<and> Attributes b ! i = a
      \<and> i < length (Attributes b)"
    using x block_invD(5) [OF assms(1) x(1)] by (auto simp: attr_at_def split: option.splits)
qed

lemma ownership_refused:
  assumes "block_inv b"
  shows "IPToOrdinal b ip = Inl e \<Longrightarrow> updateAllocationOwnership now cd ip pre u b = Return (Inl e, b)"
    and "IPToOrdinal b ip = Inr x \<Longrightarrow> attr_at b x = None
      \<Longrightarrow> updateAllocationOwnership now cd ip pre u b = Return (Inl (NotAllocated ip), b)"
    and "IPToOrdinal b ip = Inr x \<Longrightarrow> attr_at b x = Some a \<Longrightarrow> \<not> permits pre a
      \<Longrightarrow> updateAllocationOwnership now cd ip pre u b = Return (Inl (ownership_refusal ip pre a), b)"
proof -
  show "IPToOrdinal b ip = Inl e \<Longrightarrow> updateAllocationOwnership now cd ip pre u b = Return (Inl e, b)"
    by (simp add: updateAllocationOwnership_def)
  assume x: "IPToOrdinal b ip = Inr x"
  note alloc = attr_at_cases [OF assms x]
  show "attr_at b x = None \<Longrightarrow> updateAllocationOwnership now cd ip pre u b = Return (Inl (NotAllocated ip), b)"
    using alloc(1,2) x by (simp add: updateAllocationOwnership_def)
  assume a: "attr_at b x = Some a" and no: "\<not> permits pre a"
  obtain i where "Allocations b ! x = Some i" "at (Attributes b) i = Return a" using alloc(3) [OF a] by blast
  then show "updateAllocationOwnership now cd ip pre u b = Return (Inl (ownership_refusal ip pre a), b)"
    using alloc(1) x no conflict_iff [of a ip pre]
    by (cases "ReleasedAt a") (simp_all add: updateAllocationOwnership_def ownership_refusal_def)
qed

lemma ownership_done:
  assumes "block_inv b" and x: "IPToOrdinal b ip = Inr x" and a: "attr_at b x = Some a" and ok: "permits pre a"
    and m: "m = (attr_at b)(x \<mapsto> updated_attr u a)"
  shows "\<exists>b'. updateAllocationOwnership now cd ip pre u b = Return (Inr (attr_handle a), b')
    \<and> block_inv b' \<and> same_block b b' \<and> (attr_at b' = m \<or> attr_at b' = gc_view now cd m)"
proof -
  have xs: "x < size_of b" "length (Allocations b) = size_of b"
    using IPToOrdinal_bound [OF x assms(1)] block_invD(2) [OF assms(1)] by simp_all
  obtain i where i: "Allocations b ! x = Some i" "Attributes b ! i = a" "i < length (Attributes b)"
    using attr_at_cases(3) [OF assms(1) x a] by blast
  have live: "ReleasedAt a = None" using ok by (simp add: permits_def)
  then have none: "ownership_conflict ip pre a = None" using conflict_iff ok by simp
  obtain j b1 where fa: "findOrAddAttribute (HandleID (updated_attr u a)) (ActiveOwnerAttrs (updated_attr u a))
      (AlternateOwnerAttrs (updated_attr u a)) b = (j, b1)" by (metis surj_pair)
  note spec = findOrAddAttribute_spec [OF fa]
  note inv1 = more_attributes_inv [OF assms(1) spec(3)]
  note same = more_attributes_simps [OF spec(3)]
  have attr: "Attributes b1 ! j = updated_attr u a" using spec(2) by (simp add: updated_attr_def plain_attr_def)
  have alloc: "\<forall>y \<in> set [x]. y < size_of b1 \<and> attr_at b1 y \<noteq> None" using xs a inv1(2) same(7) by simp
  note give = fold_give_allocated [OF inv1(1) spec(1) alloc]
  have run: "updateAllocationOwnership now cd ip pre u b =
      (if j = i then Return (Inr (attr_handle a), b1)
       else run_bind (garbageCollect now cd (give j x b1)) (\<lambda>(_, b). Return (Inr (attr_handle a), b)))"
    using x xs i live none fa same(2)
    by (simp add: updateAllocationOwnership_def updated_attr_def plain_attr_def allocate_def give_def Let_def)
  have sb: "same_block b b1" using spec(3) by (auto simp: same_block_def more_attributes_def)
  show ?thesis
  proof (cases "j = i")
    case True
    have "attr_at b1 x = Some (updated_attr u a)" using True i xs same attr by (simp add: attr_at_def)
    then have "attr_at b1 = m" unfolding m using inv1(2) by (auto simp: fun_eq_iff)
    with True run inv1(1) sb show ?thesis by auto
  next
    case False
    obtain changed b' where gc: "garbageCollect now cd (give j x b1) = Return (changed, b')" "block_inv b'"
      "same_block (give j x b1) b'" "attr_at b' = gc_view now cd (attr_at (give j x b1))"
      using garbageCollect_spec [of "give j x b1" now cd] give(1) by auto
    have "same_block b b'" using gc(3) sb give_affinity [of j "[x]" b1] by (simp add: same_block_def)
    moreover have "attr_at (give j x b1) = m" unfolding m using give(2) attr inv1(2) by (auto simp: fun_eq_iff)
    ultimately show ?thesis using False run gc by auto
  qed
qed

section \<open>Counting with a filter\<close>

lemma count_unfiltered_eq:
  "cidr_ok n \<Longrightarrow> set os \<subseteq> {..<net_size n} \<Longrightarrow>
   count_unfiltered f n os k = Return (k + length (filter (usable f n) os))"
proof (induction os arbitrary: k)
  case (Cons x os)
  with nth_ip_ok(1) [of n x] show ?case by (simp add: usable_def)
qed simp

lemma count_filtered_eq:
  "cidr_ok n \<Longrightarrow> set os \<subseteq> {..<net_size n} \<Longrightarrow>
   count_filtered f n os k = Return (k + int (length (filter (\<lambda>x. \<not> usable f n x) os)))"
proof (induction os arbitrary: k)
  case (Cons x os)
  with nth_ip_ok(1) [of n x] show ?case by (simp add: usable_def)
qed simp

context addr_filter
begin

lemma all_or_none_usable:
  assumes "ok n" and "cidr_ok n" and "x < net_size n"
  shows "MatchesWholeCIDR f n \<Longrightarrow> \<not> usable f n x" and "\<not> MatchesSome f n \<Longrightarrow> usable f n x"
  using whole [OF assms(1)] some [OF assms(1)] nth_ip_ok(4) [OF assms(2,3)] by (auto simp: usable_def)

lemma NumFreeAddresses_eq:
  assumes "block_inv b" and "ok (CIDR b)"
  shows "NumFreeAddresses f b = Return (length (filter (usable f (CIDR b)) (Unallocated b)))"
proof -
  have c: "cidr_ok (CIDR b)" "set (Unallocated b) \<subseteq> {..<net_size (CIDR b)}"
    using block_invD(1,4) [OF assms(1)] by (auto simp: size_of_def)
  note us = all_or_none_usable [OF assms(2) c(1)]
  have "filter (usable f (CIDR b)) (Unallocated b) = []" if "MatchesWholeCIDR f (CIDR b)"
    using us(1) [OF _ that] c(2) by (auto simp: filter_empty_conv)
  moreover have "filter (usable f (CIDR b)) (Unallocated b) = Unallocated b" if "\<not> MatchesSome f (CIDR b)"
    using us(2) [OF _ that] c(2) by (intro filter_True) auto
  ultimately show ?thesis
    using count_unfiltered_eq [OF c, of f 0] by (auto simp: NumFreeAddresses_def)
qed

lemma NumReservedAddresses_eq:
  assumes "block_inv b" and "ok (CIDR b)"
  shows "NumReservedAddresses f b = Return (int (card {x. x < size_of b \<and> \<not> usable f (CIDR b) x}))"
proof -
  have c: "cidr_ok (CIDR b)" "size_of b = net_size (CIDR b)" using block_invD(1) [OF assms(1)] by (simp_all add: size_of_def)
  note us = all_or_none_usable [OF assms(2) c(1)]
  have "length (filter (\<lambda>x. \<not> usable f (CIDR b) x) [0..<size_of b]) = card {x. x < size_of b \<and> \<not> usable f (CIDR b) x}"
    by (simp add: length_filter_conv_card)
       (rule arg_cong [where f = card], auto)
  moreover have "{x. x < size_of b \<and> \<not> usable f (CIDR b) x} = {..<size_of b}" if "MatchesWholeCIDR f (CIDR b)"
    using us(1) [OF _ that] c(2) by auto
  moreover have "{x. x < size_of b \<and> \<not> usable f (CIDR b) x} = {}" if "\<not> MatchesSome f (CIDR b)"
    using us(2) [OF _ that] c(2) by auto
  moreover have "set [0..<size_of b] \<subseteq> {..<net_size (CIDR b)}" using c(2) by auto
  ultimately show ?thesis
    using count_filtered_eq [OF c(1), of "[0..<size_of b]" f 0] block_addresses [OF assms(1)]
    by (auto simp: NumReservedAddresses_def simp del: upt_Suc)
qed

text \<open>An assignment hands out as many of the requested addresses as are free.\<close>

lemma autoAssign_count:
  assumes "block_inv b" and "ok (CIDR b)" and "affinity_error chk cfg b = None"
  shows "\<exists>k ips b'. NumFreeAddresses f b = Return k \<and> autoAssign num h cfg a chk f b = Return (Inr ips, b')
    \<and> length ips = min (nat num) k \<and> NumFreeAddresses f b' = Return (k - length ips)"
proof -
  define ch where "ch = chosen num f (CIDR b) (Unallocated b)"
  obtain b' where b': "autoAssign num h cfg a chk f b = Return (Inr (map (ordinal_net (CIDR b)) ch), b')" "block_inv b'"
    "CIDR b' = CIDR b" "Unallocated b' = filter (\<lambda>x. x \<notin> set ch) (Unallocated b)"
    using autoAssign_spec [OF assms(1,3) ch_def] by blast
  let ?us = "filter (usable f (CIDR b)) (Unallocated b)"
  have "distinct ?us" using block_invD(3) [OF assms(1)] by simp
  from filter_not_taken [OF this, of "nat num"]
  have "filter (usable f (CIDR b)) (Unallocated b') = drop (nat num) ?us"
    using b'(4) by (simp add: ch_def chosen_def conj_commute)
  with NumFreeAddresses_eq [OF assms(1,2)] NumFreeAddresses_eq [OF b'(2)] b' assms(2) show ?thesis
    by (auto simp: ch_def chosen_def)
qed

end

section \<open>Handles\<close>

text \<open>A handle counts its addresses per block.\<close>

type_synonym handle_blocks = "string \<rightharpoonup> int"

definition incrementBlock :: "string \<Rightarrow> int \<Rightarrow> handle_blocks \<Rightarrow> int \<times> handle_blocks" where
  "incrementBlock blockId num h =
     (let newNum = (case h blockId of Some v \<Rightarrow> v + num | None \<Rightarrow> num) in (newNum, h(blockId \<mapsto> newNum)))"

datatype handle_error = NotLinked string | TooFew string int

definition decrementBlock :: "string \<Rightarrow> int \<Rightarrow> handle_blocks \<Rightarrow> (handle_error, int) result \<times> handle_blocks" where
  "decrementBlock blockId num h =
     (case h blockId of
        None \<Rightarrow> (Inl (NotLinked blockId), h)
      | Some current \<Rightarrow>
          (let newNum = current - num
           in if newNum < 0 then (Inl (TooFew blockId current), h)
              else if newNum = 0 then (Inr newNum, h(blockId := None))
              else (Inr newNum, h(blockId \<mapsto> newNum))))"

definition handle_empty :: "handle_blocks \<Rightarrow> bool" where
  "handle_empty h \<longleftrightarrow> card (dom h) = 0"

definition totalCount :: "handle_blocks \<Rightarrow> string list \<Rightarrow> int" where
  "totalCount h ks = fold (\<lambda>k total. case h k of Some c \<Rightarrow> total + c | None \<Rightarrow> total) ks 0"

definition totalCountByVersion :: "nat \<Rightarrow> handle_blocks \<Rightarrow> string list \<Rightarrow> int" where
  "totalCountByVersion version h ks =
     fold (\<lambda>k total. case h k of
         Some c \<Rightarrow> (let isIPv6 = go_contains k '':''
                    in if version = 4 \<and> \<not> isIPv6 \<or> version = 6 \<and> isIPv6 then total + c else total)
       | None \<Rightarrow> total) ks 0"

section \<open>Sequences of operations\<close>

datatype block_call =
  AutoAssign int "string option" AffinityConfig owner_attrs bool addrFilter
| Assign bool IP "string option" owner_attrs AffinityConfig
| Release int int int "string \<Rightarrow> IP option" "string list" "ReleaseOptions list"
| ReleaseByHandle int int int ReleaseOptions
| UpdateOwnership int int IP ownershipPreconditions ownershipUpdate
| GarbageCollect int int

fun block_step :: "block_call \<Rightarrow> AllocationBlock \<Rightarrow> AllocationBlock run" where
  "block_step (AutoAssign num h cfg a chk f) b = run_bind (autoAssign num h cfg a chk f b) (\<lambda>r. Return (snd r))"
| "block_step (Assign chk ip h a cfg) b = run_bind (assign chk ip h a cfg b) (\<lambda>r. Return (snd r))"
| "block_step (Release now now' cd parseIP ks addresses) b =
     run_bind (release now now' cd parseIP ks addresses b) (\<lambda>r. Return (snd r))"
| "block_step (ReleaseByHandle now now' cd opts) b =
     run_bind (releaseByHandle now now' cd opts b) (\<lambda>r. Return (snd r))"
| "block_step (UpdateOwnership now cd ip pre u) b =
     run_bind (updateAllocationOwnership now cd ip pre u b) (\<lambda>r. Return (snd r))"
| "block_step (GarbageCollect now cd) b = run_bind (garbageCollect now cd b) (\<lambda>r. Return (snd r))"

text \<open>A release panics on an address that does not parse; the callers have parsed it before.\<close>

fun call_ok :: "block_call \<Rightarrow> bool" where
  "call_ok (Release now now' cd parseIP ks addresses) = list_all (\<lambda>k. parseIP (Address k) \<noteq> None) addresses"
| "call_ok _ = True"

text \<open>The clock reading and the cooldown of the garbage collection that a call runs.\<close>

fun gc_clock :: "block_call \<Rightarrow> (int \<times> int) option" where
  "gc_clock (Release now now' cd parseIP ks addresses) = Some (now', cd)"
| "gc_clock (ReleaseByHandle now now' cd opts) = Some (now', cd)"
| "gc_clock (UpdateOwnership now cd ip pre u) = Some (now, cd)"
| "gc_clock (GarbageCollect now cd) = Some (now, cd)"
| "gc_clock _ = None"

lemma dom_uniqueAddresses: "dom (uniqueAddresses addresses) = Address ` set addresses"
proof -
  have "dom (fold (\<lambda>opt m. m(Address opt \<mapsto> opt)) xs m) = Address ` set xs \<union> dom m" for xs m
    by (induction xs arbitrary: m) auto
  from this [of addresses Map.empty] show ?thesis by (simp add: uniqueAddresses_def)
qed

lemma uniqueAddresses_map_of: "uniqueAddresses addresses = map_of (map (\<lambda>opt. (Address opt, opt)) (rev addresses))"
proof -
  have "fold (\<lambda>opt m. m(Address opt \<mapsto> opt)) xs m = m ++ map_of (map (\<lambda>opt. (Address opt, opt)) (rev xs))" for xs m
    by (induction xs arbitrary: m) simp_all
  from this [of addresses Map.empty] show ?thesis by (simp add: uniqueAddresses_def)
qed

text \<open>Of the block networks of one size, only one contains a given address.\<close>

lemma block_network_unique:
  assumes "Contains n ip" "cidr_ok n" "Contains n' ip" "cidr_ok n'" and "ones n = ones n'"
  shows "n = n'"
proof -
  have v: "Version (net_IP n) = Version (net_IP n')" using assms(1,3) by (simp add: Contains_iff)
  then have z: "zeros n = zeros n'" using assms(5) by (simp add: zeros_def Version_ip_bits)
  have "IPToBigInt (net_IP n) div 2 ^ zeros n = IPToBigInt (net_IP n') div 2 ^ zeros n"
    using assms(1,3) z by (simp add: Contains_iff)
  moreover have "IPToBigInt (net_IP n) mod 2 ^ zeros n = IPToBigInt (net_IP n') mod 2 ^ zeros n"
    using assms(2,4) z by (simp add: cidr_ok_def)
  ultimately have "IPToBigInt (net_IP n) = IPToBigInt (net_IP n')" by (metis div_mult_mod_eq)
  then have "net_IP n = net_IP n'" using v by (simp add: IP_eq_iff)
  then show ?thesis using assms(5) by simp
qed

definition cooling :: "AllocationAttribute \<Rightarrow> bool" where
  "cooling a \<longleftrightarrow> HandleID a = None \<and> ReleasedAt a \<noteq> None"

text \<open>What any call does to a block, and in particular to an address that is cooling down.\<close>

definition good_step :: "block_call \<Rightarrow> AllocationBlock \<Rightarrow> AllocationBlock \<Rightarrow> bool" where
  "good_step c b b' \<longleftrightarrow> block_inv b' \<and> CIDR b' = CIDR b
     \<and> (\<forall>x a. attr_at b x = Some a \<longrightarrow> cooling a \<longrightarrow>
          attr_at b' x = Some a \<or> (\<exists>now cd. gc_clock c = Some (now, cd) \<and> attr_at b' x = gc_view now cd (attr_at b) x))"

lemma good_step_refl: "block_inv b \<Longrightarrow> good_step c b b"
  by (simp add: good_step_def)

lemma auto_assign_step: "block_inv b \<Longrightarrow> \<exists>b'. block_step (AutoAssign num h cfg a chk f) b = Return b'
    \<and> good_step (AutoAssign num h cfg a chk f) b b'"
proof (cases "affinity_error chk cfg b")
  case (Some e)
  then show "block_inv b \<Longrightarrow> ?thesis" by (simp add: autoAssign_def good_step_refl)
next
  case None
  assume inv: "block_inv b"
  let ?ch = "chosen num f (CIDR b) (Unallocated b)"
  obtain b' where b': "autoAssign num h cfg a chk f b = Return (Inr (map (ordinal_net (CIDR b)) ?ch), b')"
    "block_inv b'" "CIDR b' = CIDR b"
    "attr_at b' = (\<lambda>o'. if o' \<in> set ?ch then Some (plain_attr h a None) else attr_at b o')"
    using autoAssign_spec [OF inv None refl] by blast
  have "x \<notin> set ?ch" if "attr_at b x = Some a'" for x a'
    using that block_invD(4) [OF inv, of x] by (auto simp: attr_at_def dest: chosen_in split: if_splits)
  with b' show ?thesis by (simp add: good_step_def)
qed

lemma assign_step: "block_inv b \<Longrightarrow> \<exists>b'. block_step (Assign chk ip h a cfg) b = Return b'
    \<and> good_step (Assign chk ip h a cfg) b b'"
proof (cases "affinity_error chk cfg b")
  case (Some e)
  then show "block_inv b \<Longrightarrow> ?thesis" by (simp add: assign_def good_step_refl)
next
  case None
  assume inv: "block_inv b"
  show ?thesis
  proof (cases "IPToOrdinal b ip")
    case (Inl e)
    with None inv show ?thesis by (simp add: assign_def good_step_refl)
  next
    case (Inr o')
    show ?thesis
    proof (cases "attr_at b o'")
      case free: None
      from assign_free [OF inv None Inr free, of h a] free show ?thesis by (auto simp: good_step_def)
    next
      case (Some a')
      then have "attr_at b o' \<noteq> None" by simp
      from assign_taken [OF inv None Inr this, of h a] show ?thesis by (auto simp: good_step_def)
    qed
  qed
qed

lemma release_step:
  assumes "block_inv b" and "call_ok (Release now now' cd parseIP ks addresses)"
  shows "\<exists>b'. block_step (Release now now' cd parseIP ks addresses) b = Return b'
    \<and> good_step (Release now now' cd parseIP ks addresses) b b'"
proof -
  let ?ns = "all_noted parseIP b (requested (uniqueAddresses addresses) ks)"
  have parse: "\<forall>k \<in> dom (uniqueAddresses addresses). parseIP k \<noteq> None"
    using assms(2) by (simp add: dom_uniqueAddresses list_all_iff)
  have "x \<notin> fst ` set ?ns" if "attr_at b x = Some a" "cooling a" for x a
  proof
    assume "x \<in> fst ` set ?ns"
    then obtain h where "(x, h) \<in> set ?ns" by auto
    from all_noted_in [OF this] noted_allocated [OF assms(1)] that show False by (fastforce simp: cooling_def)
  qed
  then show ?thesis
    using release_spec [OF assms(1) parse refl, of now now' cd ks] good_step_refl [OF assms(1)]
    by (auto simp: good_step_def same_block_def gc_view_def)
qed

lemma by_handle_call_step: "block_inv b \<Longrightarrow> \<exists>b'. block_step (ReleaseByHandle now now' cd opts) b = Return b'
    \<and> good_step (ReleaseByHandle now now' cd opts) b b'"
proof -
  assume inv: "block_inv b"
  let ?os = "filter (handle_match opts b) [0..<size_of b]"
  obtain b' where b': "releaseByHandle now now' cd opts b = Return (length ?os, b')" "block_inv b'" "same_block b b'"
    and other: "\<forall>x. x \<notin> set ?os \<longrightarrow> attr_at b' x = attr_at b x \<or> attr_at b' x = gc_view now' cd (attr_at b) x"
    using releaseByHandle_spec [OF inv refl, of now now' cd opts] by blast
  have "x \<notin> set ?os" if "attr_at b x = Some a" "cooling a" for x a
    using that by (simp add: handle_match_def cooling_def handle_is_def)
  with other b' show ?thesis by (simp add: good_step_def same_block_def) metis
qed

lemma update_step: "block_inv b \<Longrightarrow> \<exists>b'. block_step (UpdateOwnership now cd ip pre u) b = Return b'
    \<and> good_step (UpdateOwnership now cd ip pre u) b b'"
proof -
  assume inv: "block_inv b"
  show ?thesis
  proof (cases "\<exists>x a. IPToOrdinal b ip = Inr x \<and> attr_at b x = Some a \<and> permits pre a")
    case True
    then obtain x a where x: "IPToOrdinal b ip = Inr x" "attr_at b x = Some a" "permits pre a" by blast
    from ownership_done [OF inv this refl, of now cd u]
    obtain b' where run: "updateAllocationOwnership now cd ip pre u b = Return (Inr (attr_handle a), b')" "block_inv b'" "same_block b b'"
      and other: "\<And>y. y \<noteq> x \<Longrightarrow> attr_at b' y = attr_at b y \<or> attr_at b' y = gc_view now cd (attr_at b) y"
      by (fastforce simp: gc_view_def)
    have "y \<noteq> x" if "attr_at b y = Some a'" "cooling a'" for y a' using that x by (auto simp: cooling_def permits_def)
    with other run show ?thesis by (simp add: good_step_def same_block_def) metis
  next
    case False
    then have "\<exists>e. updateAllocationOwnership now cd ip pre u b = Return (Inl e, b)"
      using ownership_refused [OF inv, of ip] by (cases "IPToOrdinal b ip"; metis option.exhaust)
    then show ?thesis using good_step_refl [OF inv] by auto
  qed
qed

lemma gc_call_step: "block_inv b \<Longrightarrow> \<exists>b'. block_step (GarbageCollect now cd) b = Return b'
    \<and> good_step (GarbageCollect now cd) b b'"
  using garbageCollect_spec [of b now cd] by (auto simp: good_step_def same_block_def)

lemma block_step_good:
  assumes "block_inv b" and "call_ok c"
  shows "\<exists>b'. block_step c b = Return b' \<and> good_step c b b'"
proof (cases c)
  case AutoAssign
  show ?thesis unfolding AutoAssign by (rule auto_assign_step [OF assms(1)])
next
  case Assign
  show ?thesis unfolding Assign by (rule assign_step [OF assms(1)])
next
  case Release
  show ?thesis unfolding Release by (rule release_step [OF assms(1) assms(2) [unfolded Release]])
next
  case ReleaseByHandle
  show ?thesis unfolding ReleaseByHandle by (rule by_handle_call_step [OF assms(1)])
next
  case UpdateOwnership
  show ?thesis unfolding UpdateOwnership by (rule update_step [OF assms(1)])
next
  case GarbageCollect
  show ?thesis unfolding GarbageCollect by (rule gc_call_step [OF assms(1)])
qed

lemma block_run_good:
  assumes "block_inv b" and "list_all call_ok cs"
  shows "\<exists>b'. run_fold block_step cs b = Return b' \<and> block_inv b' \<and> CIDR b' = CIDR b"
  using assms
proof (induction cs arbitrary: b)
  case (Cons c cs)
  then obtain b1 where b1: "block_step c b = Return b1" "good_step c b b1" using block_step_good [of b c] by auto
  with Cons.IH [of b1] Cons.prems show ?case by (auto simp: good_step_def)
qed simp

text \<open>A call whose garbage collection runs within the cooldown of \<open>t\<close>.\<close>

definition within_cooldown :: "int \<Rightarrow> block_call \<Rightarrow> bool" where
  "within_cooldown t c \<longleftrightarrow> (\<forall>now cd. gc_clock c = Some (now, cd) \<longrightarrow> 0 \<le> cd \<and> now \<le> t + cd * 1000000000)"

lemma gc_view_cooling:
  assumes "m x = Some a" and "ReleasedAt a = Some t" and "0 \<le> cd" and "now \<le> t + cd * 1000000000"
  shows "gc_view now cd m x = Some a"
  using assms by (simp add: gc_view_def deallocatable_def)

lemma block_run_cooling:
  assumes "block_inv b" and "list_all call_ok cs" and "list_all (within_cooldown t) cs"
    and "attr_at b x = Some a" and "cooling a" and "ReleasedAt a = Some t"
  shows "\<exists>b'. run_fold block_step cs b = Return b' \<and> attr_at b' x = Some a"
  using assms
proof (induction cs arbitrary: b)
  case (Cons c cs)
  then obtain b1 where b1: "block_step c b = Return b1" "good_step c b b1" using block_step_good [of b c] by auto
  have "attr_at b1 x = Some a"
  proof -
    have "attr_at b1 x = Some a \<or> (\<exists>now cd. gc_clock c = Some (now, cd) \<and> attr_at b1 x = gc_view now cd (attr_at b) x)"
      using b1(2) Cons.prems(4,5) unfolding good_step_def by blast
    then show ?thesis
    proof (elim disjE exE conjE)
      fix now cd assume "gc_clock c = Some (now, cd)" and eq: "attr_at b1 x = gc_view now cd (attr_at b) x"
      then have "0 \<le> cd" "now \<le> t + cd * 1000000000" using Cons.prems(3) by (auto simp: within_cooldown_def)
      from gc_view_cooling [of "attr_at b" x a t, OF Cons.prems(4,6) this] eq show ?thesis by simp
    qed
  qed
  with Cons.IH [of b1] Cons.prems b1 show ?case by (auto simp: good_step_def)
qed simp

end
