(* ===== verification/IPAM_Properties.thy ===== *)
theory IPAM_Properties
  imports IPAM_System
begin

text \<open>The properties of address allocation, with their witnesses on a block of four addresses.\<close>

section \<open>The witnesses' block\<close>

definition wit_cidr :: IPNet where
  "wit_cidr = \<lparr>net_IP = V4 0x0A000000, ones = 30\<rparr>"

definition wit_attr :: AllocationAttribute where
  "wit_attr = plain_attr (Some ''h'') None None"

definition wit_block :: AllocationBlock where
  "wit_block = \<lparr>CIDR = wit_cidr, Affinity = None, Allocations = [Some 0, None, None, None], Unallocated = [1, 2, 3],
     Attributes = [wit_attr], SequenceNumber = 7, SequenceNumberForAllocation = [0 \<mapsto> 6], Deleted = False\<rparr>"

definition wit_affinity :: AffinityConfig where
  "wit_affinity = \<lparr>AffinityType = affinity_host, aff_Host = ''n1''\<rparr>"

lemma wit_cidr_ok: "cidr_ok wit_cidr" "net_size wit_cidr = 4" "net_ok wit_cidr"
  by (simp_all add: cidr_ok_def net_ok_def zeros_def wit_cidr_def net_size_def)

lemma less_4: "(x :: nat) < 4 \<longleftrightarrow> x = 0 \<or> x = 1 \<or> x = 2 \<or> x = 3"
  by auto

lemma wit_block_inv: "block_inv wit_block" "size_of wit_block = 4" "attr_at wit_block 0 = Some wit_attr"
proof -
  show sz: "size_of wit_block = 4" using wit_cidr_ok by (simp add: size_of_def wit_block_def)
  have "o' \<in> set (Unallocated wit_block) \<longleftrightarrow> o' < 4 \<and> Allocations wit_block ! o' = None" for o'
    unfolding less_4 by (auto simp: wit_block_def)
  moreover have "Allocations wit_block ! o' = Some i \<longrightarrow> i < length (Attributes wit_block)" if "o' < 4" for o' i
    using that unfolding less_4 by (auto simp: wit_block_def)
  ultimately show "block_inv wit_block"
    unfolding block_inv_def sz using wit_cidr_ok(1) by (simp add: wit_block_def)
  show "attr_at wit_block 0 = Some wit_attr" using sz by (simp add: attr_at_def wit_block_def)
qed

lemma wit_no_error: "affinity_error False wit_affinity wit_block = None"
  by (simp add: affinity_error_def wit_block_def)

section \<open>Properties\<close>

text \<open>C21. A block that is created for a well-formed network, with a reservation that fits, goes through
  any sequence of assignments, releases, ownership updates and garbage collections without a panic,
  and always satisfies the invariant: the free queue holds exactly the ordinals without an
  allocation, each once, and every allocation has its attributes.\<close>

theorem block_invariant:
  assumes "cidr_ok cidr" and "list_all call_ok cs"
    and "\<forall>r. rsvd = Some r \<longrightarrow> 0 \<le> StartOfBlock r \<and> 0 \<le> EndOfBlock r \<and> StartOfBlock r + EndOfBlock r \<le> int (net_size cidr)"
  shows "\<exists>b b'. newBlock now cidr rsvd = Return b \<and> run_fold block_step cs b = Return b' \<and> block_inv b' \<and> CIDR b' = cidr"
proof -
  obtain b where b: "newBlock now cidr rsvd = Return b" "block_inv b" "CIDR b = cidr"
    using newBlock_inv [OF assms(1,3)] by blast
  from block_run_good [OF b(2) assms(2)] b show ?thesis by auto
qed

theorem block_invariant_witness:
  "\<exists>b b'. newBlock 7 wit_cidr (Some \<lparr>StartOfBlock = 1, EndOfBlock = 1, rsvd_Handle = ''w'', Note = []\<rparr>) = Return b
    \<and> run_fold block_step [AutoAssign 2 (Some ''h'') wit_affinity None False nilAddrFilter, GarbageCollect 5 0] b = Return b'
    \<and> block_inv b' \<and> CIDR b' = wit_cidr"
  by (rule block_invariant [OF wit_cidr_ok(1)]) (simp_all add: wit_cidr_ok)

text \<open>C22. An automatic assignment that passes the affinity check hands out the first usable ordinals of
  the free queue, at most as many as asked for: their addresses are distinct from every allocated
  one, none is matched by the reservations, they get the handle and the attributes and the block's
  sequence number, and no other ordinal changes.\<close>

theorem auto_assign:
  assumes "block_inv b" and "affinity_error chk cfg b = None"
  shows "\<exists>os b'. autoAssign num h cfg a chk f b = Return (Inr (map (ordinal_net (CIDR b)) os), b')
    \<and> os = take (nat num) (filter (\<lambda>x. \<not> MatchesIP f (nth_ip (CIDR b) x)) (Unallocated b))
    \<and> distinct os \<and> (\<forall>x \<in> set os. attr_at b x = None)
    \<and> block_inv b' \<and> Unallocated b' = filter (\<lambda>x. x \<notin> set os) (Unallocated b)
    \<and> attr_at b' = (\<lambda>x. if x \<in> set os then Some (plain_attr h a None) else attr_at b x)
    \<and> (\<forall>x \<in> set os. GetSequenceNumberForOrdinal b' x = SequenceNumber b)"
proof -
  let ?os = "chosen num f (CIDR b) (Unallocated b)"
  have "?os = take (nat num) (filter (\<lambda>x. \<not> MatchesIP f (nth_ip (CIDR b) x)) (Unallocated b))"
    by (simp add: chosen_def usable_def [abs_def])
  moreover have "distinct ?os" using block_invD(3) [OF assms(1)] by (simp add: chosen_def)
  moreover have "\<forall>x \<in> set ?os. attr_at b x = None"
    using block_invD(4) [OF assms(1)] by (auto simp: attr_at_def dest!: chosen_in)
  ultimately show ?thesis using autoAssign_spec [OF assms refl, where num = num and f = f and h = h and a = a] by blast
qed

theorem auto_assign_witness:
  "\<exists>os b'. autoAssign 2 (Some ''h'') wit_affinity None False nilAddrFilter wit_block
      = Return (Inr (map (ordinal_net wit_cidr) os), b')
    \<and> os = [1, 2] \<and> block_inv b' \<and> Unallocated b' = [3] \<and> attr_at b' 1 = Some wit_attr"
proof -
  obtain os b' where r: "autoAssign 2 (Some ''h'') wit_affinity None False nilAddrFilter wit_block
      = Return (Inr (map (ordinal_net (CIDR wit_block)) os), b')"
    "os = take (nat 2) (filter (\<lambda>x. \<not> MatchesIP nilAddrFilter (nth_ip (CIDR wit_block) x)) (Unallocated wit_block))"
    "block_inv b'" "Unallocated b' = filter (\<lambda>x. x \<notin> set os) (Unallocated wit_block)"
    "attr_at b' = (\<lambda>x. if x \<in> set os then Some (plain_attr (Some ''h'') None None) else attr_at wit_block x)"
    using auto_assign [OF wit_block_inv(1) wit_no_error, where num = 2 and f = nilAddrFilter and h = "Some ''h''" and a = None] by blast
  have os: "os = [1, 2]" using r(2) by (simp add: nilAddrFilter_def wit_block_def numeral_2_eq_2)
  have "Unallocated b' = [3]" unfolding r(4) os by (simp add: wit_block_def)
  moreover have "attr_at b' 1 = Some wit_attr" unfolding r(5) os by (simp add: wit_attr_def)
  moreover have "CIDR wit_block = wit_cidr" by (simp add: wit_block_def)
  ultimately show ?thesis using r(1,3) os by metis
qed



text \<open>C23. An address that was released at time \<open>t\<close> stays allocated to its cooldown entry, and so out of
  the free queue, through any sequence of operations whose garbage collections read a clock of at
  most \<open>t\<close> plus the cooldown.\<close>

theorem cooldown_not_reused:
  assumes "block_inv b" and "list_all call_ok cs" and "list_all (within_cooldown t) cs"
    and "attr_at b x = Some (cooldown_attr t)"
  shows "\<exists>b'. run_fold block_step cs b = Return b' \<and> attr_at b' x = Some (cooldown_attr t) \<and> x \<notin> set (Unallocated b')"
proof -
  obtain b' where b': "run_fold block_step cs b = Return b'" "attr_at b' x = Some (cooldown_attr t)"
    using block_run_cooling [OF assms] by (auto simp: cooling_def cooldown_attr_def)
  obtain b2 where "run_fold block_step cs b = Return b2" "block_inv b2" using block_run_good [OF assms(1,2)] by blast
  with b' have "block_inv b'" by simp
  from block_invD(4) [OF this, of x] b' show ?thesis by (auto simp: attr_at_def split: if_splits)
qed

definition wit_cooling :: AllocationBlock where
  "wit_cooling = wit_block\<lparr>Attributes := [cooldown_attr 100]\<rparr>"

lemma wit_cooling_ok: "block_inv wit_cooling" "attr_at wit_cooling 0 = Some (cooldown_attr 100)"
  using wit_block_inv by (simp_all add: wit_cooling_def block_inv_def attr_at_def size_of_def wit_block_def)

theorem cooldown_not_reused_witness:
  "\<exists>b'. run_fold block_step [AutoAssign 4 None wit_affinity None False nilAddrFilter, GarbageCollect 3000000100 3] wit_cooling = Return b'
    \<and> attr_at b' 0 = Some (cooldown_attr 100) \<and> 0 \<notin> set (Unallocated b')"
  by (rule cooldown_not_reused [OF wit_cooling_ok(1) _ _ wit_cooling_ok(2)]) (simp_all add: within_cooldown_def)







text \<open>C25. Garbage collection frees exactly the ordinals whose cooldown is over and appends them, in
  order, to the free queue; every other ordinal keeps its attributes although the attributes are
  renumbered; and every attribute that is left is used.\<close>

theorem garbage_collect_effect:
  assumes "block_inv b"
  shows "\<exists>changed b'. garbageCollect now cd b = Return (changed, b') \<and> block_inv b'
    \<and> attr_at b' = (\<lambda>x. case attr_at b x of None \<Rightarrow> None | Some a \<Rightarrow> if deallocatable now cd a then None else Some a)
    \<and> Unallocated b' = Unallocated b @ filter (\<lambda>x. attr_at b x \<noteq> None \<and> attr_at b' x = None) [0..<size_of b]
    \<and> (\<forall>i < length (Attributes b'). Some i \<in> set (Allocations b'))"
proof -
  obtain changed b' where gc: "garbageCollect now cd b = Return (changed, b')" "block_inv b'"
    "attr_at b' = gc_view now cd (attr_at b)" "Unallocated b' = Unallocated b @ filter (expired now cd b) [0..<size_of b]"
    and used: "\<forall>i < length (Attributes b'). \<exists>o' < size_of b'. Allocations b' ! o' = Some i"
    using garbageCollect_spec [OF assms, of now cd] by blast
  have "expired now cd b = (\<lambda>x. attr_at b x \<noteq> None \<and> attr_at b' x = None)"
    using gc(3) by (auto simp: fun_eq_iff expired_def gc_view_def split: option.splits if_splits)
  moreover have "Some i \<in> set (Allocations b')" if "i < length (Attributes b')" for i
    using used that block_invD(2) [OF gc(2)] by (metis nth_mem)
  moreover have "attr_at b' = (\<lambda>x. case attr_at b x of None \<Rightarrow> None | Some a \<Rightarrow> if deallocatable now cd a then None else Some a)"
    using gc(3) by (simp add: fun_eq_iff gc_view_def)
  ultimately show ?thesis using gc(1,2,4) by auto
qed

theorem garbage_collect_effect_witness:
  "\<exists>changed b'. garbageCollect 5000000000 3 wit_cooling = Return (changed, b') \<and> block_inv b' \<and> Unallocated b' = [1, 2, 3, 0]
    \<and> attr_at b' 0 = None"
proof -
  obtain changed b' where r: "garbageCollect 5000000000 3 wit_cooling = Return (changed, b')" "block_inv b'"
    "attr_at b' = (\<lambda>x. case attr_at wit_cooling x of None \<Rightarrow> None | Some a \<Rightarrow> if deallocatable 5000000000 3 a then None else Some a)"
    "Unallocated b' = Unallocated wit_cooling @ filter (\<lambda>x. attr_at wit_cooling x \<noteq> None \<and> attr_at b' x = None) [0..<size_of wit_cooling]"
    using garbage_collect_effect [OF wit_cooling_ok(1), of 5000000000 3] by blast
  have free: "attr_at b' 0 = None"
    unfolding r(3) by (simp add: wit_cooling_ok(2) deallocatable_def cooldown_attr_def)
  have sz: "size_of wit_cooling = 4" using wit_block_inv(2) by (simp add: wit_cooling_def size_of_def)
  have other: "attr_at wit_cooling 1 = None" "attr_at wit_cooling 2 = None" "attr_at wit_cooling 3 = None"
    by (simp_all add: attr_at_def sz) (simp_all add: wit_cooling_def wit_block_def)
  have "[0..<4] = [0, 1, 2, 3 :: nat]" by (simp add: upt_rec)
  then have "Unallocated b' = [1, 2, 3, 0]"
    unfolding r(4) sz using free other wit_cooling_ok(2) by (simp add: wit_cooling_def wit_block_def)
  with r(1,2) free show ?thesis by blast
qed





text \<open>C29. The address of an ordinal lies in the block, and it is converted back to the ordinal.\<close>

theorem ordinal_roundtrip:
  assumes "block_inv b" and "x < size_of b"
  shows "\<exists>ip. OrdinalToIP b x = Return ip \<and> Contains (CIDR b) ip \<and> IPToOrdinal b ip = Inr x"
  using block_ordinal_ip [OF assms] nth_ip_ok(4) [OF block_invD(1) [OF assms(1)], of x] assms(2)
  by (simp add: size_of_def)

theorem ordinal_roundtrip_witness:
  "\<exists>ip. OrdinalToIP wit_block 3 = Return ip \<and> Contains wit_cidr ip \<and> IPToOrdinal wit_block ip = Inr 3"
proof -
  have "CIDR wit_block = wit_cidr" by (simp add: wit_block_def)
  with ordinal_roundtrip [OF wit_block_inv(1), of 3] wit_block_inv(2) show ?thesis by simp
qed

text \<open>C30. The block that is computed for an address contains the address, is a well-formed block
  network, and has the prefix length and so the number of addresses that are asked for; it is the only
  network of that prefix length that contains the address.\<close>

theorem block_of_address:
  assumes "blockSize \<le> ip_bits ip" and "ip_bits ip - blockSize < 63" and "n = getBlockCIDRForAddress ip blockSize"
  shows "Contains n ip \<and> cidr_ok n \<and> ones n = blockSize \<and> NumAddrs n = 2 ^ (ip_bits ip - blockSize)
    \<and> (\<forall>n'. Contains n' ip \<longrightarrow> cidr_ok n' \<longrightarrow> ones n' = blockSize \<longrightarrow> n' = n)"
proof -
  let ?z = "ip_bits ip - blockSize" and ?n = "getBlockCIDRForAddress ip blockSize"
  have v: "ip_bits (mask_ip ?z ip) = ip_bits ip" "Version (mask_ip ?z ip) = Version ip"
    by (cases ip; simp add: mask_ip_def)+
  then have z: "zeros ?n = ?z" by (simp add: zeros_def getBlockCIDRForAddress_def)
  have clear: "uint (a AND NOT (mask k)) mod 2 ^ k = 0" for a :: "'a :: len word" and k
  proof -
    have "take_bit k (uint (a AND NOT (mask k))) = 0"
      by (rule bit_eqI) (simp add: bit_take_bit_iff bit_uint_iff bit_and_iff bit_not_iff bit_mask_iff)
    then show ?thesis by (simp add: take_bit_eq_mod)
  qed
  have "Contains ?n ip"
    using v z by (cases ip) (simp_all add: Contains_def getBlockCIDRForAddress_def mask_ip_def and.assoc)
  moreover have "IPToBigInt (mask_ip ?z ip) mod 2 ^ ?z = 0"
    by (cases ip) (simp_all add: mask_ip_def clear)
  moreover have "ones ?n = blockSize" "net_IP ?n = mask_ip ?z ip" by (simp_all add: getBlockCIDRForAddress_def)
  ultimately have n: "Contains n ip" "cidr_ok n" "ones n = blockSize"
    using assms v(1) z by (simp_all add: cidr_ok_def net_ok_def)
  have num: "NumAddrs n = 2 ^ ?z" using z assms(3) by (simp add: NumAddrs_def)
  have "n' = n" if n': "Contains n' ip" "cidr_ok n'" "ones n' = blockSize" for n'
    using block_network_unique [OF n'(1,2) n(1,2)] n'(3) n(3) by simp
  with n num show ?thesis by (intro conjI allI impI)
qed

theorem block_of_address_witness:
  "Contains \<lparr>net_IP = V4 0x0A000000, ones = 26\<rparr> (V4 0x0A000037) \<and> cidr_ok \<lparr>net_IP = V4 0x0A000000, ones = 26\<rparr>
    \<and> NumAddrs \<lparr>net_IP = V4 0x0A000000, ones = 26\<rparr> = 64"
proof -
  have "\<lparr>net_IP = V4 0x0A000000, ones = 26\<rparr> = getBlockCIDRForAddress (V4 0x0A000037) 26"
    by (simp add: getBlockCIDRForAddress_def mask_ip_def mask_eq_exp_minus_1)
  from block_of_address [OF _ _ this] show ?thesis by simp
qed

text \<open>C31. A release request that spells one address in two ways counts it twice for its handle,
  although only that address is released: the requests are told apart by their text.\<close>

theorem release_counts_spellings:
  assumes "block_inv b" and "x < size_of b" and "attr_at b x = Some a" and "ReleasedAt a = None" and "attr_handle a \<noteq> []"
    and "s \<noteq> s'" and "parseIP s = Some (nth_ip (CIDR b) x)" and "parseIP s' = Some (nth_ip (CIDR b) x)"
  shows "\<exists>u counts b'. release now now' cd parseIP [s, s']
        [\<lparr>Address = s, opt_Handle = [], opt_SequenceNumber = None\<rparr>, \<lparr>Address = s', opt_Handle = [], opt_SequenceNumber = None\<rparr>] b
      = Return (Inr (u, counts), b')
    \<and> counts (attr_handle a) = Some 2
    \<and> (\<forall>y. y \<noteq> x \<longrightarrow> attr_at b' y = gc_view now' cd (attr_at b) y)"
proof -
  obtain i where i: "Allocations b ! x = Some i" "Attributes b ! i = a"
    using assms(2,3) by (auto simp: attr_at_def)
  have one: "release_one parseIP b t \<lparr>Address = t', opt_Handle = [], opt_SequenceNumber = None\<rparr>
      = Return (Inr (Noted x (attr_handle a)))" if "t \<in> {s, s'}" for t t'
    using that assms i block_ordinal_ip(2) [OF assms(1,2)] block_invD(2) [OF assms(1)] block_invD(5) [OF assms(1,2) i(1)]
    by (auto simp: release_one_def sequence_conflict_def)
  let ?addresses = "[\<lparr>Address = s, opt_Handle = [], opt_SequenceNumber = None\<rparr>, \<lparr>Address = s', opt_Handle = [], opt_SequenceNumber = None\<rparr>]"
  have loop: "release_loop parseIP b (uniqueAddresses ?addresses) [s, s'] ([], Map.empty, [])
      = Return (Inr ([], count_handle (attr_handle a) (count_handle (attr_handle a) Map.empty), [x, x]))"
    using assms(6) one by (simp add: uniqueAddresses_def)
  have alloc: "\<forall>y \<in> set [x, x]. y < size_of b \<and> attr_at b y \<noteq> None" using assms(2,3) by simp
  obtain b' where "release now now' cd parseIP [s, s'] ?addresses b
      = Return (Inr ([], count_handle (attr_handle a) (count_handle (attr_handle a) Map.empty)), b')"
    "attr_at b' = gc_view now' cd (\<lambda>y. if y \<in> set [x, x] then Some (cooldown_attr now) else attr_at b y)"
    using release_ok [OF assms(1) alloc loop, of now now' cd] by auto
  with assms(5) show ?thesis by (auto simp: count_handle_def gc_view_def)
qed

theorem release_counts_spellings_witness:
  "\<exists>u counts b'. release 50 60 3 (\<lambda>_. Some (nth_ip (CIDR wit_block) 0)) [''10.0.0.0'', ''::ffff:10.0.0.0'']
        [\<lparr>Address = ''10.0.0.0'', opt_Handle = [], opt_SequenceNumber = None\<rparr>,
         \<lparr>Address = ''::ffff:10.0.0.0'', opt_Handle = [], opt_SequenceNumber = None\<rparr>] wit_block
      = Return (Inr (u, counts), b')
    \<and> counts (attr_handle wit_attr) = Some 2
    \<and> (\<forall>y. y \<noteq> 0 \<longrightarrow> attr_at b' y = gc_view 60 3 (attr_at wit_block) y)"
  by (rule release_counts_spellings [OF wit_block_inv(1) _ wit_block_inv(3)])
     (simp_all add: wit_block_inv(2) wit_attr_def plain_attr_def attr_handle_def sanitizeHandle_def)

text \<open>C27. A filter made of a slice of networks says that it matches a whole network exactly when every
  address of the network is in one of its networks.\<close>

theorem whole_cidr_matched:
  assumes "list_all net_ok c" and "net_ok cand"
  shows "MatchesWholeCIDR (cidrSliceFilter c) cand \<longleftrightarrow> (\<forall>ip. Contains cand ip \<longrightarrow> MatchesIP (cidrSliceFilter c) ip)"
  using MatchesWholeCIDR_iff [OF assms] by (auto simp: cidrSliceFilter_def cidr_MatchesIP_iff)

theorem whole_cidr_matched_witness:
  "MatchesWholeCIDR (cidrSliceFilter [\<lparr>net_IP = V4 0x0A000000, ones = 31\<rparr>, \<lparr>net_IP = V4 0x0A000002, ones = 31\<rparr>]) wit_cidr
   \<longleftrightarrow> (\<forall>ip. Contains wit_cidr ip \<longrightarrow>
          MatchesIP (cidrSliceFilter [\<lparr>net_IP = V4 0x0A000000, ones = 31\<rparr>, \<lparr>net_IP = V4 0x0A000002, ones = 31\<rparr>]) ip)"
  by (rule whole_cidr_matched [OF _ wit_cidr_ok(3)]) (simp add: net_ok_def)

text \<open>C32. A handle's count of a block goes up and down by the numbers given: taking back what was added
  restores the handle, when its counts are positive, and taking more than there is is refused
  without a change.\<close>

theorem handle_counts:
  assumes "0 < num" and "\<forall>k n. h k = Some n \<longrightarrow> 0 < n"
  shows "snd (decrementBlock blockId num (snd (incrementBlock blockId num h))) = h
    \<and> (\<forall>n. h blockId = Some n \<longrightarrow> n < num \<longrightarrow> decrementBlock blockId num h = (Inl (TooFew blockId n), h))
    \<and> (\<forall>k n. snd (incrementBlock blockId num h) k = Some n \<longrightarrow> 0 < n)"
proof (cases "h blockId")
  case None
  with assms show ?thesis by (auto simp: incrementBlock_def decrementBlock_def Let_def fun_eq_iff)
next
  case (Some n)
  with assms(2) have n: "\<not> n < 0" "n \<noteq> 0" by fastforce+
  have "0 < m" if "snd (incrementBlock blockId num h) k = Some m" for k m
    using that Some n assms(1) assms(2) [rule_format, of k m] by (auto simp: incrementBlock_def Let_def split: if_splits)
  with Some n assms(1) show ?thesis by (auto simp: incrementBlock_def decrementBlock_def Let_def fun_eq_iff)
qed

theorem handle_counts_witness:
  "snd (decrementBlock ''10.0.0.0/30'' 2 (snd (incrementBlock ''10.0.0.0/30'' 2 [''10.0.0.0/30'' \<mapsto> 1]))) = [''10.0.0.0/30'' \<mapsto> 1]"
  by (rule handle_counts [THEN conjunct1]) (auto split: if_splits)

end
