(* ===== verification/Ordered_Tree.thy ===== *)
theory Ordered_Tree
  imports Calico_Base
begin

text \<open>
  What the code relies on of \<^verbatim>\<open>github.com/google/btree\<close>: an ordered tree over a comparison
  function, observed through the sequence that \<^verbatim>\<open>Ascend\<close> visits. The library is not part of the
  repository, so its operations are a parameter of the models that use them, and the locale
  \<open>ordered_tree\<close> states its documented behaviour.
\<close>

record ('a, 't) btree =
  bt_New :: 't
  bt_ReplaceOrInsert :: "'a \<Rightarrow> 't \<Rightarrow> 't"
  bt_Delete :: "'a \<Rightarrow> 't \<Rightarrow> 't"
  bt_Ascend :: "'t \<Rightarrow> 'a list"
  bt_Len :: "'t \<Rightarrow> nat"

text \<open>Insertion in a sorted list, replacing an item that compares equal, and removal.\<close>

fun put_sorted :: "('a \<Rightarrow> 'a \<Rightarrow> bool) \<Rightarrow> 'a \<Rightarrow> 'a list \<Rightarrow> 'a list" where
  "put_sorted lt x [] = [x]"
| "put_sorted lt x (y # ys) =
     (if lt x y then x # y # ys else if lt y x then y # put_sorted lt x ys else x # ys)"

fun drop_sorted :: "('a \<Rightarrow> 'a \<Rightarrow> bool) \<Rightarrow> 'a \<Rightarrow> 'a list \<Rightarrow> 'a list" where
  "drop_sorted lt x [] = []"
| "drop_sorted lt x (y # ys) =
     (if lt x y then y # ys else if lt y x then y # drop_sorted lt x ys else ys)"

definition same :: "('a \<Rightarrow> 'a \<Rightarrow> bool) \<Rightarrow> 'a \<Rightarrow> 'a \<Rightarrow> bool" where
  "same lt x y \<longleftrightarrow> \<not> lt x y \<and> \<not> lt y x"

text \<open>A strict weak order on the items that \<open>ok\<close> admits, which is what the library asks of the
  comparison.\<close>

locale item_order =
  fixes ok :: "'a \<Rightarrow> bool" and lt :: "'a \<Rightarrow> 'a \<Rightarrow> bool"
  assumes irrefl: "ok x \<Longrightarrow> \<not> lt x x"
    and trans: "ok x \<Longrightarrow> ok y \<Longrightarrow> ok z \<Longrightarrow> lt x y \<Longrightarrow> lt y z \<Longrightarrow> lt x z"
    and cotrans: "ok x \<Longrightarrow> ok y \<Longrightarrow> ok z \<Longrightarrow> lt x z \<Longrightarrow> lt x y \<or> lt y z"
begin

lemma asym: "ok x \<Longrightarrow> ok y \<Longrightarrow> lt x y \<Longrightarrow> \<not> lt y x"
  using irrefl trans by blast

lemma set_put_sorted:
  "sorted_wrt lt xs \<Longrightarrow> list_all ok xs \<Longrightarrow> ok x \<Longrightarrow> set (put_sorted lt x xs) = insert x {y \<in> set xs. \<not> same lt x y}"
proof (induction xs)
  case (Cons y ys)
  have rest: "\<not> same lt x z" if "z \<in> set ys" "\<not> lt y x" for z
  proof -
    have z: "ok z" "lt y z" using that Cons.prems by (auto simp: list_all_iff)
    then have "lt x z" using cotrans [of y x z] that Cons.prems by auto
    then show ?thesis by (simp add: same_def)
  qed
  show ?case
    using Cons rest asym [of x y] by (auto simp: same_def)
qed (simp add: same_def)

lemma sorted_put_sorted:
  "sorted_wrt lt xs \<Longrightarrow> list_all ok xs \<Longrightarrow> ok x \<Longrightarrow> sorted_wrt lt (put_sorted lt x xs)"
proof (induction xs)
  case (Cons y ys)
  have above: "lt x z" if "z \<in> set ys" "\<not> lt y x" for z
    using cotrans [of y x z] that Cons.prems by (auto simp: list_all_iff)
  have "lt x z" if "lt x y" "z \<in> set ys" for z
    using trans [of x y z] that Cons.prems by (auto simp: list_all_iff)
  then show ?case
    using Cons above by (auto simp: set_put_sorted)
qed simp

lemma set_drop_sorted:
  "sorted_wrt lt xs \<Longrightarrow> list_all ok xs \<Longrightarrow> ok x \<Longrightarrow> set (drop_sorted lt x xs) = {y \<in> set xs. \<not> same lt x y}"
proof (induction xs)
  case (Cons y ys)
  have rest: "\<not> same lt x z" if "z \<in> set ys" "\<not> lt y x" for z
  proof -
    have z: "ok z" "lt y z" using that Cons.prems by (auto simp: list_all_iff)
    then have "lt x z" using cotrans [of y x z] that Cons.prems by auto
    then show ?thesis by (simp add: same_def)
  qed
  show ?case
    using Cons rest asym [of x y] by (auto simp: same_def)
qed simp

lemma sorted_drop_sorted:
  "sorted_wrt lt xs \<Longrightarrow> list_all ok xs \<Longrightarrow> ok x \<Longrightarrow> sorted_wrt lt (drop_sorted lt x xs)"
  by (induction xs) (auto simp: set_drop_sorted)

text \<open>A sorted list is determined by its items.\<close>

lemma sorted_unique:
  "sorted_wrt lt xs \<Longrightarrow> sorted_wrt lt ys \<Longrightarrow> list_all ok xs \<Longrightarrow> set xs = set ys \<Longrightarrow> xs = ys"
proof (induction xs arbitrary: ys)
  case (Cons x xs)
  then obtain y ys' where ys: "ys = y # ys'" by (cases ys) auto
  have okys: "z \<in> set ys \<Longrightarrow> ok z" for z using Cons.prems(3,4) by (metis list_all_iff)
  have "x = y"
  proof (rule ccontr)
    assume "x \<noteq> y"
    then have "lt x y" "lt y x" using Cons.prems(1,2,4) ys by auto
    then show False using asym [of x y] okys Cons.prems(4) ys by auto
  qed
  moreover have "x \<notin> set xs" "x \<notin> set ys'"
    using Cons.prems irrefl ys \<open>x = y\<close> by (auto simp: list_all_iff)
  ultimately show ?case
    using Cons.IH [of ys'] Cons.prems ys by (auto simp: insert_ident)
qed simp

end

text \<open>Comparing ranks in a linear order is a strict weak order.\<close>

lemma item_order_rank:
  fixes rank :: "'a \<Rightarrow> 'b :: linorder"
  assumes "\<And>x y. ok x \<Longrightarrow> ok y \<Longrightarrow> lt x y \<longleftrightarrow> rank x < rank y"
  shows "item_order ok lt"
  by unfold_locales (use assms in \<open>auto simp: not_less dest: order_less_le_trans\<close>)

lemma same_rank:
  fixes rank :: "'a \<Rightarrow> 'b :: linorder"
  assumes "lt x y \<longleftrightarrow> rank x < rank y" and "lt y x \<longleftrightarrow> rank y < rank x"
  shows "same lt x y \<longleftrightarrow> rank x = rank y"
  using assms by (auto simp: same_def)

text \<open>The operations of a tree, on its items in order.\<close>

locale ordered_tree = item_order ok lt for ok :: "'a \<Rightarrow> bool" and lt +
  fixes bt :: "('a, 't) btree"
  assumes New: "bt_Ascend bt (bt_New bt) = []"
    and Len: "bt_Len bt t = length (bt_Ascend bt t)"
    and ReplaceOrInsert: "sorted_wrt lt (bt_Ascend bt t) \<Longrightarrow> list_all ok (bt_Ascend bt t) \<Longrightarrow> ok x
          \<Longrightarrow> bt_Ascend bt (bt_ReplaceOrInsert bt x t) = put_sorted lt x (bt_Ascend bt t)"
    and Delete: "sorted_wrt lt (bt_Ascend bt t) \<Longrightarrow> list_all ok (bt_Ascend bt t) \<Longrightarrow> ok x
          \<Longrightarrow> bt_Ascend bt (bt_Delete bt x t) = drop_sorted lt x (bt_Ascend bt t)"
begin

text \<open>\<open>holds t S\<close>: the tree has the items \<open>S\<close>, each admitted, in order.\<close>

definition holds :: "'t \<Rightarrow> 'a set \<Rightarrow> bool" where
  "holds t S \<longleftrightarrow> sorted_wrt lt (bt_Ascend bt t) \<and> set (bt_Ascend bt t) = S \<and> (\<forall>x \<in> S. ok x)"

lemma holds_New: "holds (bt_New bt) {}"
  by (simp add: holds_def New)

lemma holds_insert:
  assumes "holds t S" and "ok x"
  shows "holds (bt_ReplaceOrInsert bt x t) (insert x {y \<in> S. \<not> same lt x y})"
proof -
  have a: "list_all ok (bt_Ascend bt t)" using assms(1) by (auto simp: holds_def list_all_iff)
  show ?thesis
    using assms ReplaceOrInsert [OF _ a assms(2)] sorted_put_sorted [OF _ a assms(2)] set_put_sorted [OF _ a assms(2)]
    by (auto simp: holds_def)
qed

lemma holds_delete:
  assumes "holds t S" and "ok x"
  shows "holds (bt_Delete bt x t) {y \<in> S. \<not> same lt x y}"
proof -
  have a: "list_all ok (bt_Ascend bt t)" using assms(1) by (auto simp: holds_def list_all_iff)
  show ?thesis
    using assms Delete [OF _ a assms(2)] sorted_drop_sorted [OF _ a assms(2)] set_drop_sorted [OF _ a assms(2)]
    by (auto simp: holds_def)
qed

end

text \<open>A tree kept as the sorted list itself has this behaviour.\<close>

definition list_tree :: "('a \<Rightarrow> 'a \<Rightarrow> bool) \<Rightarrow> ('a, 'a list) btree" where
  "list_tree lt = \<lparr>bt_New = [], bt_ReplaceOrInsert = put_sorted lt, bt_Delete = drop_sorted lt,
     bt_Ascend = (\<lambda>t. t), bt_Len = length\<rparr>"

lemma list_tree_ordered: "item_order ok lt \<Longrightarrow> ordered_tree ok lt (list_tree lt)"
  by (intro ordered_tree.intro ordered_tree_axioms.intro) (simp_all add: list_tree_def)

end
