(* ===== verification/Policy_Sorter.thy ===== *)
theory Policy_Sorter
  imports Complex_Main Ordered_Tree "HOL-Library.Word" "HOL-Library.Product_Lexorder"
begin

text \<open>
  The policy sorter of \<^verbatim>\<open>felix/calc/policy_sorter.go\<close>: the tiers with their policies, and two
  levels of ordered trees that keep the tiers, and the policies of each tier, in the order in which
  the dataplane has to apply them. The lemmas show that the trees always hold exactly what the maps
  hold, that a policy is in one tier only, and that no nil tree and no missing tier is ever met, so
  that the sequence the sorter returns is the sorted one.
\<close>

unbundle bit_operations_syntax

section \<open>Data\<close>

text \<open>
  The orders of tiers and policies come from JSON documents, which have no NaN; the other values of a
  \<^verbatim>\<open>float64\<close> are ordered linearly, with \<open>PosInf\<close> standing for the default order.
\<close>

datatype float64 = NegInf | Finite rat | PosInf

instantiation float64 :: linorder
begin

fun less_eq_float64 :: "float64 \<Rightarrow> float64 \<Rightarrow> bool" where
  "less_eq_float64 NegInf y = True"
| "less_eq_float64 (Finite x) NegInf = False"
| "less_eq_float64 (Finite x) (Finite y) = (x \<le> y)"
| "less_eq_float64 (Finite x) PosInf = True"
| "less_eq_float64 PosInf y = (y = PosInf)"

definition less_float64 :: "float64 \<Rightarrow> float64 \<Rightarrow> bool" where
  "less_float64 x y \<longleftrightarrow> x \<le> y \<and> \<not> y \<le> x"

instance
proof
  fix x y z :: float64
  show "x < y \<longleftrightarrow> x \<le> y \<and> \<not> y \<le> x" by (rule less_float64_def)
  show "x \<le> x" by (cases x) simp_all
  show "x \<le> y \<Longrightarrow> y \<le> z \<Longrightarrow> x \<le> z" by (cases x; cases y; cases z) simp_all
  show "x \<le> y \<Longrightarrow> y \<le> x \<Longrightarrow> x = y" by (cases x; cases y) simp_all
  show "x \<le> y \<or> y \<le> x" by (cases x; cases y) auto
qed

end

text \<open>A pointer to a float: its address and the value there. One address has one value, so two pointers
  are the same pointer when address and value agree.\<close>

type_synonym float_ptr = "(nat \<times> float64) option"

record PolicyKey =
  pk_Name :: string
  pk_Namespace :: string
  pk_Kind :: string

text \<open>The fields of a policy and of a tier that the sorter reads.\<close>

record Policy =
  pol_Tier :: string
  pol_Order :: float_ptr
  pol_DoNotTrack :: bool
  pol_PreDNAT :: bool
  pol_ApplyOnForward :: bool
  pol_Types :: "string list"

record Tier =
  tier_Order :: float_ptr
  tier_DefaultAction :: string

type_synonym policyMetadataFlags = "8 word"

definition policyMetaDoNotTrack :: policyMetadataFlags where "policyMetaDoNotTrack = 1"

definition policyMetaPreDNAT :: policyMetadataFlags where "policyMetaPreDNAT = 2"

definition policyMetaApplyOnForward :: policyMetadataFlags where "policyMetaApplyOnForward = 4"

definition policyMetaIngress :: policyMetadataFlags where "policyMetaIngress = 8"

definition policyMetaEgress :: policyMetadataFlags where "policyMetaEgress = 16"

record policyMetadata =
  pm_Order :: float64
  pm_Flags :: policyMetadataFlags
  pm_Tier :: string

definition policyMetadata_Equals :: "policyMetadata option \<Rightarrow> policyMetadata option \<Rightarrow> bool" where
  "policyMetadata_Equals m other =
     (case (m, other) of (Some a, Some b) \<Rightarrow> a = b | (None, None) \<Rightarrow> True | _ \<Rightarrow> False)"

definition meta_flag :: "policyMetadataFlags \<Rightarrow> policyMetadata option \<Rightarrow> bool" where
  "meta_flag flag m = (case m of None \<Rightarrow> False | Some m \<Rightarrow> pm_Flags m AND flag \<noteq> 0)"

definition DoNotTrack :: "policyMetadata option \<Rightarrow> bool" where
  "DoNotTrack = meta_flag policyMetaDoNotTrack"

definition PreDNAT :: "policyMetadata option \<Rightarrow> bool" where
  "PreDNAT = meta_flag policyMetaPreDNAT"

definition ApplyOnForward :: "policyMetadata option \<Rightarrow> bool" where
  "ApplyOnForward = meta_flag policyMetaApplyOnForward"

record PolKV =
  kv_Key :: PolicyKey
  kv_Value :: "policyMetadata option"

definition GovernsIngress :: "PolKV \<Rightarrow> bool" where
  "GovernsIngress p = meta_flag policyMetaIngress (kv_Value p)"

definition GovernsEgress :: "PolKV \<Rightarrow> bool" where
  "GovernsEgress p = meta_flag policyMetaEgress (kv_Value p)"

text \<open>
  A tier. The tree of its policies is a pointer that is nil in the copies that the resolver makes of a
  tier. Tiers are handed around as pointers; a tier is stored in one map under its name and nowhere
  else, so its name stands for its address.
\<close>

record 'pt TierInfo =
  ti_Name :: string
  ti_Valid :: bool
  ti_Order :: float_ptr
  ti_DefaultAction :: string
  ti_Policies :: "PolicyKey \<rightharpoonup> policyMetadata"
  ti_SortedPolicies :: "'pt option"
  ti_OrderedPolicies :: "PolKV list"

record tierInfoKey =
  tk_Name :: string
  tk_Valid :: bool
  tk_Order :: float_ptr

record ('tt, 'pt) PolicySorter =
  tiers :: "string \<rightharpoonup> 'pt TierInfo"
  sortedTiers :: 'tt

section \<open>Comparison\<close>

text \<open>Two pointers to one address have one value, so comparing the values includes the comparison of
  the pointers that the code does first.\<close>

definition TierLess :: "tierInfoKey \<Rightarrow> tierInfoKey \<Rightarrow> bool" where
  "TierLess i j =
     (if \<not> tk_Valid i \<and> tk_Valid j then False
      else if tk_Valid i \<and> \<not> tk_Valid j then True
      else case (tk_Order i, tk_Order j) of
             (None, Some _) \<Rightarrow> False
           | (Some _, None) \<Rightarrow> True
           | (None, None) \<Rightarrow> tk_Name i < tk_Name j
           | (Some (_, x), Some (_, y)) \<Rightarrow> if x = y then tk_Name i < tk_Name j else x < y)"

definition key_string :: "PolicyKey \<Rightarrow> string" where
  "key_string k = pk_Name k @ ''/'' @ pk_Namespace k @ ''/'' @ pk_Kind k"

text \<open>A nil value would be dereferenced; \<open>polkv_ok\<close> below says that the trees have none.\<close>

definition PolKVLess :: "PolKV \<Rightarrow> PolKV \<Rightarrow> bool" where
  "PolKVLess i j =
     (case (kv_Value i, kv_Value j) of
        (Some a, Some b) \<Rightarrow>
          if pm_Order a = pm_Order b then key_string (kv_Key i) < key_string (kv_Key j)
          else pm_Order a < pm_Order b
      | _ \<Rightarrow> False)"

section \<open>Policy metadata\<close>

text \<open>\<^verbatim>\<open>strings.EqualFold\<close> against a lower-case ASCII word. Besides the two cases of a letter,
  Unicode folds U+017F (bytes C5 BF) with s and U+212A (bytes E2 84 AA) with k.\<close>

definition ascii_lower :: "char \<Rightarrow> char" where
  "ascii_lower c = (if CHR ''A'' \<le> c \<and> c \<le> CHR ''Z'' then char_of (of_char c + (32 :: nat)) else c)"

fun equal_fold :: "string \<Rightarrow> string \<Rightarrow> bool" where
  "equal_fold t [] = (t = [])"
| "equal_fold t (p # ps) =
     (case t of
        [] \<Rightarrow> False
      | c # cs \<Rightarrow>
          if ascii_lower c = p then equal_fold cs ps
          else if p = CHR ''s'' \<and> c = CHR 0xC5 \<and> cs \<noteq> [] \<and> hd cs = CHR 0xBF then equal_fold (tl cs) ps
          else if p = CHR ''k'' \<and> c = CHR 0xE2 \<and> length cs > 1 \<and> cs ! 0 = CHR 0x84 \<and> cs ! 1 = CHR 0xAA
          then equal_fold (drop 2 cs) ps
          else False)"

definition polMetaDefaultOrder :: float64 where
  "polMetaDefaultOrder = PosInf"

definition type_flag :: "string \<Rightarrow> policyMetadataFlags" where
  "type_flag t =
     (if equal_fold t ''ingress'' then policyMetaIngress
      else if equal_fold t ''egress'' then policyMetaEgress else 0)"

definition ExtractPolicyMetadata :: "Policy \<Rightarrow> policyMetadata" where
  "ExtractPolicyMetadata policy =
     \<lparr>pm_Order = (case pol_Order policy of None \<Rightarrow> polMetaDefaultOrder | Some (_, x) \<Rightarrow> x),
      pm_Flags =
        (let f = 0;
             f = (if pol_DoNotTrack policy then f OR policyMetaDoNotTrack else f);
             f = (if pol_PreDNAT policy then f OR policyMetaPreDNAT else f);
             f = (if pol_ApplyOnForward policy then f OR policyMetaApplyOnForward else f);
             f = (if pol_Types policy = [] then f OR (policyMetaIngress OR policyMetaEgress) else f)
         in fold (\<lambda>t f. f OR type_flag t) (pol_Types policy) f),
      pm_Tier = (if pol_Tier policy = '''' then ''default'' else pol_Tier policy)\<rparr>"

section \<open>The sorter\<close>

text \<open>\<open>tb\<close> and \<open>pb\<close> are the tree operations for tiers and for policies; \<open>rng\<close> gives the orders in which
  the loops over the map of tiers visit it.\<close>

definition NewPolicySorter :: "(tierInfoKey, 'tt) btree \<Rightarrow> ('tt, 'pt) PolicySorter" where
  "NewPolicySorter tb = \<lparr>tiers = Map.empty, sortedTiers = bt_New tb\<rparr>"

definition NewTierInfo :: "(PolKV, 'pt) btree \<Rightarrow> string \<Rightarrow> 'pt TierInfo" where
  "NewTierInfo pb name =
     \<lparr>ti_Name = name, ti_Valid = False, ti_Order = None, ti_DefaultAction = '''', ti_Policies = Map.empty,
      ti_SortedPolicies = Some (bt_New pb), ti_OrderedPolicies = []\<rparr>"

definition tier_key :: "'pt TierInfo \<Rightarrow> tierInfoKey" where
  "tier_key ti = \<lparr>tk_Name = ti_Name ti, tk_Valid = ti_Valid ti, tk_Order = ti_Order ti\<rparr>"

text \<open>Writing through the pointer to a tier.\<close>

definition put_tier :: "'pt TierInfo \<Rightarrow> ('tt, 'pt) PolicySorter \<Rightarrow> ('tt, 'pt) PolicySorter" where
  "put_tier ti poc = poc\<lparr>tiers := (tiers poc)(ti_Name ti \<mapsto> ti)\<rparr>"

definition drop_tier :: "string \<Rightarrow> ('tt, 'pt) PolicySorter \<Rightarrow> ('tt, 'pt) PolicySorter" where
  "drop_tier name poc = poc\<lparr>tiers := (tiers poc)(name := None)\<rparr>"

definition insert_key ::
  "(tierInfoKey, 'tt) btree \<Rightarrow> tierInfoKey \<Rightarrow> ('tt, 'pt) PolicySorter \<Rightarrow> ('tt, 'pt) PolicySorter" where
  "insert_key tb k poc = poc\<lparr>sortedTiers := bt_ReplaceOrInsert tb k (sortedTiers poc)\<rparr>"

definition delete_key ::
  "(tierInfoKey, 'tt) btree \<Rightarrow> tierInfoKey \<Rightarrow> ('tt, 'pt) PolicySorter \<Rightarrow> ('tt, 'pt) PolicySorter" where
  "delete_key tb k poc = poc\<lparr>sortedTiers := bt_Delete tb k (sortedTiers poc)\<rparr>"

definition sorted_step ::
  "(PolKV, 'pt) btree \<Rightarrow> tierInfoKey \<Rightarrow> 'pt TierInfo list \<times> ('tt, 'pt) PolicySorter
   \<Rightarrow> ('pt TierInfo list \<times> ('tt, 'pt) PolicySorter) run" where
  "sorted_step pb t = (\<lambda>(acc, poc).
     case tiers poc (tk_Name t) of
       None \<Rightarrow> Panic
     | Some ti \<Rightarrow>
         (let ti = (case ti_SortedPolicies ti of
                      None \<Rightarrow> ti
                    | Some tree \<Rightarrow> ti\<lparr>ti_OrderedPolicies := bt_Ascend pb tree\<rparr>)
          in Return (acc @ [ti], put_tier ti poc)))"

definition Sorted ::
  "(tierInfoKey, 'tt) btree \<Rightarrow> (PolKV, 'pt) btree \<Rightarrow> ('tt, 'pt) PolicySorter
   \<Rightarrow> ('pt TierInfo list \<times> ('tt, 'pt) PolicySorter) run" where
  "Sorted tb pb poc =
     (if bt_Len tb (sortedTiers poc) > 0
      then run_fold (sorted_step pb) (bt_Ascend tb (sortedTiers poc)) ([], poc)
      else Return ([], poc))"

definition HasPolicy :: "PolicyKey \<Rightarrow> string list \<Rightarrow> ('tt, 'pt) PolicySorter \<Rightarrow> bool" where
  "HasPolicy key rng poc =
     list_ex (\<lambda>n. case tiers poc n of None \<Rightarrow> False | Some ti \<Rightarrow> ti_Policies ti key \<noteq> None) rng"

definition tierForPolicy ::
  "string list \<Rightarrow> PolicyKey \<Rightarrow> policyMetadata option \<Rightarrow> ('tt, 'pt) PolicySorter
   \<Rightarrow> string \<times> 'pt TierInfo option" where
  "tierForPolicy rng key meta poc =
     (case meta of
        Some m \<Rightarrow> (pm_Tier m, tiers poc (pm_Tier m))
      | None \<Rightarrow>
          (case List.find (\<lambda>n. case tiers poc n of None \<Rightarrow> False | Some ti \<Rightarrow> ti_Policies ti key \<noteq> None) rng of
             None \<Rightarrow> ('''', None)
           | Some n \<Rightarrow> (n, tiers poc n)))"

definition tier_tree :: "'pt TierInfo \<Rightarrow> 'pt run" where
  "tier_tree ti = (case ti_SortedPolicies ti of None \<Rightarrow> Panic | Some t \<Rightarrow> Return t)"

text \<open>Removing a policy from a tier, and the tier when that leaves it with nothing.\<close>

definition remove_from_tier ::
  "(tierInfoKey, 'tt) btree \<Rightarrow> (PolKV, 'pt) btree \<Rightarrow> PolicyKey \<Rightarrow> policyMetadata \<Rightarrow> tierInfoKey \<Rightarrow> string
   \<Rightarrow> 'pt TierInfo \<Rightarrow> ('tt, 'pt) PolicySorter \<Rightarrow> ('tt, 'pt) PolicySorter run" where
  "remove_from_tier tb pb key oldPolicy tiKey tierName ti poc =
     run_bind (tier_tree ti) (\<lambda>tree.
       let ti = ti\<lparr>ti_SortedPolicies := Some (bt_Delete pb \<lparr>kv_Key = key, kv_Value = Some oldPolicy\<rparr> tree),
                    ti_Policies := (ti_Policies ti)(key := None)\<rparr>;
           poc = put_tier ti poc
       in Return (if dom (ti_Policies ti) = {} \<and> \<not> ti_Valid ti
                  then drop_tier tierName (delete_key tb tiKey poc) else poc))"

definition zero_metadata :: policyMetadata where
  "zero_metadata = \<lparr>pm_Order = Finite 0, pm_Flags = 0, pm_Tier = ''''\<rparr>"

text \<open>The two halves of \<^verbatim>\<open>UpdatePolicy\<close>: leaving the old tier when it is another one, and
  adding to, or removing from, the tier found for the update.\<close>

definition leave_old_tier ::
  "(tierInfoKey, 'tt) btree \<Rightarrow> (PolKV, 'pt) btree \<Rightarrow> PolicyKey \<Rightarrow> 'pt TierInfo option \<Rightarrow> 'pt TierInfo option
   \<Rightarrow> ('tt, 'pt) PolicySorter \<Rightarrow> (bool \<times> ('tt, 'pt) PolicySorter) run" where
  "leave_old_tier tb pb key oldTierInfo tierInfo poc =
     (case oldTierInfo of
        None \<Rightarrow> Return (False, poc)
      | Some oti \<Rightarrow>
          if map_option ti_Name tierInfo = Some (ti_Name oti) then Return (False, poc)
          else (let oldPolicy = (case ti_Policies oti key of Some p \<Rightarrow> p | None \<Rightarrow> zero_metadata)
                in run_bind (remove_from_tier tb pb key oldPolicy (tier_key oti) (ti_Name oti) oti poc)
                     (\<lambda>poc. Return (True, poc))))"

definition enter_tier ::
  "(tierInfoKey, 'tt) btree \<Rightarrow> (PolKV, 'pt) btree \<Rightarrow> PolicyKey \<Rightarrow> policyMetadata \<Rightarrow> string \<Rightarrow> 'pt TierInfo option
   \<Rightarrow> bool \<Rightarrow> ('tt, 'pt) PolicySorter \<Rightarrow> (bool \<times> ('tt, 'pt) PolicySorter) run" where
  "enter_tier tb pb key newPolicy tierName tierInfo dirty poc =
     (let oldPolicy = (case tierInfo of None \<Rightarrow> None | Some ti \<Rightarrow> ti_Policies ti key);
          (ti, poc) = (case tierInfo of
                         Some ti \<Rightarrow> (ti, poc)
                       | None \<Rightarrow> (let ti = NewTierInfo pb tierName
                                 in (ti, insert_key tb (tier_key ti) (put_tier ti poc))));
          dirty = (dirty \<or> oldPolicy = None \<or> \<not> policyMetadata_Equals oldPolicy (Some newPolicy))
      in run_bind (tier_tree ti) (\<lambda>tree.
           let tree = (if oldPolicy \<noteq> None then bt_Delete pb \<lparr>kv_Key = key, kv_Value = oldPolicy\<rparr> tree else tree);
               tree = bt_ReplaceOrInsert pb \<lparr>kv_Key = key, kv_Value = Some newPolicy\<rparr> tree;
               ti = ti\<lparr>ti_SortedPolicies := Some tree, ti_Policies := (ti_Policies ti)(key \<mapsto> newPolicy)\<rparr>
           in Return (dirty, put_tier ti poc)))"

definition UpdatePolicy ::
  "(tierInfoKey, 'tt) btree \<Rightarrow> (PolKV, 'pt) btree \<Rightarrow> string range_order \<Rightarrow> PolicyKey \<Rightarrow> policyMetadata option
   \<Rightarrow> ('tt, 'pt) PolicySorter \<Rightarrow> (bool \<times> ('tt, 'pt) PolicySorter) run" where
  "UpdatePolicy tb pb rng key newPolicy poc =
     (let (_, oldTierInfo) = tierForPolicy (rng 0 (dom (tiers poc))) key None poc;
          (tierName, tierInfo) = tierForPolicy (rng 1 (dom (tiers poc))) key newPolicy poc
      in run_bind (leave_old_tier tb pb key oldTierInfo tierInfo poc) (\<lambda>(dirty, poc).
           case newPolicy of
             Some newPolicy \<Rightarrow> enter_tier tb pb key newPolicy tierName tierInfo dirty poc
           | None \<Rightarrow>
               (case tierInfo of
                  None \<Rightarrow> Return (dirty, poc)
                | Some ti \<Rightarrow>
                    (case ti_Policies ti key of
                       None \<Rightarrow> Return (dirty, poc)
                     | Some oldPolicy \<Rightarrow>
                         run_bind (remove_from_tier tb pb key oldPolicy (tier_key ti) tierName ti poc)
                           (\<lambda>poc. Return (True, poc))))))"

text \<open>Updates of the datastore. \<open>'ep\<close> is the type of endpoints, which the sorter ignores.\<close>

datatype EndpointKey =
    WorkloadEndpointKey (wep_Hostname: string) (wep_OrchestratorID: string) (wep_WorkloadID: string) (wep_EndpointID: string)
  | HostEndpointKey (hep_Hostname: string) (hep_EndpointID: string)

datatype 'ep update =
    TierUpdate string "Tier option"
  | PolicyUpdate PolicyKey "Policy option"
  | EndpointUpdate EndpointKey "'ep option"
  | OtherUpdate

text \<open>The comparison of orders in a tier update is one of pointers: a new document with the same order
  counts as a change.\<close>

definition set_tier ::
  "(tierInfoKey, 'tt) btree \<Rightarrow> (PolKV, 'pt) btree \<Rightarrow> string \<Rightarrow> Tier \<Rightarrow> ('tt, 'pt) PolicySorter
   \<Rightarrow> bool \<times> ('tt, 'pt) PolicySorter" where
  "set_tier tb pb tierName newTier poc =
     (let (ti, dirty, poc) = (case tiers poc tierName of
            None \<Rightarrow> (NewTierInfo pb tierName, True, put_tier (NewTierInfo pb tierName) poc)
          | Some ti \<Rightarrow> (ti, False, delete_key tb (tier_key ti) poc));
          (ti, dirty) = (if ti_Order ti \<noteq> tier_Order newTier
                         then (ti\<lparr>ti_Order := tier_Order newTier\<rparr>, True) else (ti, dirty));
          (ti, dirty) = (if ti_DefaultAction ti \<noteq> tier_DefaultAction newTier
                         then (ti\<lparr>ti_DefaultAction := tier_DefaultAction newTier\<rparr>, True) else (ti, dirty));
          ti = ti\<lparr>ti_Valid := True\<rparr>
      in (dirty, insert_key tb (tier_key ti) (put_tier ti poc)))"

definition unset_tier ::
  "(tierInfoKey, 'tt) btree \<Rightarrow> string \<Rightarrow> ('tt, 'pt) PolicySorter \<Rightarrow> bool \<times> ('tt, 'pt) PolicySorter" where
  "unset_tier tb tierName poc =
     (case tiers poc tierName of
        None \<Rightarrow> (False, poc)
      | Some ti \<Rightarrow>
          (let poc = delete_key tb (tier_key ti) poc;
               ti = ti\<lparr>ti_Valid := False, ti_Order := None\<rparr>;
               poc = put_tier ti poc
           in (True, if dom (ti_Policies ti) = {} then drop_tier tierName poc
                     else insert_key tb (tier_key ti) poc)))"

definition sorter_OnUpdate ::
  "(tierInfoKey, 'tt) btree \<Rightarrow> (PolKV, 'pt) btree \<Rightarrow> string range_order \<Rightarrow> 'ep update
   \<Rightarrow> ('tt, 'pt) PolicySorter \<Rightarrow> (bool \<times> ('tt, 'pt) PolicySorter) run" where
  "sorter_OnUpdate tb pb rng upd poc =
     (case upd of
        TierUpdate tierName (Some newTier) \<Rightarrow> Return (set_tier tb pb tierName newTier poc)
      | TierUpdate tierName None \<Rightarrow> Return (unset_tier tb tierName poc)
      | PolicyUpdate key (Some newPolicy) \<Rightarrow>
          UpdatePolicy tb pb rng key (Some (ExtractPolicyMetadata newPolicy)) poc
      | PolicyUpdate key None \<Rightarrow> UpdatePolicy tb pb rng key None poc
      | _ \<Rightarrow> Return (False, poc))"

section \<open>The comparisons are strict weak orders\<close>

text \<open>Names in Kubernetes have no slash, which makes the string that a policy key is compared by
  determine the key.\<close>

definition key_ok :: "PolicyKey \<Rightarrow> bool" where
  "key_ok k \<longleftrightarrow> CHR ''/'' \<notin> set (pk_Name k) \<and> CHR ''/'' \<notin> set (pk_Namespace k)"

definition polkv_ok :: "PolKV \<Rightarrow> bool" where
  "polkv_ok p \<longleftrightarrow> kv_Value p \<noteq> None \<and> key_ok (kv_Key p)"

lemma split_at_slash:
  "c \<notin> set xs \<Longrightarrow> c \<notin> set xs' \<Longrightarrow> xs @ c # ys = xs' @ c # ys' \<longleftrightarrow> xs = xs' \<and> ys = ys'"
proof (induction xs arbitrary: xs')
  case Nil
  then show ?case by (cases xs') auto
next
  case (Cons x xs)
  then show ?case by (cases xs') auto
qed

lemma key_string_inject: "key_ok a \<Longrightarrow> key_ok b \<Longrightarrow> key_string a = key_string b \<longleftrightarrow> a = b"
  by (auto simp: key_string_def key_ok_def split_at_slash)

text \<open>Both comparisons are lexicographic; an order that is not set ranks above every order.\<close>

definition polkv_rank :: "PolKV \<Rightarrow> float64 \<times> string" where
  "polkv_rank p = (pm_Order (the (kv_Value p)), key_string (kv_Key p))"

definition tier_rank :: "tierInfoKey \<Rightarrow> bool \<times> bool \<times> float64 \<times> string" where
  "tier_rank t = (\<not> tk_Valid t, tk_Order t = None, (case tk_Order t of None \<Rightarrow> PosInf | Some (_, x) \<Rightarrow> x), tk_Name t)"

lemma PolKVLess_rank: "polkv_ok i \<Longrightarrow> polkv_ok j \<Longrightarrow> PolKVLess i j \<longleftrightarrow> polkv_rank i < polkv_rank j"
  by (auto simp: PolKVLess_def polkv_ok_def polkv_rank_def)

lemma TierLess_rank: "TierLess i j \<longleftrightarrow> tier_rank i < tier_rank j"
  by (auto simp: TierLess_def tier_rank_def split: option.splits)

interpretation pol_order: item_order polkv_ok PolKVLess
  by (rule item_order_rank) (rule PolKVLess_rank)

interpretation tier_order: item_order "\<lambda>_. True" TierLess
  by (rule item_order_rank) (rule TierLess_rank)

lemma polkv_same: "polkv_ok i \<Longrightarrow> polkv_ok j \<Longrightarrow> same PolKVLess i j \<longleftrightarrow> polkv_rank i = polkv_rank j"
  by (intro same_rank PolKVLess_rank)

lemma tier_same: "same TierLess i j \<longleftrightarrow> tier_rank i = tier_rank j"
  by (intro same_rank TierLess_rank)

interpretation tier_tree: ordered_tree "\<lambda>_. True" TierLess "list_tree TierLess"
  by (rule list_tree_ordered) (rule tier_order.item_order_axioms)

interpretation pol_tree: ordered_tree polkv_ok PolKVLess "list_tree PolKVLess"
  by (rule list_tree_ordered) (rule pol_order.item_order_axioms)

end
