(* ===== verification/Policy_Order.thy ===== *)
theory Policy_Order
  imports Policy_Sorter
begin

text \<open>
  The refinement of the policy sorter: what its tiers and trees hold is described by two plain maps,
  the policies with their metadata and the tiers that exist, and every update of the sorter is the
  update of these maps. The dirty flag of a policy update is exact.
\<close>

section \<open>What the sorter holds\<close>

text \<open>The policies of one tier, and a map of policies as tree items.\<close>

definition tier_pols :: "(PolicyKey \<rightharpoonup> policyMetadata) \<Rightarrow> string \<Rightarrow> PolicyKey \<rightharpoonup> policyMetadata" where
  "tier_pols P n k = (case P k of None \<Rightarrow> None | Some m \<Rightarrow> if pm_Tier m = n then Some m else None)"

definition pol_kvs :: "(PolicyKey \<rightharpoonup> policyMetadata) \<Rightarrow> PolKV set" where
  "pol_kvs M = {\<lparr>kv_Key = k, kv_Value = Some m\<rparr> | k m. M k = Some m}"

definition tier_keys :: "(string \<rightharpoonup> 'pt TierInfo) \<Rightarrow> tierInfoKey set" where
  "tier_keys T = {tier_key ti | n ti. T n = Some ti}"

text \<open>The names of the tiers: those that exist and those that policies name.\<close>

definition tier_names :: "(PolicyKey \<rightharpoonup> policyMetadata) \<Rightarrow> (string \<rightharpoonup> Tier) \<Rightarrow> string set" where
  "tier_names P T = dom T \<union> pm_Tier ` ran P"

definition tier_attrs :: "(string \<rightharpoonup> Tier) \<Rightarrow> 'pt TierInfo \<Rightarrow> bool" where
  "tier_attrs T ti \<longleftrightarrow>
     (case T (ti_Name ti) of
        None \<Rightarrow> \<not> ti_Valid ti \<and> ti_Order ti = None
      | Some t \<Rightarrow> ti_Valid ti \<and> ti_Order ti = tier_Order t \<and> ti_DefaultAction ti = tier_DefaultAction t)"

lemma tier_attrs_policies [simp]:
  "tier_attrs T (ti\<lparr>ti_SortedPolicies := t, ti_Policies := M\<rparr>) = tier_attrs T ti"
  "tier_attrs T (ti\<lparr>ti_OrderedPolicies := ps\<rparr>) = tier_attrs T ti"
  by (simp_all add: tier_attrs_def cong: option.case_cong)

lemma in_kvs [simp]: "\<lparr>kv_Key = k, kv_Value = Some m\<rparr> \<in> pol_kvs M \<longleftrightarrow> M k = Some m"
  by (auto simp: pol_kvs_def)

lemma pol_kvs_put: "pol_kvs (M(k \<mapsto> m)) = insert \<lparr>kv_Key = k, kv_Value = Some m\<rparr> (pol_kvs (M(k := None)))"
  by (auto simp: pol_kvs_def)

lemma pol_kvs_ok: "\<forall>k \<in> dom M. key_ok k \<Longrightarrow> p \<in> pol_kvs M \<Longrightarrow> polkv_ok p"
  by (auto simp: pol_kvs_def polkv_ok_def intro: domI)

text \<open>Removing an item by comparison removes the entry of its key.\<close>

lemma pol_kvs_delete:
  assumes "\<forall>k \<in> dom M. key_ok k" and "M k = Some m"
  shows "{p \<in> pol_kvs M. \<not> same PolKVLess \<lparr>kv_Key = k, kv_Value = Some m\<rparr> p} = pol_kvs (M(k := None))"
proof -
  have "same PolKVLess \<lparr>kv_Key = k, kv_Value = Some m\<rparr> p \<longleftrightarrow> kv_Key p = k" if pM: "p \<in> pol_kvs M" for p
  proof -
    obtain j mj where p: "p = \<lparr>kv_Key = j, kv_Value = Some mj\<rparr>" "M j = Some mj"
      using pM by (auto simp: pol_kvs_def)
    have ok: "polkv_ok \<lparr>kv_Key = k, kv_Value = Some m\<rparr>" "polkv_ok p"
      using assms p by (auto simp: polkv_ok_def intro: domI)
    show ?thesis
      using p assms ok by (auto simp: polkv_same polkv_rank_def polkv_ok_def key_string_inject)
  qed
  then show ?thesis by (auto simp: pol_kvs_def)
qed

lemma pol_kvs_fresh:
  assumes "\<forall>k \<in> dom M. key_ok k" and "key_ok k" and "M k = None"
  shows "{p \<in> pol_kvs M. \<not> same PolKVLess \<lparr>kv_Key = k, kv_Value = Some m\<rparr> p} = pol_kvs M"
proof -
  have "\<not> same PolKVLess \<lparr>kv_Key = k, kv_Value = Some m\<rparr> p" if pM: "p \<in> pol_kvs M" for p
  proof -
    obtain j mj where p: "p = \<lparr>kv_Key = j, kv_Value = Some mj\<rparr>" "M j = Some mj"
      using pM by (auto simp: pol_kvs_def)
    have ok: "polkv_ok \<lparr>kv_Key = k, kv_Value = Some m\<rparr>" "polkv_ok p"
      using assms p by (auto simp: polkv_ok_def intro: domI)
    show ?thesis
      using p assms ok by (auto simp: polkv_same polkv_rank_def polkv_ok_def key_string_inject)
  qed
  then show ?thesis by auto
qed

definition named :: "(string \<rightharpoonup> 'pt TierInfo) \<Rightarrow> bool" where
  "named T \<longleftrightarrow> (\<forall>n ti. T n = Some ti \<longrightarrow> ti_Name ti = n)"

lemma named_ops [simp]:
  "named T \<Longrightarrow> named (T(n := None))" "named T \<Longrightarrow> ti_Name ti = n \<Longrightarrow> named (T(n \<mapsto> ti))" "named Map.empty"
  by (auto simp: named_def)

lemma tier_keys_put: "tier_keys (T(n \<mapsto> ti)) = insert (tier_key ti) (tier_keys (T(n := None)))"
  by (auto simp: tier_keys_def)

lemma tier_keys_delete:
  assumes "named T" and "T n = Some ti"
  shows "{y \<in> tier_keys T. \<not> same TierLess (tier_key ti) y} = tier_keys (T(n := None))"
proof -
  have "same TierLess (tier_key ti) (tier_key tj) \<longleftrightarrow> j = n" if "T j = Some tj" for j tj
    using assms that by (auto simp: tier_same tier_rank_def tier_key_def named_def)
  then show ?thesis by (auto simp: tier_keys_def)
qed

lemma tier_keys_fresh:
  assumes "named T" and "ti_Name ti = n" and "T n = None"
  shows "{y \<in> tier_keys T. \<not> same TierLess (tier_key ti) y} = tier_keys T"
proof -
  have "\<not> same TierLess (tier_key ti) (tier_key tj)" if "T j = Some tj" for j tj
    using assms that by (auto simp: tier_same tier_rank_def tier_key_def named_def)
  then show ?thesis by (auto simp: tier_keys_def)
qed

lemma tier_pols_upd:
  "tier_pols (P(k := v)) n = (tier_pols P n)(k := (case v of None \<Rightarrow> None | Some m \<Rightarrow> if pm_Tier m = n then Some m else None))"
  by (auto simp: tier_pols_def fun_eq_iff)

lemma tier_pols_empty_iff: "dom (tier_pols P n) = {} \<longleftrightarrow> n \<notin> pm_Tier ` ran P"
  by (auto simp: tier_pols_def dom_def ran_def split: option.splits)

lemma in_tier_names: "n \<in> tier_names P T \<longleftrightarrow> T n \<noteq> None \<or> dom (tier_pols P n) \<noteq> {}"
  unfolding tier_names_def tier_pols_empty_iff by auto

lemma tier_pols_dom: "k \<in> dom (tier_pols P n) \<Longrightarrow> k \<in> dom P"
  by (auto simp: tier_pols_def split: option.splits)

text \<open>A sequence of updates, and the same updates on the two maps.\<close>

definition sorter_updates ::
  "(tierInfoKey, 'tt) btree \<Rightarrow> (PolKV, 'pt) btree \<Rightarrow> (string range_order \<times> 'ep update) list
   \<Rightarrow> ('tt, 'pt) PolicySorter \<Rightarrow> ('tt, 'pt) PolicySorter run" where
  "sorter_updates tb pb =
     run_fold (\<lambda>(rng, u) poc. run_bind (sorter_OnUpdate tb pb rng u poc) (\<lambda>(_, poc). Return poc))"

fun sorter_maps_step ::
  "'ep update \<Rightarrow> (PolicyKey \<rightharpoonup> policyMetadata) \<times> (string \<rightharpoonup> Tier) \<Rightarrow> (PolicyKey \<rightharpoonup> policyMetadata) \<times> (string \<rightharpoonup> Tier)" where
  "sorter_maps_step (TierUpdate n v) (P, T) = (P, T(n := v))"
| "sorter_maps_step (PolicyUpdate k v) (P, T) = (P(k := map_option ExtractPolicyMetadata v), T)"
| "sorter_maps_step u (P, T) = (P, T)"

fun update_ok :: "'ep update \<Rightarrow> bool" where
  "update_ok (PolicyUpdate k v) = key_ok k"
| "update_ok u = True"

text \<open>The sequence that the sorter has to return: the tiers in order, each with its attributes and its
  policies in order.\<close>

definition sorted_tiers :: "(PolicyKey \<rightharpoonup> policyMetadata) \<Rightarrow> (string \<rightharpoonup> Tier) \<Rightarrow> 'pt TierInfo list \<Rightarrow> bool" where
  "sorted_tiers P T ts \<longleftrightarrow> sorted_wrt TierLess (map tier_key ts) \<and> ti_Name ` set ts = tier_names P T
     \<and> list_all (\<lambda>ti. tier_attrs T ti \<and> sorted_wrt PolKVLess (ti_OrderedPolicies ti)
          \<and> set (ti_OrderedPolicies ti) = pol_kvs (tier_pols P (ti_Name ti))) ts"

text \<open>A tier that stays keeps its default action.\<close>

definition keeps_action :: "('tt, 'pt) PolicySorter \<Rightarrow> ('tt, 'pt) PolicySorter \<Rightarrow> bool" where
  "keeps_action poc poc' \<longleftrightarrow>
     (\<forall>n ti ti'. tiers poc n = Some ti \<longrightarrow> tiers poc' n = Some ti' \<longrightarrow> ti_DefaultAction ti' = ti_DefaultAction ti)"

lemma keeps_action_refl [simp]: "keeps_action poc poc"
  by (simp add: keeps_action_def)

locale sorter_trees =
  tt: ordered_tree "\<lambda>_. True" TierLess tb + pt: ordered_tree polkv_ok PolKVLess pb
  for tb :: "(tierInfoKey, 'tt) btree" and pb :: "(PolKV, 'pt) btree"
begin

definition tier_rel :: "(PolicyKey \<rightharpoonup> policyMetadata) \<Rightarrow> (string \<rightharpoonup> Tier) \<Rightarrow> 'pt TierInfo \<Rightarrow> bool" where
  "tier_rel P T ti \<longleftrightarrow> ti_Policies ti = tier_pols P (ti_Name ti) \<and> tier_attrs T ti
     \<and> (\<exists>tree. ti_SortedPolicies ti = Some tree \<and> pt.holds tree (pol_kvs (tier_pols P (ti_Name ti))))"

definition sorter_rel :: "('tt, 'pt) PolicySorter \<Rightarrow> (PolicyKey \<rightharpoonup> policyMetadata) \<Rightarrow> (string \<rightharpoonup> Tier) \<Rightarrow> bool" where
  "sorter_rel poc P T \<longleftrightarrow>
     finite (dom P) \<and> finite (dom T) \<and> (\<forall>k \<in> dom P. key_ok k)
     \<and> named (tiers poc) \<and> dom (tiers poc) = tier_names P T
     \<and> (\<forall>n ti. tiers poc n = Some ti \<longrightarrow> tier_rel P T ti)
     \<and> tt.holds (sortedTiers poc) (tier_keys (tiers poc))"

lemma sorter_rel_new: "sorter_rel (NewPolicySorter tb) Map.empty Map.empty"
  using tt.holds_New by (simp add: sorter_rel_def NewPolicySorter_def tier_names_def tier_keys_def)

lemma sorter_rel_finite: "sorter_rel poc P T \<Longrightarrow> finite (dom (tiers poc))"
  by (auto simp: sorter_rel_def tier_names_def intro!: finite_imageI finite_ran)

lemma relD:
  assumes "sorter_rel poc P T"
  shows "k \<in> dom P \<Longrightarrow> key_ok k" "named (tiers poc)" "dom (tiers poc) = tier_names P T"
    "tiers poc n = Some ti \<Longrightarrow> tier_rel P T ti" "tiers poc n = Some ti \<Longrightarrow> ti_Name ti = n"
    "tt.holds (sortedTiers poc) (tier_keys (tiers poc))"
  using assms by (auto simp: sorter_rel_def named_def)

text \<open>Looking a policy up by a loop over the tiers finds the tier of its metadata, in any order.\<close>

lemma has_policy_iff:
  assumes "sorter_rel poc P T" and "tiers poc n = Some ti"
  shows "ti_Policies ti k \<noteq> None \<longleftrightarrow> (\<exists>m. P k = Some m \<and> pm_Tier m = n)"
  using relD(4,5) [OF assms] by (auto simp: tier_rel_def tier_pols_def split: option.splits)

lemma policy_tier:
  assumes "sorter_rel poc P T" and "P k = Some m"
  obtains ti where "tiers poc (pm_Tier m) = Some ti" "ti_Policies ti k = Some m"
proof -
  have "pm_Tier m \<in> dom (tiers poc)"
    using relD(3) [OF assms(1)] assms(2) by (auto simp: tier_names_def ran_def)
  then obtain ti where ti: "tiers poc (pm_Tier m) = Some ti" by auto
  have "ti_Policies ti k = Some m"
    using relD(4,5) [OF assms(1) ti] assms(2) by (simp add: tier_rel_def tier_pols_def)
  with ti show thesis by (rule that)
qed

lemma has_at:
  assumes rel: "sorter_rel poc P T"
  shows "(case tiers poc n of None \<Rightarrow> False | Some ti \<Rightarrow> ti_Policies ti k \<noteq> None)
    \<longleftrightarrow> (\<exists>m. P k = Some m \<and> pm_Tier m = n)"
proof (cases "tiers poc n")
  case None
  then have "\<not> (\<exists>m. P k = Some m \<and> pm_Tier m = n)" using policy_tier [OF rel, of k] by (metis option.distinct(1))
  then show ?thesis using None by simp
next
  case (Some ti)
  then show ?thesis using has_policy_iff [OF rel Some] by simp
qed

lemma policy_tier_name: "sorter_rel poc P T \<Longrightarrow> P k = Some m \<Longrightarrow> pm_Tier m \<in> dom (tiers poc)"
  using policy_tier by (metis domI)

lemma tierForPolicy_found:
  assumes rel: "sorter_rel poc P T" and "set rng = dom (tiers poc)"
  shows "tierForPolicy rng k None poc
    = (case P k of None \<Rightarrow> ('''', None) | Some m \<Rightarrow> (pm_Tier m, tiers poc (pm_Tier m)))"
proof -
  let ?has = "\<lambda>n. case tiers poc n of None \<Rightarrow> False | Some ti \<Rightarrow> ti_Policies ti k \<noteq> None"
  show ?thesis
  proof (cases "P k")
    case None
    then have "List.find ?has rng = None" unfolding find_None_iff has_at [OF rel] by simp
    then show ?thesis using None by (simp add: tierForPolicy_def)
  next
    case (Some m)
    have "pm_Tier m \<in> set rng" using assms(2) policy_tier_name [OF rel Some] by simp
    then have "List.find (\<lambda>n. n = pm_Tier m) rng = Some (pm_Tier m)" by (induction rng) auto
    moreover have "?has = (\<lambda>n. n = pm_Tier m)" unfolding has_at [OF rel] using Some by auto
    ultimately show ?thesis using Some by (simp add: tierForPolicy_def)
  qed
qed

lemma HasPolicy_iff:
  assumes rel: "sorter_rel poc P T" and "set rng = dom (tiers poc)"
  shows "HasPolicy k rng poc \<longleftrightarrow> P k \<noteq> None"
proof -
  have "HasPolicy k rng poc \<longleftrightarrow> (\<exists>n \<in> dom (tiers poc). \<exists>m. P k = Some m \<and> pm_Tier m = n)"
    unfolding HasPolicy_def list_ex_iff has_at [OF rel] assms(2) ..
  then show ?thesis using policy_tier_name [OF rel] by blast
qed

text \<open>Replacing or removing one tier, when nothing changes for the others.\<close>

lemma sorter_rel_tier:
  assumes rel: "sorter_rel poc P T" and fin: "finite (dom P')" "finite (dom T')" and ok: "\<forall>k \<in> dom P'. key_ok k"
    and others: "\<And>j. j \<noteq> n \<Longrightarrow> tier_pols P' j = tier_pols P j \<and> T' j = T j"
    and tiers: "tiers poc' = (tiers poc)(n := v)"
    and v: "v = None \<Longrightarrow> n \<notin> tier_names P' T'"
      "\<And>ti. v = Some ti \<Longrightarrow> ti_Name ti = n \<and> tier_rel P' T' ti \<and> n \<in> tier_names P' T'"
    and tree: "tt.holds (sortedTiers poc') (tier_keys ((tiers poc)(n := v)))"
  shows "sorter_rel poc' P' T'"
proof -
  have names: "dom ((tiers poc)(n := v)) = tier_names P' T'"
  proof (rule set_eqI)
    fix j
    show "j \<in> dom ((tiers poc)(n := v)) \<longleftrightarrow> j \<in> tier_names P' T'"
    proof (cases "j = n")
      case True
      then show ?thesis using v by (cases v) auto
    next
      case False
      then have "j \<in> dom (tiers poc) \<longleftrightarrow> j \<in> tier_names P' T'"
        using relD(3) [OF rel] others [OF False] by (simp add: in_tier_names)
      then show ?thesis using False by (simp add: domIff)
    qed
  qed
  have "tier_rel P' T' ti" if ti: "((tiers poc)(n := v)) j = Some ti" for j ti
  proof (cases "j = n")
    case True
    then show ?thesis using ti v(2) [of ti] by simp
  next
    case False
    then have "tier_rel P T ti" "ti_Name ti = j" using ti relD(4,5) [OF rel, of j ti] by auto
    then show ?thesis using others [OF False] by (simp add: tier_rel_def tier_attrs_def)
  qed
  moreover have "named ((tiers poc)(n := v))"
    using relD(2) [OF rel] v(2) by (cases v) simp_all
  ultimately show ?thesis
    using fin ok names tree by (simp add: sorter_rel_def tiers)
qed

lemma tier_tree_rel:
  assumes "tier_rel P T ti"
  obtains tree where "tier_tree ti = Return tree" "pt.holds tree (pol_kvs (tier_pols P (ti_Name ti)))"
    "ti_SortedPolicies ti = Some tree"
  using assms by (auto simp: tier_rel_def tier_tree_def)

lemma tier_pols_ok: "\<forall>k \<in> dom P. key_ok k \<Longrightarrow> \<forall>k \<in> dom (tier_pols P n). key_ok k"
  using tier_pols_dom by blast

lemma remove_from_tier_rel:
  assumes rel: "sorter_rel poc P T" and k: "P k = Some m" and ti: "tiers poc (pm_Tier m) = Some ti"
  shows "\<exists>poc'. remove_from_tier tb pb k m (tier_key ti) (pm_Tier m) ti poc = Return poc'
    \<and> sorter_rel poc' (P(k := None)) T \<and> (\<forall>j. j \<noteq> pm_Tier m \<longrightarrow> tiers poc' j = tiers poc j) \<and> keeps_action poc poc'"
proof -
  let ?n = "pm_Tier m" and ?P = "P(k := None)"
  have name: "ti_Name ti = ?n" and trel: "tier_rel P T ti" using relD(4,5) [OF rel ti] by auto
  have ok: "\<forall>k \<in> dom P. key_ok k" and fin: "finite (dom P)" "finite (dom T)" using rel by (auto simp: sorter_rel_def)
  obtain tree where tree: "tier_tree ti = Return tree" "pt.holds tree (pol_kvs (tier_pols P ?n))"
    using tier_tree_rel [OF trel] name by metis
  have pk: "tier_pols P ?n k = Some m" using k by (simp add: tier_pols_def)
  have kv: "polkv_ok \<lparr>kv_Key = k, kv_Value = Some m\<rparr>" using ok k by (auto simp: polkv_ok_def intro: domI)
  define tree' where "tree' = bt_Delete pb \<lparr>kv_Key = k, kv_Value = Some m\<rparr> tree"
  have tree': "pt.holds tree' (pol_kvs (tier_pols ?P ?n))"
    unfolding tree'_def using pt.holds_delete [OF tree(2) kv] pol_kvs_delete [OF tier_pols_ok [OF ok] pk]
    by (simp add: tier_pols_upd)
  define ti' where "ti' = ti\<lparr>ti_SortedPolicies := Some tree', ti_Policies := (ti_Policies ti)(k := None)\<rparr>"
  have ti': "ti_Name ti' = ?n" "tier_rel ?P T ti'" "tier_key ti' = tier_key ti"
    using trel name tree' by (auto simp: ti'_def tier_rel_def tier_pols_upd tier_key_def)
  have others: "tier_pols ?P j = tier_pols P j" if "j \<noteq> ?n" for j
    using that k by (auto simp: tier_pols_upd tier_pols_def fun_eq_iff)
  have empty: "dom (ti_Policies ti') = {} \<and> \<not> ti_Valid ti' \<longleftrightarrow> ?n \<notin> tier_names ?P T"
    using ti'(1,2) by (auto simp: tier_rel_def tier_attrs_def in_tier_names split: option.splits)
  define poc' where "poc' = (if dom (ti_Policies ti') = {} \<and> \<not> ti_Valid ti'
      then drop_tier ?n (delete_key tb (tier_key ti) (put_tier ti' poc)) else put_tier ti' poc)"
  have run: "remove_from_tier tb pb k m (tier_key ti) ?n ti poc = Return poc'"
    unfolding remove_from_tier_def tree(1) run_bind_simps Let_def poc'_def ti'_def tree'_def ..
  have keys: "tier_keys ((tiers poc)(?n \<mapsto> ti')) = tier_keys (tiers poc)"
    using ti ti'(3) tier_keys_put by (metis fun_upd_triv fun_upd_upd)
  have "sorter_rel poc' ?P T"
  proof (rule sorter_rel_tier [OF rel _ _ _ _, where n = ?n and v = "if ?n \<in> tier_names ?P T then Some ti' else None"])
    show "tiers poc' = (tiers poc)(?n := if ?n \<in> tier_names ?P T then Some ti' else None)"
      using empty ti'(1) by (auto simp: poc'_def put_tier_def drop_tier_def delete_key_def)
    show "tt.holds (sortedTiers poc') (tier_keys ((tiers poc)(?n := if ?n \<in> tier_names ?P T then Some ti' else None)))"
      using empty tt.holds_delete [OF relD(6) [OF rel], of "tier_key ti"] relD(6) [OF rel] keys
        tier_keys_delete [OF relD(2) [OF rel] ti]
      by (auto simp: poc'_def put_tier_def drop_tier_def delete_key_def)
  qed (use fin ok others ti' in \<open>auto split: if_splits\<close>)
  moreover have "tiers poc' j = tiers poc j" if "j \<noteq> ?n" for j
    using that ti'(1) by (simp add: poc'_def put_tier_def drop_tier_def delete_key_def)
  moreover have "keeps_action poc poc'"
    using ti ti'(1) by (auto simp: keeps_action_def poc'_def put_tier_def drop_tier_def delete_key_def ti'_def)
  ultimately show ?thesis using run by blast
qed

text \<open>Adding a policy to the tier that its metadata names, when no other tier has it.\<close>

lemma enter_tier_rel:
  assumes rel: "sorter_rel poc P T" and k: "key_ok k" and old: "\<And>m'. P k = Some m' \<Longrightarrow> pm_Tier m' = pm_Tier m"
  shows "\<exists>poc'. enter_tier tb pb k m (pm_Tier m) (tiers poc (pm_Tier m)) dirty poc
      = Return (dirty \<or> P k \<noteq> Some m, poc') \<and> sorter_rel poc' (P(k \<mapsto> m)) T
      \<and> (\<forall>j. j \<noteq> pm_Tier m \<longrightarrow> tiers poc' j = tiers poc j) \<and> keeps_action poc poc'"
proof -
  let ?n = "pm_Tier m" and ?P = "P(k \<mapsto> m)" and ?kv = "\<lambda>v. \<lparr>kv_Key = k, kv_Value = v\<rparr>"
  have ok: "\<forall>k \<in> dom P. key_ok k" and fin: "finite (dom P)" "finite (dom T)" using rel by (auto simp: sorter_rel_def)
  have okP: "\<forall>k \<in> dom ?P. key_ok k" using ok k by simp
  have kv: "polkv_ok (?kv (Some v))" for v using k by (simp add: polkv_ok_def)
  have Pk: "tier_pols P ?n k = P k" using old by (auto simp: tier_pols_def split: option.split)
  have others: "tier_pols ?P j = tier_pols P j" if "j \<noteq> ?n" for j
    using that old by (auto simp: tier_pols_upd tier_pols_def fun_eq_iff split: option.split)
  define ti where "ti = (case tiers poc ?n of Some ti \<Rightarrow> ti | None \<Rightarrow> NewTierInfo pb ?n)"
  define poc1 where "poc1 = (case tiers poc ?n of Some ti \<Rightarrow> poc | None \<Rightarrow> insert_key tb (tier_key ti) (put_tier ti poc))"
  have none: "?n \<notin> tier_names P T" if "tiers poc ?n = None" using that relD(3) [OF rel] by blast
  have trel: "ti_Name ti = ?n" "tier_rel P T ti"
    using relD(4,5) [OF rel, of ?n ti] none pt.holds_New
    by (auto simp: ti_def NewTierInfo_def tier_rel_def tier_attrs_def in_tier_names pol_kvs_def split: option.splits)
  have old_pol: "(case tiers poc ?n of None \<Rightarrow> None | Some ti \<Rightarrow> ti_Policies ti k) = P k"
    using trel Pk none by (auto simp: ti_def tier_rel_def in_tier_names split: option.splits)
  obtain tree where tree: "tier_tree ti = Return tree" "pt.holds tree (pol_kvs (tier_pols P ?n))"
    using tier_tree_rel [OF trel(2)] trel(1) by metis
  define tree1 where "tree1 = (if P k \<noteq> None then bt_Delete pb (?kv (P k)) tree else tree)"
  have tree1: "pt.holds tree1 (pol_kvs ((tier_pols P ?n)(k := None)))"
  proof (cases "P k")
    case None
    then have "(tier_pols P ?n)(k := None) = tier_pols P ?n" using Pk by auto
    then show ?thesis using tree(2) None by (simp add: tree1_def)
  next
    case (Some m')
    then show ?thesis
      using pt.holds_delete [OF tree(2) kv, of m'] pol_kvs_delete [OF tier_pols_ok [OF ok], of ?n k m'] Pk
      by (simp add: tree1_def)
  qed
  define ti' where "ti' = ti\<lparr>ti_SortedPolicies := Some (bt_ReplaceOrInsert pb (?kv (Some m)) tree1),
      ti_Policies := (ti_Policies ti)(k \<mapsto> m)\<rparr>"
  have "\<forall>j \<in> dom ((tier_pols P ?n)(k := None)). key_ok j" using tier_pols_ok [OF ok] by auto
  from pt.holds_insert [OF tree1 kv, of m] pol_kvs_fresh [OF this k, of m]
  have "pt.holds (bt_ReplaceOrInsert pb (?kv (Some m)) tree1) (pol_kvs (tier_pols ?P ?n))"
    by (simp add: tier_pols_upd pol_kvs_put)
  then have ti': "ti_Name ti' = ?n" "tier_rel ?P T ti'" "tier_key ti' = tier_key ti"
    using trel by (auto simp: ti'_def tier_rel_def tier_pols_upd tier_key_def)
  have run: "enter_tier tb pb k m ?n (tiers poc ?n) dirty poc = Return (dirty \<or> P k \<noteq> Some m, put_tier ti' poc1)"
    using tree(1) old_pol
    by (auto simp: enter_tier_def ti'_def tree1_def ti_def poc1_def policyMetadata_Equals_def Let_def split: option.splits)
  have "sorter_rel (put_tier ti' poc1) ?P T"
  proof (rule sorter_rel_tier [OF rel, where n = ?n and v = "Some ti'"])
    show "tiers (put_tier ti' poc1) = (tiers poc)(?n \<mapsto> ti')"
      using ti'(1) trel(1) by (auto simp: put_tier_def poc1_def insert_key_def split: option.split)
    show "tt.holds (sortedTiers (put_tier ti' poc1)) (tier_keys ((tiers poc)(?n \<mapsto> ti')))"
    proof (cases "tiers poc ?n")
      case None
      then show ?thesis
        using tt.holds_insert [OF relD(6) [OF rel], of "tier_key ti"] tier_keys_fresh [OF relD(2) [OF rel] trel(1) None]
        by (simp add: put_tier_def poc1_def insert_key_def tier_keys_put ti'(3) None fun_upd_idem)
    next
      case (Some ti0)
      then have "tier_keys ((tiers poc)(?n \<mapsto> ti')) = tier_keys (tiers poc)"
        using ti'(3) tier_keys_put by (metis fun_upd_triv fun_upd_upd option.simps(5) ti_def)
      then show ?thesis using Some relD(6) [OF rel] by (simp add: put_tier_def poc1_def)
    qed
  qed (use fin okP others ti' in \<open>auto simp: in_tier_names tier_pols_upd\<close>)
  moreover have upd: "tiers (put_tier ti' poc1) j = (if j = ?n then Some ti' else tiers poc j)" for j
    using ti'(1) trel(1) by (auto simp: put_tier_def poc1_def insert_key_def split: option.split)
  moreover have "keeps_action poc (put_tier ti' poc1)"
    unfolding keeps_action_def upd by (auto simp: ti'_def ti_def)
  ultimately show ?thesis using run by auto
qed

text \<open>A policy update is an update of the map of policies, and it is dirty exactly when it changes it.\<close>

lemma UpdatePolicy_rel:
  assumes rel: "sorter_rel poc P T" and k: "key_ok k" and rng: "range_orders rng"
  shows "\<exists>poc'. UpdatePolicy tb pb rng k v poc = Return (P k \<noteq> v, poc') \<and> sorter_rel poc' (P(k := v)) T
    \<and> keeps_action poc poc'"
proof -
  have set: "set (rng i (dom (tiers poc))) = dom (tiers poc)" for i
    using rng sorter_rel_finite [OF rel] by (simp add: range_orders_def)
  note find = tierForPolicy_found [OF rel set, of _ k]
  show ?thesis
  proof (cases v)
    case None
    show ?thesis
    proof (cases "P k")
      case no: None
      then have "P(k := None) = P" by auto
      then show ?thesis
        using None no rel by (simp add: UpdatePolicy_def find leave_old_tier_def)
    next
      case (Some m)
      obtain ti where ti: "tiers poc (pm_Tier m) = Some ti" "ti_Policies ti k = Some m" by (rule policy_tier [OF rel Some])
      have "ti_Name ti = pm_Tier m" using relD(5) [OF rel ti(1)] .
      with remove_from_tier_rel [OF rel Some ti(1)] Some None ti show ?thesis
        by (auto simp: UpdatePolicy_def find leave_old_tier_def)
    qed
  next
    case (Some m)
    have meta: "tierForPolicy r k (Some m) poc = (pm_Tier m, tiers poc (pm_Tier m))" for r
      by (simp add: tierForPolicy_def)
    show ?thesis
    proof (cases "\<exists>m0. P k = Some m0 \<and> pm_Tier m0 \<noteq> pm_Tier m")
      case False
      then have stay: "leave_old_tier tb pb k (snd (case P k of None \<Rightarrow> ('''', None) | Some m0 \<Rightarrow> (pm_Tier m0, tiers poc (pm_Tier m0))))
          (tiers poc (pm_Tier m)) poc = Return (False, poc)"
        using policy_tier_name [OF rel, of k] by (auto simp: leave_old_tier_def split: option.splits)
      show ?thesis
        using enter_tier_rel [OF rel k, of m False] False stay
        by (auto simp: Some UpdatePolicy_def find meta split: option.splits)
    next
      case True
      then obtain m0 where m0: "P k = Some m0" "pm_Tier m0 \<noteq> pm_Tier m" by blast
      obtain ti where ti: "tiers poc (pm_Tier m0) = Some ti" "ti_Policies ti k = Some m0" by (rule policy_tier [OF rel m0(1)])
      have name: "ti_Name ti = pm_Tier m0" using relD(5) [OF rel ti(1)] .
      obtain poc1 where p1: "remove_from_tier tb pb k m0 (tier_key ti) (pm_Tier m0) ti poc = Return poc1"
          "sorter_rel poc1 (P(k := None)) T" "\<And>j. j \<noteq> pm_Tier m0 \<Longrightarrow> tiers poc1 j = tiers poc j" "keeps_action poc poc1"
        using remove_from_tier_rel [OF rel m0(1) ti(1)] by metis
      have "map_option ti_Name (tiers poc (pm_Tier m)) \<noteq> Some (ti_Name ti)"
        using relD(5) [OF rel] m0(2) name by auto
      then have "leave_old_tier tb pb k (Some ti) (tiers poc (pm_Tier m)) poc = Return (True, poc1)"
        using p1(1) ti(2) name by (simp add: leave_old_tier_def)
      moreover obtain poc2 where p2: "enter_tier tb pb k m (pm_Tier m) (tiers poc (pm_Tier m)) True poc1 = Return (True, poc2)"
          "sorter_rel poc2 (P(k \<mapsto> m)) T" "\<And>j. j \<noteq> pm_Tier m \<Longrightarrow> tiers poc2 j = tiers poc1 j" "keeps_action poc1 poc2"
        using enter_tier_rel [OF p1(2) k, of m True] p1(3) [of "pm_Tier m"] m0(2) by auto
      moreover have "keeps_action poc poc2"
        using p1(3,4) p2(3,4) m0(2) unfolding keeps_action_def by metis
      ultimately show ?thesis
        using m0 ti by (auto simp: Some UpdatePolicy_def find meta)
    qed
  qed
qed

section \<open>Tier updates and the sorted sequence\<close>

lemma set_tier_rel:
  assumes rel: "sorter_rel poc P T"
  shows "sorter_rel (snd (set_tier tb pb n t poc)) P (T(n \<mapsto> t))"
proof -
  define ti where "ti = (case tiers poc n of Some ti \<Rightarrow> ti | None \<Rightarrow> NewTierInfo pb n)"
  define ti' where "ti' = ti\<lparr>ti_Order := tier_Order t, ti_DefaultAction := tier_DefaultAction t, ti_Valid := True\<rparr>"
  have fin: "finite (dom P)" "finite (dom T)" and ok: "\<forall>k \<in> dom P. key_ok k" using rel by (auto simp: sorter_rel_def)
  have none: "n \<notin> tier_names P T" if "tiers poc n = None" using that relD(3) [OF rel] by blast
  have trel: "ti_Name ti = n" "tier_rel P T ti"
    using relD(4,5) [OF rel, of n ti] none pt.holds_New
    by (auto simp: ti_def NewTierInfo_def tier_rel_def tier_attrs_def in_tier_names pol_kvs_def split: option.splits)
  then have ti': "ti_Name ti' = n" "tier_rel P (T(n \<mapsto> t)) ti'"
    by (auto simp: ti'_def tier_rel_def tier_attrs_def)
  let ?minus = "(tiers poc)(n := None)"
  define poc1 where "poc1 = (case tiers poc n of Some ti \<Rightarrow> delete_key tb (tier_key ti) poc | None \<Rightarrow> poc)"
  have res: "snd (set_tier tb pb n t poc) = insert_key tb (tier_key ti') (put_tier ti' poc1)"
  proof (cases "tiers poc n")
    case None
    then show ?thesis
      by (simp add: set_tier_def ti'_def ti_def poc1_def put_tier_def insert_key_def NewTierInfo_def Let_def)
  next
    case (Some ti0)
    then show ?thesis
      by (cases ti0; cases "ti_Order ti0 = tier_Order t"; cases "ti_DefaultAction ti0 = tier_DefaultAction t")
         (simp_all add: set_tier_def ti'_def ti_def poc1_def Let_def)
  qed
  have minus: "tt.holds (sortedTiers poc1) (tier_keys ?minus)"
    using relD(6) [OF rel] tt.holds_delete [OF relD(6) [OF rel], of "tier_key ti"] tier_keys_delete [OF relD(2) [OF rel], of n ti]
    by (auto simp: poc1_def ti_def delete_key_def fun_upd_idem split: option.splits)
  show ?thesis unfolding res
  proof (rule sorter_rel_tier [OF rel, where n = n and v = "Some ti'"])
    show "tiers (insert_key tb (tier_key ti') (put_tier ti' poc1)) = (tiers poc)(n \<mapsto> ti')"
      using ti'(1) by (auto simp: insert_key_def put_tier_def poc1_def delete_key_def split: option.split)
    show "tt.holds (sortedTiers (insert_key tb (tier_key ti') (put_tier ti' poc1))) (tier_keys ((tiers poc)(n \<mapsto> ti')))"
      using tt.holds_insert [OF minus, of "tier_key ti'"] tier_keys_fresh [OF _ ti'(1), of ?minus] relD(2) [OF rel]
      by (simp add: insert_key_def put_tier_def tier_keys_put)
  qed (use fin ok ti' in \<open>auto simp: in_tier_names\<close>)
qed

lemma unset_tier_rel:
  assumes rel: "sorter_rel poc P T"
  shows "sorter_rel (snd (unset_tier tb n poc)) P (T(n := None))"
proof (cases "tiers poc n")
  case None
  then have "T n = None" using relD(3) [OF rel] by (metis domIff in_tier_names)
  then have "T(n := None) = T" by auto
  then show ?thesis using None rel by (simp add: unset_tier_def)
next
  case (Some ti)
  define ti' where "ti' = ti\<lparr>ti_Valid := False, ti_Order := None\<rparr>"
  define keep where "keep = (n \<in> tier_names P (T(n := None)))"
  have fin: "finite (dom P)" "finite (dom T)" and ok: "\<forall>k \<in> dom P. key_ok k" using rel by (auto simp: sorter_rel_def)
  have trel: "ti_Name ti = n" "tier_rel P T ti" using relD(4,5) [OF rel Some] by auto
  then have ti': "ti_Name ti' = n" "tier_rel P (T(n := None)) ti'"
    by (auto simp: ti'_def tier_rel_def tier_attrs_def)
  have keep: "dom (ti_Policies ti') = {} \<longleftrightarrow> \<not> keep"
    using ti' by (simp add: keep_def in_tier_names tier_rel_def)
  let ?minus = "(tiers poc)(n := None)"
  define poc1 where "poc1 = put_tier ti' (delete_key tb (tier_key ti) poc)"
  have res: "snd (unset_tier tb n poc) = (if keep then insert_key tb (tier_key ti') poc1 else drop_tier n poc1)"
    unfolding unset_tier_def Some option.case Let_def snd_conv
    unfolding ti'_def [symmetric] poc1_def [symmetric] keep by simp
  have minus: "tt.holds (bt_Delete tb (tier_key ti) (sortedTiers poc)) (tier_keys ?minus)"
    using tt.holds_delete [OF relD(6) [OF rel], of "tier_key ti"] tier_keys_delete [OF relD(2) [OF rel] Some] by simp
  show ?thesis unfolding res
  proof (rule sorter_rel_tier [OF rel, where n = n and v = "if keep then Some ti' else None"])
    show "tiers (if keep then insert_key tb (tier_key ti') poc1 else drop_tier n poc1)
        = (tiers poc)(n := if keep then Some ti' else None)"
      using ti'(1) by (simp add: insert_key_def put_tier_def poc1_def delete_key_def drop_tier_def)
    show "tt.holds (sortedTiers (if keep then insert_key tb (tier_key ti') poc1 else drop_tier n poc1))
        (tier_keys ((tiers poc)(n := if keep then Some ti' else None)))"
      using minus tt.holds_insert [OF minus, of "tier_key ti'"] tier_keys_fresh [OF _ ti'(1), of ?minus] relD(2) [OF rel]
      by (simp add: insert_key_def put_tier_def poc1_def delete_key_def drop_tier_def tier_keys_put)
  qed (use fin ok ti' in \<open>auto simp: keep_def split: if_splits\<close>)
qed

definition order_tier :: "'pt TierInfo \<Rightarrow> 'pt TierInfo" where
  "order_tier ti = (case ti_SortedPolicies ti of
     None \<Rightarrow> ti | Some tree \<Rightarrow> ti\<lparr>ti_OrderedPolicies := bt_Ascend pb tree\<rparr>)"

lemma order_tier_simps [simp]:
  "ti_Name (order_tier ti) = ti_Name ti" "ti_Policies (order_tier ti) = ti_Policies ti"
  "tier_key (order_tier ti) = tier_key ti" "ti_SortedPolicies (order_tier ti) = ti_SortedPolicies ti"
  "order_tier (order_tier ti) = order_tier ti" "tier_attrs T (order_tier ti) = tier_attrs T ti"
  by (auto simp: order_tier_def tier_key_def split: option.split)

lemma order_tier_rel [simp]: "tier_rel P T (order_tier ti) = tier_rel P T ti"
  by (simp add: tier_rel_def)

lemma sorted_steps:
  assumes "named (tiers poc)" and "\<forall>k \<in> set ks. tk_Name k \<in> dom (tiers poc)"
  shows "run_fold (sorted_step pb) ks (acc, poc) =
    Return (acc @ map (\<lambda>k. order_tier (the (tiers poc (tk_Name k)))) ks,
            poc\<lparr>tiers := (\<lambda>n. if n \<in> tk_Name ` set ks then map_option order_tier (tiers poc n) else tiers poc n)\<rparr>)"
  using assms
proof (induction ks arbitrary: acc poc)
  case (Cons k ks)
  then obtain ti where ti: "tiers poc (tk_Name k) = Some ti" by auto
  let ?poc = "put_tier (order_tier ti) poc"
  have name: "ti_Name ti = tk_Name k" using Cons.prems(1) ti by (simp add: named_def)
  have "sorted_step pb k (acc, poc) = Return (acc @ [order_tier ti], ?poc)"
    using ti by (simp add: sorted_step_def order_tier_def Let_def)
  moreover have tiers: "tiers ?poc = (tiers poc)(tk_Name k \<mapsto> order_tier ti)" using name by (simp add: put_tier_def)
  have "named (tiers ?poc)" "\<forall>k \<in> set ks. tk_Name k \<in> dom (tiers ?poc)"
    using Cons.prems name by (auto simp: tiers)
  note IH = Cons.IH [OF this, of "acc @ [order_tier ti]"]
  have "map (\<lambda>k. order_tier (the (tiers ?poc (tk_Name k)))) ks = map (\<lambda>k. order_tier (the (tiers poc (tk_Name k)))) ks"
    using ti by (simp add: tiers)
  moreover have "(if n \<in> tk_Name ` set ks then map_option order_tier (tiers ?poc n) else tiers ?poc n)
      = (if n \<in> tk_Name ` set (k # ks) then map_option order_tier (tiers poc n) else tiers poc n)" for n
    using ti by (simp add: tiers)
  moreover have "?poc\<lparr>tiers := f\<rparr> = poc\<lparr>tiers := f\<rparr>" for f by (simp add: put_tier_def)
  ultimately show ?case
    using IH ti by simp
qed (simp add: fun_eq_iff)

definition tier_seq :: "('tt, 'pt) PolicySorter \<Rightarrow> 'pt TierInfo list" where
  "tier_seq poc = map (\<lambda>k. order_tier (the (tiers poc (tk_Name k)))) (bt_Ascend tb (sortedTiers poc))"

lemma tree_names:
  assumes rel: "sorter_rel poc P T"
  shows "tk_Name ` set (bt_Ascend tb (sortedTiers poc)) = dom (tiers poc)"
proof -
  have "set (bt_Ascend tb (sortedTiers poc)) = tier_keys (tiers poc)" using relD(6) [OF rel] by (simp add: tt.holds_def)
  then show ?thesis
    using relD(2) [OF rel] by (force simp: tier_keys_def tier_key_def named_def image_iff)
qed

lemma tier_seq_keys:
  assumes rel: "sorter_rel poc P T"
  shows "map tier_key (tier_seq poc) = bt_Ascend tb (sortedTiers poc)"
    and "ti \<in> set (tier_seq poc) \<longleftrightarrow> (\<exists>n ti0. tiers poc n = Some ti0 \<and> ti = order_tier ti0)"
proof -
  let ?ks = "bt_Ascend tb (sortedTiers poc)"
  have ks: "set ?ks = tier_keys (tiers poc)" using relD(6) [OF rel] by (simp add: tt.holds_def)
  have key: "\<exists>ti. tiers poc (tk_Name k) = Some ti \<and> tier_key ti = k" if "k \<in> set ?ks" for k
    using that relD(2) [OF rel] unfolding ks by (auto simp: tier_keys_def tier_key_def named_def)
  show "map tier_key (tier_seq poc) = ?ks"
    unfolding tier_seq_def map_map using key by (intro map_idI) fastforce
  have "order_tier ti0 \<in> set (tier_seq poc)" if ti0: "tiers poc n = Some ti0" for n ti0
  proof -
    have "tier_key ti0 \<in> set ?ks" "tk_Name (tier_key ti0) = n"
      using ti0 relD(5) [OF rel ti0] unfolding ks by (auto simp: tier_keys_def tier_key_def)
    then show ?thesis using ti0 by (force simp: tier_seq_def image_iff)
  qed
  then show "ti \<in> set (tier_seq poc) \<longleftrightarrow> (\<exists>n ti0. tiers poc n = Some ti0 \<and> ti = order_tier ti0)"
    using key by (fastforce simp: tier_seq_def)
qed

lemma tier_seq_sorted:
  assumes rel: "sorter_rel poc P T"
  shows "sorted_tiers P T (tier_seq poc)"
  unfolding sorted_tiers_def list_all_iff
proof (intro conjI ballI)
  show "sorted_wrt TierLess (map tier_key (tier_seq poc))"
    using relD(6) [OF rel] tier_seq_keys(1) [OF rel] by (simp add: tt.holds_def)
  have "ti_Name ` set (tier_seq poc) = tk_Name ` set (map tier_key (tier_seq poc))" by (simp add: image_image tier_key_def)
  then show "ti_Name ` set (tier_seq poc) = tier_names P T"
    using tree_names [OF rel] tier_seq_keys(1) [OF rel] relD(3) [OF rel] by simp
next
  fix ti
  assume "ti \<in> set (tier_seq poc)"
  then obtain n ti0 where ti0: "ti = order_tier ti0" "tiers poc n = Some ti0" using tier_seq_keys(2) [OF rel] by blast
  have tr: "tier_rel P T ti0" using relD(4) [OF rel ti0(2)] .
  then obtain tree where tree: "pt.holds tree (pol_kvs (tier_pols P (ti_Name ti0)))" "ti_SortedPolicies ti0 = Some tree"
    by (rule tier_tree_rel)
  then have "ti_OrderedPolicies ti = bt_Ascend pb tree" by (simp add: ti0(1) order_tier_def)
  then show "sorted_wrt PolKVLess (ti_OrderedPolicies ti)" "set (ti_OrderedPolicies ti) = pol_kvs (tier_pols P (ti_Name ti))"
    using tree(1) ti0(1) by (simp_all add: pt.holds_def)
  show "tier_attrs T ti" using tr ti0(1) by (simp add: tier_rel_def)
qed

lemma Sorted_rel:
  assumes rel: "sorter_rel poc P T"
  shows "\<exists>poc'. Sorted tb pb poc = Return (tier_seq poc, poc') \<and> sorter_rel poc' P T
    \<and> tier_seq poc' = tier_seq poc \<and> keeps_action poc poc'"
proof -
  let ?ks = "bt_Ascend tb (sortedTiers poc)"
  define poc' where "poc' = poc\<lparr>tiers := (\<lambda>n. map_option order_tier (tiers poc n))\<rparr>"
  note names = tree_names [OF rel]
  have "(if n \<in> dom (tiers poc) then map_option order_tier (tiers poc n) else tiers poc n)
      = map_option order_tier (tiers poc n)" for n by (cases "tiers poc n") auto
  moreover have in_dom: "\<forall>k \<in> set ?ks. tk_Name k \<in> dom (tiers poc)" using names by blast
  ultimately have "run_fold (sorted_step pb) ?ks ([], poc) = Return (tier_seq poc, poc')"
    using sorted_steps [OF relD(2) [OF rel], of ?ks "[]"] names by (simp add: tier_seq_def poc'_def)
  then have run: "Sorted tb pb poc = Return (tier_seq poc, poc')"
    by (cases "?ks = []") (auto simp: Sorted_def tt.Len)
  have "tier_keys (tiers poc') = tier_keys (tiers poc)"
    by (simp add: tier_keys_def poc'_def) (metis order_tier_simps(3))
  then have "sorter_rel poc' P T" using rel by (auto simp: sorter_rel_def poc'_def named_def dom_def)
  moreover have "tier_seq poc' = tier_seq poc"
    using in_dom by (auto simp: tier_seq_def poc'_def)
  moreover have "keeps_action poc poc'"
    by (auto simp: keeps_action_def poc'_def order_tier_def split: option.splits)
  ultimately show ?thesis using run by blast
qed

text \<open>Every update of the sorter is an update of the two maps.\<close>

lemma sorter_OnUpdate_rel:
  assumes rel: "sorter_rel poc P T" and ok: "update_ok u" and rng: "range_orders rng"
  shows "\<exists>dirty poc'. sorter_OnUpdate tb pb rng u poc = Return (dirty, poc')
    \<and> sorter_rel poc' (fst (sorter_maps_step u (P, T))) (snd (sorter_maps_step u (P, T)))"
proof (cases u)
  case (TierUpdate n v)
  then show ?thesis
    using set_tier_rel [OF rel, of n] unset_tier_rel [OF rel, of n]
    by (cases v) (simp_all add: sorter_OnUpdate_def, (metis prod.collapse)+)
next
  case (PolicyUpdate k v)
  then have "key_ok k" using ok by simp
  from UpdatePolicy_rel [OF rel this rng, of "map_option ExtractPolicyMetadata v"]
  show ?thesis using PolicyUpdate by (cases v) (auto simp: sorter_OnUpdate_def)
qed (use rel in \<open>auto simp: sorter_OnUpdate_def\<close>)

lemma sorter_updates_rel:
  assumes "sorter_rel poc P T" and "list_all (\<lambda>(rng, u). range_orders rng \<and> update_ok u) us"
  shows "\<exists>poc'. sorter_updates tb pb us poc = Return poc'
    \<and> sorter_rel poc' (fst (fold (sorter_maps_step \<circ> snd) us (P, T))) (snd (fold (sorter_maps_step \<circ> snd) us (P, T)))"
  using assms
proof (induction us arbitrary: poc P T)
  case (Cons x us)
  obtain rng u where x: "x = (rng, u)" by (cases x)
  then obtain dirty poc1 where p1: "sorter_OnUpdate tb pb rng u poc = Return (dirty, poc1)"
      "sorter_rel poc1 (fst (sorter_maps_step u (P, T))) (snd (sorter_maps_step u (P, T)))"
    using sorter_OnUpdate_rel [OF Cons.prems(1)] Cons.prems(2) by (metis (mono_tags, lifting) case_prodD list.pred_inject(2))
  show ?case using Cons.IH [OF p1(2)] Cons.prems(2) p1(1) by (simp add: sorter_updates_def x)
qed (simp add: sorter_updates_def)

end

lemma sorter_treesI:
  "ordered_tree (\<lambda>_. True) TierLess tb \<Longrightarrow> ordered_tree polkv_ok PolKVLess pb \<Longrightarrow> sorter_trees tb pb"
  by (rule sorter_trees.intro)

interpretation list_sorter: sorter_trees "list_tree TierLess" "list_tree PolKVLess"
  by (rule sorter_treesI) (rule tier_tree.ordered_tree_axioms pol_tree.ordered_tree_axioms)+

section \<open>Property\<close>

text \<open>C34. After any sequence of tier and policy updates the sorter returns, without a panic, the tiers
  that exist or that a policy names, each once, in the order of validity, order and name, and with each
  tier its attributes and exactly the policies whose metadata names it, in the order of the policies.\<close>

theorem sorter_returns_sorted:
  fixes tb :: "(tierInfoKey, 'tt) btree" and pb :: "(PolKV, 'pt) btree"
  assumes "ordered_tree (\<lambda>_. True) TierLess tb" and "ordered_tree polkv_ok PolKVLess pb"
    and "list_all (\<lambda>(rng, u). range_orders rng \<and> update_ok u) us"
    and "fold (sorter_maps_step \<circ> snd) us (Map.empty, Map.empty) = (P, T)"
  shows "\<exists>poc ts poc'. sorter_updates tb pb us (NewPolicySorter tb) = Return poc
    \<and> Sorted tb pb poc = Return (ts, poc') \<and> sorted_tiers P T ts"
proof -
  have st: "sorter_trees tb pb" using assms(1,2) by (rule sorter_treesI)
  obtain poc where "sorter_updates tb pb us (NewPolicySorter tb) = Return poc" "sorter_trees.sorter_rel tb pb poc P T"
    using sorter_trees.sorter_updates_rel [OF st sorter_trees.sorter_rel_new [OF st] assms(3)] assms(4) by auto
  with sorter_trees.Sorted_rel [OF st] sorter_trees.tier_seq_sorted [OF st] show ?thesis by blast
qed

definition wit_key :: "string \<Rightarrow> PolicyKey" where
  "wit_key name = \<lparr>pk_Name = name, pk_Namespace = ''ns'', pk_Kind = ''NetworkPolicy''\<rparr>"

definition wit_policy :: "string \<Rightarrow> nat \<Rightarrow> Policy" where
  "wit_policy tier n = \<lparr>pol_Tier = tier, pol_Order = Some (n, Finite (of_nat n)), pol_DoNotTrack = False,
     pol_PreDNAT = False, pol_ApplyOnForward = False, pol_Types = []\<rparr>"

definition wit_rng :: "string range_order" where
  "wit_rng i S = sorted_list_of_set S"

definition wit_updates :: "(string range_order \<times> unit update) list" where
  "wit_updates = [(wit_rng, TierUpdate ''t'' (Some \<lparr>tier_Order = Some (9, Finite 1), tier_DefaultAction = ''Deny''\<rparr>)),
     (wit_rng, PolicyUpdate (wit_key ''b'') (Some (wit_policy ''t'' 2))),
     (wit_rng, PolicyUpdate (wit_key ''a'') (Some (wit_policy ''u'' 1))),
     (wit_rng, PolicyUpdate (wit_key ''a'') (Some (wit_policy ''t'' 1)))]"

theorem sorter_returns_sorted_witness:
  "\<exists>poc ts poc'. sorter_updates (list_tree TierLess) (list_tree PolKVLess) wit_updates (NewPolicySorter (list_tree TierLess)) = Return poc
    \<and> Sorted (list_tree TierLess) (list_tree PolKVLess) poc = Return (ts, poc')
    \<and> sorted_tiers [wit_key ''b'' \<mapsto> ExtractPolicyMetadata (wit_policy ''t'' 2), wit_key ''a'' \<mapsto> ExtractPolicyMetadata (wit_policy ''t'' 1)]
        [''t'' \<mapsto> \<lparr>tier_Order = Some (9, Finite 1), tier_DefaultAction = ''Deny''\<rparr>] ts"
proof (rule sorter_returns_sorted)
  show "list_all (\<lambda>(rng, u). range_orders rng \<and> update_ok u) wit_updates"
    by (simp add: wit_updates_def wit_rng_def range_orders_def wit_key_def key_ok_def)
  show "fold (sorter_maps_step \<circ> snd) wit_updates (Map.empty, Map.empty)
    = ([wit_key ''b'' \<mapsto> ExtractPolicyMetadata (wit_policy ''t'' 2), wit_key ''a'' \<mapsto> ExtractPolicyMetadata (wit_policy ''t'' 1)],
       [''t'' \<mapsto> \<lparr>tier_Order = Some (9, Finite 1), tier_DefaultAction = ''Deny''\<rparr>])"
    by (simp add: wit_updates_def)
qed (rule tier_tree.ordered_tree_axioms pol_tree.ordered_tree_axioms)+

end
