(* ===== verification/Multidict.thy ===== *)
theory Multidict
  imports Calico_Base
begin

text \<open>
  The dictionary of sets of \<^verbatim>\<open>felix/multidict/multidict.go\<close>. It is a map to sets; \<open>md_inv\<close>
  says that no key is kept for an empty set, which is what \<^verbatim>\<open>ContainsKey\<close> and
  \<^verbatim>\<open>Len\<close> rely on. The lemmas relate every operation to the relation it stores.
\<close>

type_synonym ('k, 'v) Multidict = "'k \<rightharpoonup> 'v set"

definition md_New :: "('k, 'v) Multidict" where
  "md_New = Map.empty"

definition md_Len :: "('k, 'v) Multidict \<Rightarrow> nat" where
  "md_Len md = card (dom md)"

definition md_Put :: "'k \<Rightarrow> 'v \<Rightarrow> ('k, 'v) Multidict \<Rightarrow> ('k, 'v) Multidict" where
  "md_Put key v md =
     (let s = (case md key of Some s \<Rightarrow> s | None \<Rightarrow> {}) in md(key \<mapsto> insert v s))"

definition md_Discard :: "'k \<Rightarrow> 'v \<Rightarrow> ('k, 'v) Multidict \<Rightarrow> ('k, 'v) Multidict" where
  "md_Discard key v md =
     (case md key of
        None \<Rightarrow> md
      | Some s \<Rightarrow> (let s = s - {v} in if s = {} then md(key := None) else md(key \<mapsto> s)))"

definition md_Contains :: "'k \<Rightarrow> 'v \<Rightarrow> ('k, 'v) Multidict \<Rightarrow> bool" where
  "md_Contains key v md = (case md key of None \<Rightarrow> False | Some s \<Rightarrow> v \<in> s)"

definition md_ContainsKey :: "'k \<Rightarrow> ('k, 'v) Multidict \<Rightarrow> bool" where
  "md_ContainsKey key md \<longleftrightarrow> md key \<noteq> None"

definition md_DiscardKey :: "'k \<Rightarrow> ('k, 'v) Multidict \<Rightarrow> ('k, 'v) Multidict" where
  "md_DiscardKey key md = md(key := None)"

text \<open>The values that \<^verbatim>\<open>Iter\<close> passes to its function.\<close>

definition md_values :: "'k \<Rightarrow> ('k, 'v) Multidict \<Rightarrow> 'v set" where
  "md_values key md = (case md key of None \<Rightarrow> {} | Some s \<Rightarrow> s)"

definition md_inv :: "('k, 'v) Multidict \<Rightarrow> bool" where
  "md_inv md \<longleftrightarrow> finite (dom md) \<and> (\<forall>k s. md k = Some s \<longrightarrow> s \<noteq> {} \<and> finite s)"

lemma md_inv_ops [simp]:
  "md_inv md_New" "md_inv md \<Longrightarrow> md_inv (md_Put k v md)" "md_inv md \<Longrightarrow> md_inv (md_Discard k v md)"
  "md_inv md \<Longrightarrow> md_inv (md_DiscardKey k md)"
  by (auto simp: md_inv_def md_New_def md_Put_def md_Discard_def md_DiscardKey_def Let_def split: option.splits)

lemma md_values_ops [simp]:
  "md_values j md_New = {}"
  "md_values j (md_Put k v md) = (if j = k then insert v (md_values k md) else md_values j md)"
  "md_values j (md_Discard k v md) = (if j = k then md_values k md - {v} else md_values j md)"
  "md_values j (md_DiscardKey k md) = (if j = k then {} else md_values j md)"
  by (auto simp: md_values_def md_New_def md_Put_def md_Discard_def md_DiscardKey_def Let_def split: option.splits)

lemma md_Contains_iff [simp]: "md_Contains k v md \<longleftrightarrow> v \<in> md_values k md"
  by (simp add: md_Contains_def md_values_def split: option.split)

lemma md_ContainsKey_iff: "md_inv md \<Longrightarrow> md_ContainsKey k md \<longleftrightarrow> md_values k md \<noteq> {}"
  by (auto simp: md_ContainsKey_def md_values_def md_inv_def split: option.split)

lemma md_finite: "md_inv md \<Longrightarrow> finite (dom md)" "md_inv md \<Longrightarrow> finite (md_values k md)"
  by (auto simp: md_inv_def md_values_def split: option.split)

lemma md_dom_iff: "md_inv md \<Longrightarrow> k \<in> dom md \<longleftrightarrow> md_values k md \<noteq> {}"
  by (auto simp: md_inv_def md_values_def)

end
