(* ===== verification/Policy_Resolver.thy ===== *)
theory Policy_Resolver
  imports Policy_Order Multidict
begin

text \<open>
  The policy resolver of \<^verbatim>\<open>felix/calc/policy_resolver.go\<close>. It is told which policies match which
  local endpoints, keeps the policies that match something in a policy sorter, and on a flush sends for
  every endpoint that may have changed the tiers and policies that apply to it, in order. The metrics it
  also updates are left out.
\<close>

section \<open>State\<close>

text \<open>The part of \<^verbatim>\<open>active_bpgpeer_calculator.go\<close> that the resolver uses.\<close>

record EndpointBGPPeer =
  v3PeerName :: string

definition EndpointBGPPeer_Empty :: "EndpointBGPPeer option \<Rightarrow> bool" where
  "EndpointBGPPeer_Empty e = (case e of None \<Rightarrow> True | Some p \<Rightarrow> v3PeerName p = '''')"

text \<open>What a callback is called with. \<open>'ep\<close> is the type of endpoints, \<open>'cd\<close> of computed data.\<close>

record ('pt, 'ep, 'cd) endpoint_update =
  eu_key :: EndpointKey
  eu_endpoint :: "'ep option"
  eu_data :: "'cd list"
  eu_peer :: "EndpointBGPPeer option"
  eu_tiers :: "'pt TierInfo list"

record ('tt, 'pt, 'ep, 'cd, 'cb) PolicyResolver =
  policyIDToEndpointIDs :: "(PolicyKey, EndpointKey) Multidict"
  endpointIDToPolicyIDs :: "(EndpointKey, PolicyKey) Multidict"
  allPolicies :: "PolicyKey \<rightharpoonup> policyMetadata"
  sortedTierData :: "'pt TierInfo list"
  endpoints :: "EndpointKey \<rightharpoonup> 'ep"
  dirtyEndpoints :: "EndpointKey set"
  endpointComputedData :: "EndpointKey \<rightharpoonup> (string \<rightharpoonup> 'cd)"
  policySorter :: "('tt, 'pt) PolicySorter"
  Callbacks :: "'cb list"
  InitialSyncCompleted :: bool
  endpointBGPPeerData :: "EndpointKey \<rightharpoonup> EndpointBGPPeer"
  pendingPolicyUpdates :: "PolicyKey set"

definition NewPolicyResolver :: "(tierInfoKey, 'tt) btree \<Rightarrow> ('tt, 'pt, 'ep, 'cd, 'cb) PolicyResolver" where
  "NewPolicyResolver tb =
     \<lparr>policyIDToEndpointIDs = md_New, endpointIDToPolicyIDs = md_New, allPolicies = Map.empty,
      sortedTierData = [], endpoints = Map.empty, dirtyEndpoints = {}, endpointComputedData = Map.empty,
      policySorter = NewPolicySorter tb, Callbacks = [], InitialSyncCompleted = False,
      endpointBGPPeerData = Map.empty, pendingPolicyUpdates = {}\<rparr>"

definition RegisterCallback ::
  "'cb \<Rightarrow> ('tt, 'pt, 'ep, 'cd, 'cb) PolicyResolver \<Rightarrow> ('tt, 'pt, 'ep, 'cd, 'cb) PolicyResolver" where
  "RegisterCallback cb pr = pr\<lparr>Callbacks := Callbacks pr @ [cb]\<rparr>"

section \<open>Updates\<close>

fun is_workload :: "EndpointKey \<Rightarrow> bool" where
  "is_workload (WorkloadEndpointKey _ _ _ _) = True"
| "is_workload (HostEndpointKey _ _) = False"

definition mark_dirty ::
  "EndpointKey set \<Rightarrow> ('tt, 'pt, 'ep, 'cd, 'cb) PolicyResolver \<Rightarrow> ('tt, 'pt, 'ep, 'cd, 'cb) PolicyResolver" where
  "mark_dirty es pr = pr\<lparr>dirtyEndpoints := dirtyEndpoints pr \<union> es\<rparr>"

definition markAllEndpointsDirty ::
  "('tt, 'pt, 'ep, 'cd, 'cb) PolicyResolver \<Rightarrow> ('tt, 'pt, 'ep, 'cd, 'cb) PolicyResolver" where
  "markAllEndpointsDirty pr = mark_dirty (dom (endpointIDToPolicyIDs pr)) pr"

definition markEndpointsMatchingPolicyDirty ::
  "PolicyKey \<Rightarrow> ('tt, 'pt, 'ep, 'cd, 'cb) PolicyResolver \<Rightarrow> ('tt, 'pt, 'ep, 'cd, 'cb) PolicyResolver" where
  "markEndpointsMatchingPolicyDirty polKey pr = mark_dirty (md_values polKey (policyIDToEndpointIDs pr)) pr"

definition on_endpoint ::
  "EndpointKey \<Rightarrow> 'ep option \<Rightarrow> ('tt, 'pt, 'ep, 'cd, 'cb) PolicyResolver \<Rightarrow> ('tt, 'pt, 'ep, 'cd, 'cb) PolicyResolver" where
  "on_endpoint key v pr =
     (let pr = (case v of
                  Some ep \<Rightarrow> pr\<lparr>endpoints := (endpoints pr)(key \<mapsto> ep)\<rparr>
                | None \<Rightarrow>
                    (let pr = pr\<lparr>endpoints := (endpoints pr)(key := None)\<rparr>
                     in if is_workload key
                        then pr\<lparr>endpointComputedData := (endpointComputedData pr)(key := None)\<rparr> else pr))
      in mark_dirty {key} pr)"

definition resolver_OnUpdate ::
  "(tierInfoKey, 'tt) btree \<Rightarrow> (PolKV, 'pt) btree \<Rightarrow> string range_order \<Rightarrow> 'ep update
   \<Rightarrow> ('tt, 'pt, 'ep, 'cd, 'cb) PolicyResolver \<Rightarrow> ('tt, 'pt, 'ep, 'cd, 'cb) PolicyResolver run" where
  "resolver_OnUpdate tb pb rng upd pr =
     (case upd of
        EndpointUpdate key v \<Rightarrow> Return (on_endpoint key v pr)
      | PolicyUpdate key v \<Rightarrow>
          (let pr = (case v of
                       None \<Rightarrow> pr\<lparr>allPolicies := (allPolicies pr)(key := None),
                                 pendingPolicyUpdates := pendingPolicyUpdates pr - {key}\<rparr>
                     | Some policy \<Rightarrow> pr\<lparr>allPolicies := (allPolicies pr)(key \<mapsto> ExtractPolicyMetadata policy)\<rparr>)
           in if \<not> md_ContainsKey key (policyIDToEndpointIDs pr) then Return pr
              else run_bind (sorter_OnUpdate tb pb rng upd (policySorter pr)) (\<lambda>(policiesDirty, poc).
                     let pr = pr\<lparr>policySorter := poc\<rparr>
                     in Return (if policiesDirty then markEndpointsMatchingPolicyDirty key pr else pr)))
      | TierUpdate name v \<Rightarrow>
          run_bind (sorter_OnUpdate tb pb rng upd (policySorter pr)) (\<lambda>(_, poc).
            Return (markAllEndpointsDirty (pr\<lparr>policySorter := poc\<rparr>)))
      | OtherUpdate \<Rightarrow> Return pr)"

definition OnDatamodelStatus ::
  "bool \<Rightarrow> ('tt, 'pt, 'ep, 'cd, 'cb) PolicyResolver \<Rightarrow> ('tt, 'pt, 'ep, 'cd, 'cb) PolicyResolver" where
  "OnDatamodelStatus inSync pr =
     (if inSync \<and> \<not> InitialSyncCompleted pr then pr\<lparr>InitialSyncCompleted := True\<rparr> else pr)"

definition OnPolicyMatch ::
  "string range_order \<Rightarrow> PolicyKey \<Rightarrow> EndpointKey \<Rightarrow> ('tt, 'pt, 'ep, 'cd, 'cb) PolicyResolver
   \<Rightarrow> ('tt, 'pt, 'ep, 'cd, 'cb) PolicyResolver" where
  "OnPolicyMatch rng policyKey endpointKey pr =
     (let poc = policySorter pr;
          pr = (if \<not> HasPolicy policyKey (rng 0 (dom (tiers poc))) poc
                then pr\<lparr>pendingPolicyUpdates := insert policyKey (pendingPolicyUpdates pr)\<rparr> else pr);
          pr = pr\<lparr>policyIDToEndpointIDs := md_Put policyKey endpointKey (policyIDToEndpointIDs pr),
                  endpointIDToPolicyIDs := md_Put endpointKey policyKey (endpointIDToPolicyIDs pr)\<rparr>
      in mark_dirty {endpointKey} pr)"

definition OnPolicyMatchStopped ::
  "(tierInfoKey, 'tt) btree \<Rightarrow> (PolKV, 'pt) btree \<Rightarrow> string range_order \<Rightarrow> PolicyKey \<Rightarrow> EndpointKey
   \<Rightarrow> ('tt, 'pt, 'ep, 'cd, 'cb) PolicyResolver \<Rightarrow> ('tt, 'pt, 'ep, 'cd, 'cb) PolicyResolver run" where
  "OnPolicyMatchStopped tb pb rng policyKey endpointKey pr =
     (let pr = pr\<lparr>policyIDToEndpointIDs := md_Discard policyKey endpointKey (policyIDToEndpointIDs pr),
                  endpointIDToPolicyIDs := md_Discard endpointKey policyKey (endpointIDToPolicyIDs pr)\<rparr>
      in run_bind
           (if \<not> md_ContainsKey policyKey (policyIDToEndpointIDs pr)
            then run_bind (UpdatePolicy tb pb rng policyKey None (policySorter pr)) (\<lambda>(_, poc).
                   Return (pr\<lparr>policySorter := poc\<rparr>))
            else Return pr)
           (\<lambda>pr. Return (mark_dirty {endpointKey} pr)))"

text \<open>\<open>computedData\<close> is \<open>None\<close> when it is nil; the values stored are never nil.\<close>

definition OnEndpointComputedDataUpdate ::
  "EndpointKey \<Rightarrow> string \<Rightarrow> 'cd option \<Rightarrow> ('tt, 'pt, 'ep, 'cd, 'cb) PolicyResolver
   \<Rightarrow> ('tt, 'pt, 'ep, 'cd, 'cb) PolicyResolver" where
  "OnEndpointComputedDataUpdate key kind computedData pr =
     (case endpointComputedData pr key of
        None \<Rightarrow>
          (case computedData of
             None \<Rightarrow> pr
           | Some d \<Rightarrow>
               mark_dirty {key} (pr\<lparr>endpointComputedData := (endpointComputedData pr)(key \<mapsto> [kind \<mapsto> d])\<rparr>))
      | Some m \<Rightarrow>
          (case computedData of
             Some d \<Rightarrow>
               mark_dirty {key} (pr\<lparr>endpointComputedData := (endpointComputedData pr)(key \<mapsto> m(kind \<mapsto> d))\<rparr>)
           | None \<Rightarrow>
               if m kind = None then pr
               else (let m = m(kind := None)
                     in mark_dirty {key} (pr\<lparr>endpointComputedData :=
                          (if dom m = {} then (endpointComputedData pr)(key := None)
                           else (endpointComputedData pr)(key \<mapsto> m))\<rparr>))))"

definition OnEndpointBGPPeerDataUpdate ::
  "EndpointKey \<Rightarrow> EndpointBGPPeer option \<Rightarrow> ('tt, 'pt, 'ep, 'cd, 'cb) PolicyResolver
   \<Rightarrow> ('tt, 'pt, 'ep, 'cd, 'cb) PolicyResolver" where
  "OnEndpointBGPPeerDataUpdate key peerData pr =
     mark_dirty {key} (pr\<lparr>endpointBGPPeerData := (endpointBGPPeerData pr)(key := peerData)\<rparr>)"

section \<open>Flush\<close>

text \<open>The copy of a tier with the policies that match an endpoint. The message logged for an invalid tier
  says that it is skipped, but it is not.\<close>

definition filtered_tier :: "PolicyKey set \<Rightarrow> 'pt TierInfo \<Rightarrow> 'pt TierInfo" where
  "filtered_tier M tier =
     \<lparr>ti_Name = ti_Name tier, ti_Valid = True, ti_Order = ti_Order tier, ti_DefaultAction = ti_DefaultAction tier,
      ti_Policies = Map.empty, ti_SortedPolicies = None,
      ti_OrderedPolicies = filter (\<lambda>polKV. kv_Key polKV \<in> M) (ti_OrderedPolicies tier)\<rparr>"

definition applicable_tiers :: "PolicyKey set \<Rightarrow> 'pt TierInfo list \<Rightarrow> 'pt TierInfo list" where
  "applicable_tiers M ts =
     map (filtered_tier M) (filter (\<lambda>tier. list_ex (\<lambda>polKV. kv_Key polKV \<in> M) (ti_OrderedPolicies tier)) ts)"

text \<open>The computed data of an endpoint, collected in the order \<open>order\<close>, and its BGP peer.\<close>

definition computed_data ::
  "(string set \<Rightarrow> string list) \<Rightarrow> ('tt, 'pt, 'ep, 'cd, 'cb) PolicyResolver \<Rightarrow> EndpointKey \<Rightarrow> 'cd list" where
  "computed_data order pr endpointID =
     (if is_workload endpointID
      then (case endpointComputedData pr endpointID of
              None \<Rightarrow> []
            | Some m \<Rightarrow> map (\<lambda>kind. the (m kind)) (order (dom m)))
      else [])"

definition peer_data :: "('tt, 'pt, 'ep, 'cd, 'cb) PolicyResolver \<Rightarrow> EndpointKey \<Rightarrow> EndpointBGPPeer option" where
  "peer_data pr endpointID =
     (if is_workload endpointID \<and> \<not> EndpointBGPPeer_Empty (endpointBGPPeerData pr endpointID)
      then endpointBGPPeerData pr endpointID else None)"

definition sendEndpointUpdate ::
  "(string set \<Rightarrow> string list) \<Rightarrow> ('tt, 'pt, 'ep, 'cd, 'cb) PolicyResolver \<Rightarrow> EndpointKey
   \<Rightarrow> ('cb \<times> ('pt, 'ep, 'cd) endpoint_update) list" where
  "sendEndpointUpdate order pr endpointID =
     (case endpoints pr endpointID of
        None \<Rightarrow>
          map (\<lambda>cb. (cb, \<lparr>eu_key = endpointID, eu_endpoint = None, eu_data = [], eu_peer = None, eu_tiers = []\<rparr>))
            (Callbacks pr)
      | Some endpoint \<Rightarrow>
          (let applicableTiers = applicable_tiers (md_values endpointID (endpointIDToPolicyIDs pr)) (sortedTierData pr);
               computedData = computed_data order pr endpointID;
               peerData = peer_data pr endpointID
           in map (\<lambda>cb. (cb, \<lparr>eu_key = endpointID, eu_endpoint = Some endpoint, eu_data = computedData,
                              eu_peer = peerData, eu_tiers = applicableTiers\<rparr>)) (Callbacks pr)))"

text \<open>The orders in which the loops of a flush run: over the pending policies, over the dirty endpoints,
  over the computed data of an endpoint, and over the tiers in each policy update.\<close>

record flush_orders =
  fo_pending :: "PolicyKey set \<Rightarrow> PolicyKey list"
  fo_dirty :: "EndpointKey set \<Rightarrow> EndpointKey list"
  fo_data :: "EndpointKey \<Rightarrow> string set \<Rightarrow> string list"
  fo_tiers :: "PolicyKey \<Rightarrow> string range_order"

definition resolve_pending ::
  "(tierInfoKey, 'tt) btree \<Rightarrow> (PolKV, 'pt) btree \<Rightarrow> (PolicyKey \<Rightarrow> string range_order) \<Rightarrow> PolicyKey
   \<Rightarrow> ('tt, 'pt, 'ep, 'cd, 'cb) PolicyResolver \<Rightarrow> ('tt, 'pt, 'ep, 'cd, 'cb) PolicyResolver run" where
  "resolve_pending tb pb rng polKey pr =
     (case allPolicies pr polKey of
        None \<Rightarrow> Return pr
      | Some policy \<Rightarrow>
          run_bind (UpdatePolicy tb pb (rng polKey) polKey (Some policy) (policySorter pr)) (\<lambda>(_, poc).
            Return (pr\<lparr>policySorter := poc, pendingPolicyUpdates := pendingPolicyUpdates pr - {polKey}\<rparr>)))"

definition resolver_Flush ::
  "(tierInfoKey, 'tt) btree \<Rightarrow> (PolKV, 'pt) btree \<Rightarrow> flush_orders \<Rightarrow> ('tt, 'pt, 'ep, 'cd, 'cb) PolicyResolver
   \<Rightarrow> (('tt, 'pt, 'ep, 'cd, 'cb) PolicyResolver \<times> ('cb \<times> ('pt, 'ep, 'cd) endpoint_update) list) run" where
  "resolver_Flush tb pb fo pr =
     (if \<not> InitialSyncCompleted pr then Return (pr, [])
      else run_bind (run_fold (resolve_pending tb pb (fo_tiers fo)) (fo_pending fo (pendingPolicyUpdates pr)) pr) (\<lambda>pr.
        run_bind (Sorted tb pb (policySorter pr)) (\<lambda>(ts, poc).
          let pr = pr\<lparr>sortedTierData := ts, policySorter := poc\<rparr>;
              msgs = concat (map (\<lambda>e. sendEndpointUpdate (fo_data fo e) pr e) (fo_dirty fo (dirtyEndpoints pr)))
          in Return (pr\<lparr>dirtyEndpoints := {}\<rparr>, msgs))))"

end
