(* ===== verification/Resolver_Refinement.thy ===== *)
theory Resolver_Refinement
  imports Policy_Resolver
begin

text \<open>
  What the policy resolver promises: after a flush, what every callback was last told of an endpoint is
  what the current policies, tiers and matches give for it, whether or not this flush sent it again.
\<close>

section \<open>Calls and what the callbacks were told\<close>

datatype ('ep, 'cd) resolver_call =
    CallUpdate "string range_order" "'ep update"
  | CallMatch "string range_order" PolicyKey EndpointKey
  | CallMatchStopped "string range_order" PolicyKey EndpointKey
  | CallComputedData EndpointKey string "'cd option"
  | CallPeerData EndpointKey "EndpointBGPPeer option"
  | CallStatus bool
  | CallFlush flush_orders

type_synonym ('pt, 'ep, 'cd, 'cb) told = "'cb \<Rightarrow> EndpointKey \<rightharpoonup> ('pt, 'ep, 'cd) endpoint_update"

definition tell ::
  "'cb \<times> ('pt, 'ep, 'cd) endpoint_update \<Rightarrow> ('pt, 'ep, 'cd, 'cb) told \<Rightarrow> ('pt, 'ep, 'cd, 'cb) told" where
  "tell m recv = recv(fst m := (recv (fst m))(eu_key (snd m) := (if eu_endpoint (snd m) = None then None else Some (snd m))))"

fun make_call ::
  "(tierInfoKey, 'tt) btree \<Rightarrow> (PolKV, 'pt) btree \<Rightarrow> ('ep, 'cd) resolver_call
   \<Rightarrow> ('tt, 'pt, 'ep, 'cd, 'cb) PolicyResolver \<times> ('pt, 'ep, 'cd, 'cb) told
   \<Rightarrow> (('tt, 'pt, 'ep, 'cd, 'cb) PolicyResolver \<times> ('pt, 'ep, 'cd, 'cb) told) run" where
  "make_call tb pb (CallUpdate rng u) (pr, recv) =
     run_bind (resolver_OnUpdate tb pb rng u pr) (\<lambda>pr. Return (pr, recv))"
| "make_call tb pb (CallMatch rng k e) (pr, recv) = Return (OnPolicyMatch rng k e pr, recv)"
| "make_call tb pb (CallMatchStopped rng k e) (pr, recv) =
     run_bind (OnPolicyMatchStopped tb pb rng k e pr) (\<lambda>pr. Return (pr, recv))"
| "make_call tb pb (CallComputedData e kind d) (pr, recv) = Return (OnEndpointComputedDataUpdate e kind d pr, recv)"
| "make_call tb pb (CallPeerData e p) (pr, recv) = Return (OnEndpointBGPPeerDataUpdate e p pr, recv)"
| "make_call tb pb (CallStatus s) (pr, recv) = Return (OnDatamodelStatus s pr, recv)"
| "make_call tb pb (CallFlush fo) (pr, recv) =
     run_bind (resolver_Flush tb pb fo pr) (\<lambda>(pr, msgs). Return (pr, fold tell msgs recv))"

text \<open>
  What a call has to meet: loop orders that visit everything once, policy keys without slashes, and no end
  of the last match of a policy that is still waiting for its first flush. The code does not handle that
  last case; see the property on it below.
\<close>

definition flush_ok :: "flush_orders \<Rightarrow> bool" where
  "flush_ok fo \<longleftrightarrow> map_order (fo_pending fo) \<and> map_order (fo_dirty fo) \<and> (\<forall>e. map_order (fo_data fo e))
     \<and> (\<forall>k. range_orders (fo_tiers fo k))"

fun resolver_call_ok :: "('ep, 'cd) resolver_call \<Rightarrow> ('tt, 'pt, 'ep, 'cd, 'cb) PolicyResolver \<Rightarrow> bool" where
  "resolver_call_ok (CallUpdate rng u) pr \<longleftrightarrow> range_orders rng \<and> update_ok u"
| "resolver_call_ok (CallMatch rng k e) pr \<longleftrightarrow> range_orders rng \<and> key_ok k"
| "resolver_call_ok (CallMatchStopped rng k e) pr \<longleftrightarrow> range_orders rng \<and> key_ok k
     \<and> (k \<in> pendingPolicyUpdates pr \<longrightarrow> \<not> md_values k (policyIDToEndpointIDs pr) \<subseteq> {e})"
| "resolver_call_ok (CallFlush fo) pr \<longleftrightarrow> flush_ok fo"
| "resolver_call_ok c pr \<longleftrightarrow> True"

fun calls_ok ::
  "(tierInfoKey, 'tt) btree \<Rightarrow> (PolKV, 'pt) btree \<Rightarrow> ('ep, 'cd) resolver_call list
   \<Rightarrow> ('tt, 'pt, 'ep, 'cd, 'cb) PolicyResolver \<times> ('pt, 'ep, 'cd, 'cb) told \<Rightarrow> bool" where
  "calls_ok tb pb [] st \<longleftrightarrow> True"
| "calls_ok tb pb (c # cs) st \<longleftrightarrow> resolver_call_ok c (fst st)
     \<and> (case make_call tb pb c st of Return st' \<Rightarrow> calls_ok tb pb cs st' | _ \<Rightarrow> True)"

fun call_tiers :: "('ep, 'cd) resolver_call \<Rightarrow> (string \<rightharpoonup> Tier) \<Rightarrow> string \<rightharpoonup> Tier" where
  "call_tiers (CallUpdate rng (TierUpdate n v)) T = T(n := v)"
| "call_tiers c T = T"

text \<open>The update that is right for an endpoint, given the tiers in order.\<close>

definition current_update ::
  "('tt, 'pt, 'ep, 'cd, 'cb) PolicyResolver \<Rightarrow> 'pt TierInfo list \<Rightarrow> EndpointKey
   \<Rightarrow> ('pt, 'ep, 'cd) endpoint_update option \<Rightarrow> bool" where
  "current_update pr ts e u \<longleftrightarrow>
     (case endpoints pr e of
        None \<Rightarrow> u = None
      | Some ep \<Rightarrow> (\<exists>order. map_order order \<and> u = Some \<lparr>eu_key = e, eu_endpoint = Some ep,
          eu_data = computed_data order pr e, eu_peer = peer_data pr e,
          eu_tiers = applicable_tiers (md_values e (endpointIDToPolicyIDs pr)) ts\<rparr>))"

definition same_view :: "('tt, 'pt, 'ep, 'cd, 'cb) PolicyResolver \<Rightarrow> ('tt, 'pt, 'ep, 'cd, 'cb) PolicyResolver \<Rightarrow> EndpointKey \<Rightarrow> bool" where
  "same_view pr pr' e \<longleftrightarrow> endpoints pr' e = endpoints pr e
     \<and> md_values e (endpointIDToPolicyIDs pr') = md_values e (endpointIDToPolicyIDs pr)
     \<and> endpointComputedData pr' e = endpointComputedData pr e \<and> endpointBGPPeerData pr' e = endpointBGPPeerData pr e"

lemma current_update_cong:
  assumes "same_view pr pr' e"
    and "applicable_tiers (md_values e (endpointIDToPolicyIDs pr)) ts' = applicable_tiers (md_values e (endpointIDToPolicyIDs pr)) ts"
  shows "current_update pr' ts' e u \<longleftrightarrow> current_update pr ts e u"
  using assms by (simp add: current_update_def same_view_def computed_data_def peer_data_def cong: option.case_cong)

section \<open>Endpoints that a change does not concern\<close>

lemma filtered_tier_cong:
  "ti_Name t = ti_Name t' \<Longrightarrow> ti_Order t = ti_Order t' \<Longrightarrow> ti_DefaultAction t = ti_DefaultAction t'
   \<Longrightarrow> filter (\<lambda>p. kv_Key p \<in> M) (ti_OrderedPolicies t) = filter (\<lambda>p. kv_Key p \<in> M) (ti_OrderedPolicies t')
   \<Longrightarrow> filtered_tier M t = filtered_tier M t'"
  by (simp add: filtered_tier_def)

definition key_of_name :: "(string \<rightharpoonup> Tier) \<Rightarrow> string \<Rightarrow> tierInfoKey" where
  "key_of_name T n = \<lparr>tk_Name = n, tk_Valid = (T n \<noteq> None), tk_Order = (case T n of None \<Rightarrow> None | Some t \<Rightarrow> tier_Order t)\<rparr>"

lemma tier_attrs_key: "tier_attrs T ti \<Longrightarrow> tier_key ti = key_of_name T (ti_Name ti)"
  by (auto simp: tier_attrs_def tier_key_def key_of_name_def split: option.splits)

definition matching :: "PolicyKey set \<Rightarrow> 'pt TierInfo \<Rightarrow> bool" where
  "matching M tier \<longleftrightarrow> list_ex (\<lambda>p. kv_Key p \<in> M) (ti_OrderedPolicies tier)"

lemma some_kv: "(\<exists>p \<in> pol_kvs X. kv_Key p \<in> M) \<longleftrightarrow> (\<exists>k \<in> M. X k \<noteq> None)"
  by (force simp: pol_kvs_def)

lemma matching_keys:
  assumes "sorted_tiers P T ts"
  shows "set (map tier_key (filter (matching M) ts)) = key_of_name T ` {n. \<exists>k \<in> M. tier_pols P n k \<noteq> None}"
proof -
  have ti: "tier_key ti = key_of_name T (ti_Name ti)" "matching M ti \<longleftrightarrow> (\<exists>k \<in> M. tier_pols P (ti_Name ti) k \<noteq> None)"
    if "ti \<in> set ts" for ti
    using assms that by (auto simp: sorted_tiers_def list_all_iff matching_def list_ex_iff tier_attrs_key some_kv)
  have "\<exists>ti \<in> set ts. ti_Name ti = n" if "tier_pols P n k \<noteq> None" for n k
  proof -
    have "dom (tier_pols P n) \<noteq> {}" using that by blast
    then have "n \<in> ti_Name ` set ts" using assms by (simp add: sorted_tiers_def in_tier_names)
    then show ?thesis by blast
  qed
  note ex = this
  have "n \<in> ti_Name ` set (filter (matching M) ts) \<longleftrightarrow> (\<exists>k \<in> M. tier_pols P n k \<noteq> None)" for n
  proof
    assume "n \<in> ti_Name ` set (filter (matching M) ts)"
    then obtain t where "t \<in> set ts" "matching M t" "n = ti_Name t" by auto
    then show "\<exists>k \<in> M. tier_pols P n k \<noteq> None" using ti(2) by blast
  next
    assume k: "\<exists>k \<in> M. tier_pols P n k \<noteq> None"
    then obtain t where t: "t \<in> set ts" "ti_Name t = n" using ex by blast
    then have "matching M t" using ti(2) [OF t(1)] k by simp
    then show "n \<in> ti_Name ` set (filter (matching M) ts)" using t by (intro image_eqI [of _ _ t]) simp_all
  qed
  then have names: "ti_Name ` set (filter (matching M) ts) = {n. \<exists>k \<in> M. tier_pols P n k \<noteq> None}" by blast
  have "set (map tier_key (filter (matching M) ts)) = (\<lambda>t. key_of_name T (ti_Name t)) ` set (filter (matching M) ts)"
    unfolding set_map using ti(1) by (intro image_cong) simp_all
  also have "\<dots> = key_of_name T ` {n. \<exists>k \<in> M. tier_pols P n k \<noteq> None}"
    unfolding names [symmetric] image_image ..
  finally show ?thesis .
qed

lemma matching_policies:
  assumes "sorted_tiers P T ts" and "sorted_tiers P' T ts'" and "\<forall>k \<in> dom P \<union> dom P'. key_ok k"
    and "\<forall>k \<in> M. P k = P' k" and "ti \<in> set ts" and "ti' \<in> set ts'" and "ti_Name ti = ti_Name ti'"
  shows "filter (\<lambda>p. kv_Key p \<in> M) (ti_OrderedPolicies ti) = filter (\<lambda>p. kv_Key p \<in> M) (ti_OrderedPolicies ti')"
proof (rule pol_order.sorted_unique)
  have o: "sorted_wrt PolKVLess (ti_OrderedPolicies ti)" "set (ti_OrderedPolicies ti) = pol_kvs (tier_pols P (ti_Name ti))"
    "sorted_wrt PolKVLess (ti_OrderedPolicies ti')" "set (ti_OrderedPolicies ti') = pol_kvs (tier_pols P' (ti_Name ti'))"
    using assms(1,2,5,6) by (auto simp: sorted_tiers_def list_all_iff)
  show "sorted_wrt PolKVLess (filter (\<lambda>p. kv_Key p \<in> M) (ti_OrderedPolicies ti))"
    "sorted_wrt PolKVLess (filter (\<lambda>p. kv_Key p \<in> M) (ti_OrderedPolicies ti'))"
    using o(1,3) by (simp_all add: sorted_wrt_filter)
  have "\<forall>k \<in> dom (tier_pols P (ti_Name ti)). key_ok k" using assms(3) tier_pols_dom by blast
  then show "list_all polkv_ok (filter (\<lambda>p. kv_Key p \<in> M) (ti_OrderedPolicies ti))"
    using pol_kvs_ok o(2) by (auto simp: list_all_iff)
  show "set (filter (\<lambda>p. kv_Key p \<in> M) (ti_OrderedPolicies ti)) = set (filter (\<lambda>p. kv_Key p \<in> M) (ti_OrderedPolicies ti'))"
    using o(2,4) assms(4,7) by (auto simp: pol_kvs_def tier_pols_def)
qed

context sorter_trees
begin

lemma applicable_stable:
  assumes rel: "sorter_rel poc P T" and rel': "sorter_rel poc' P' T"
    and same: "\<forall>k \<in> M. P k = P' k" and action: "keeps_action poc poc'"
  shows "applicable_tiers M (tier_seq poc) = applicable_tiers M (tier_seq poc')"
proof -
  let ?L = "filter (matching M) (tier_seq poc)" and ?L' = "filter (matching M) (tier_seq poc')"
  note st = tier_seq_sorted [OF rel] and st' = tier_seq_sorted [OF rel']
  have keys: "map tier_key ?L = map tier_key ?L'"
  proof (rule tier_order.sorted_unique)
    show "sorted_wrt TierLess (map tier_key ?L)" "sorted_wrt TierLess (map tier_key ?L')"
      using st st' by (simp_all add: sorted_tiers_def sorted_wrt_map sorted_wrt_filter)
    have "{n. \<exists>k \<in> M. tier_pols P n k \<noteq> None} = {n. \<exists>k \<in> M. tier_pols P' n k \<noteq> None}"
      using same by (auto simp: tier_pols_def)
    then show "set (map tier_key ?L) = set (map tier_key ?L')"
      unfolding matching_keys [OF st] matching_keys [OF st'] by simp
  qed (simp add: list_all_iff)
  have eq: "filtered_tier M t = filtered_tier M t'"
    if t: "t \<in> set ?L" "t' \<in> set ?L'" "tier_key t = tier_key t'" for t t'
  proof (rule filtered_tier_cong)
    show name: "ti_Name t = ti_Name t'" and "ti_Order t = ti_Order t'" using t(3) by (auto simp: tier_key_def)
    obtain n ti0 n' ti0' where "t = order_tier ti0" "tiers poc n = Some ti0" "t' = order_tier ti0'" "tiers poc' n' = Some ti0'"
      using t(1,2) by (auto simp: tier_seq_keys(2) [OF rel] tier_seq_keys(2) [OF rel'])
    then show "ti_DefaultAction t = ti_DefaultAction t'"
      using action name relD(5) [OF rel] relD(5) [OF rel'] by (auto simp: keeps_action_def order_tier_def split: option.splits)
    have "\<forall>k \<in> dom P \<union> dom P'. key_ok k" using relD(1) [OF rel] relD(1) [OF rel'] by blast
    then show "filter (\<lambda>p. kv_Key p \<in> M) (ti_OrderedPolicies t) = filter (\<lambda>p. kv_Key p \<in> M) (ti_OrderedPolicies t')"
      using matching_policies [OF st st' _ same _ _ name] t(1,2) by simp
  qed
  have "map (filtered_tier M) ?L = map (filtered_tier M) ?L'"
    by (rule map_eq_transfer [OF keys], rule eq)
  then show ?thesis unfolding applicable_tiers_def matching_def .
qed

lemma applicable_none: "applicable_tiers {} ts = []"
  by (simp add: applicable_tiers_def list_ex_iff)

end

section \<open>The invariant\<close>

text \<open>
  For one policy: \<open>E\<close> are the endpoints it matches, \<open>a\<close> its metadata, \<open>pend\<close> whether it waits for a flush,
  \<open>p\<close> what the sorter has for it, and \<open>D\<close> the dirty endpoints.
\<close>

definition policy_inv ::
  "PolicyKey \<Rightarrow> EndpointKey set \<Rightarrow> policyMetadata option \<Rightarrow> bool \<Rightarrow> policyMetadata option \<Rightarrow> EndpointKey set \<Rightarrow> bool" where
  "policy_inv k E a pend p D \<longleftrightarrow>
     (p \<noteq> None \<longrightarrow> E \<noteq> {} \<and> a = p) \<and> (E \<noteq> {} \<longrightarrow> \<not> pend \<longrightarrow> a = p) \<and> (pend \<longrightarrow> E \<noteq> {})
     \<and> (pend \<longrightarrow> a \<noteq> None \<longrightarrow> p = None \<longrightarrow> E \<subseteq> D) \<and> (E \<noteq> {} \<longrightarrow> key_ok k)"

lemma policy_inv_mono: "policy_inv k E a pend p D \<Longrightarrow> D \<subseteq> D' \<Longrightarrow> policy_inv k E a pend p D'"
  by (auto simp: policy_inv_def)

abbreviation (input) matched :: "('tt, 'pt, 'ep, 'cd, 'cb) PolicyResolver \<Rightarrow> PolicyKey \<Rightarrow> EndpointKey set" where
  "matched pr k \<equiv> md_values k (policyIDToEndpointIDs pr)"

abbreviation (input) policies_of :: "('tt, 'pt, 'ep, 'cd, 'cb) PolicyResolver \<Rightarrow> EndpointKey \<Rightarrow> PolicyKey set" where
  "policies_of pr e \<equiv> md_values e (endpointIDToPolicyIDs pr)"

definition tables_inv :: "('tt, 'pt, 'ep, 'cd, 'cb) PolicyResolver \<Rightarrow> bool" where
  "tables_inv pr \<longleftrightarrow> md_inv (policyIDToEndpointIDs pr) \<and> md_inv (endpointIDToPolicyIDs pr)
     \<and> (\<forall>k e. e \<in> matched pr k \<longleftrightarrow> k \<in> policies_of pr e)
     \<and> finite (dirtyEndpoints pr) \<and> finite (pendingPolicyUpdates pr)"

definition policies_inv :: "('tt, 'pt, 'ep, 'cd, 'cb) PolicyResolver \<Rightarrow> (PolicyKey \<rightharpoonup> policyMetadata) \<Rightarrow> bool" where
  "policies_inv pr P \<longleftrightarrow>
     (\<forall>k. policy_inv k (matched pr k) (allPolicies pr k) (k \<in> pendingPolicyUpdates pr) (P k) (dirtyEndpoints pr))"

context sorter_trees
begin

definition told_inv ::
  "('tt, 'pt, 'ep, 'cd, 'cb) PolicyResolver \<Rightarrow> ('pt, 'ep, 'cd, 'cb) told \<Rightarrow> bool" where
  "told_inv pr recv \<longleftrightarrow> (\<forall>cb e. cb \<in> set (Callbacks pr) \<longrightarrow> e \<notin> dirtyEndpoints pr
     \<longrightarrow> current_update pr (tier_seq (policySorter pr)) e (recv cb e))"

definition resolver_inv ::
  "('tt, 'pt, 'ep, 'cd, 'cb) PolicyResolver \<Rightarrow> ('pt, 'ep, 'cd, 'cb) told \<Rightarrow> (PolicyKey \<rightharpoonup> policyMetadata)
   \<Rightarrow> (string \<rightharpoonup> Tier) \<Rightarrow> bool" where
  "resolver_inv pr recv P T \<longleftrightarrow> sorter_rel (policySorter pr) P T \<and> tables_inv pr \<and> policies_inv pr P \<and> told_inv pr recv"

lemma told_inv_step:
  assumes "told_inv pr recv" and "Callbacks pr' = Callbacks pr" and "dirtyEndpoints pr \<subseteq> dirtyEndpoints pr'"
    and "\<And>e. e \<notin> dirtyEndpoints pr' \<Longrightarrow> same_view pr pr' e
      \<and> applicable_tiers (policies_of pr e) (tier_seq (policySorter pr')) = applicable_tiers (policies_of pr e) (tier_seq (policySorter pr))"
  shows "told_inv pr' recv"
  unfolding told_inv_def
proof (intro allI impI)
  fix cb e
  assume cb: "cb \<in> set (Callbacks pr')" and e: "e \<notin> dirtyEndpoints pr'"
  have "current_update pr (tier_seq (policySorter pr)) e (recv cb e)"
    using assms(1-3) cb e by (auto simp: told_inv_def)
  then show "current_update pr' (tier_seq (policySorter pr')) e (recv cb e)"
    using current_update_cong [of pr pr' e] assms(4) [OF e] by simp
qed

text \<open>A call that only marks endpoints dirty and changes what belongs to them.\<close>

lemma resolver_inv_dirty:
  assumes inv: "resolver_inv pr recv P T" and "policySorter pr' = policySorter pr" "Callbacks pr' = Callbacks pr"
    and "policyIDToEndpointIDs pr' = policyIDToEndpointIDs pr" "endpointIDToPolicyIDs pr' = endpointIDToPolicyIDs pr"
    and "allPolicies pr' = allPolicies pr" "pendingPolicyUpdates pr' = pendingPolicyUpdates pr"
    and dirty: "dirtyEndpoints pr \<subseteq> dirtyEndpoints pr'" "finite (dirtyEndpoints pr' - dirtyEndpoints pr)"
    and view: "\<And>e. e \<notin> dirtyEndpoints pr' \<Longrightarrow> same_view pr pr' e"
  shows "resolver_inv pr' recv P T"
proof -
  have "told_inv pr recv" using inv by (simp add: resolver_inv_def)
  then have "told_inv pr' recv"
    by (rule told_inv_step) (use assms in auto)
  moreover have "policies_inv pr' P"
    using inv policy_inv_mono [OF _ dirty(1)] assms(4-7) by (simp add: resolver_inv_def policies_inv_def)
  moreover have "tables_inv pr'" using inv dirty assms(4-7) by (simp add: resolver_inv_def tables_inv_def)
  ultimately show ?thesis using inv assms(2) by (simp add: resolver_inv_def)
qed

lemma on_endpoint_inv: "resolver_inv pr recv P T \<Longrightarrow> resolver_inv (on_endpoint e v pr) recv P T"
  by (erule resolver_inv_dirty)
     (auto simp: on_endpoint_def mark_dirty_def same_view_def insert_Diff_if Let_def split: option.splits)

lemma computed_data_inv: "resolver_inv pr recv P T \<Longrightarrow> resolver_inv (OnEndpointComputedDataUpdate e kind d pr) recv P T"
  by (erule resolver_inv_dirty)
     (auto simp: OnEndpointComputedDataUpdate_def mark_dirty_def same_view_def insert_Diff_if Let_def split: option.splits)

lemma peer_data_inv: "resolver_inv pr recv P T \<Longrightarrow> resolver_inv (OnEndpointBGPPeerDataUpdate e p pr) recv P T"
  by (erule resolver_inv_dirty)
     (auto simp: OnEndpointBGPPeerDataUpdate_def mark_dirty_def same_view_def insert_Diff_if)

lemma status_inv: "resolver_inv pr recv P T \<Longrightarrow> resolver_inv (OnDatamodelStatus s pr) recv P T"
  by (erule resolver_inv_dirty) (auto simp: OnDatamodelStatus_def same_view_def insert_Diff_if)

end

end
