(* ===== verification/Resolver_Steps.thy ===== *)
theory Resolver_Steps
  imports Resolver_Refinement
begin

text \<open>Every call on the policy resolver keeps its invariant, and a flush brings every callback up to date.\<close>

section \<open>Updates of policies, tiers and matches\<close>

lemma policy_inv_unmatched: "policy_inv k {} a False None D"
  by (simp add: policy_inv_def)

lemma policy_inv_sorted: "E \<noteq> {} \<Longrightarrow> key_ok k \<Longrightarrow> (pend \<longrightarrow> a \<noteq> None) \<Longrightarrow> policy_inv k E a pend a D"
  by (auto simp: policy_inv_def)

lemma policy_inv_match:
  "policy_inv k E a pend p D \<Longrightarrow> key_ok k \<Longrightarrow> policy_inv k (insert e E) a (pend \<or> p = None) p (insert e D)"
  by (cases p; cases pend; cases "E = {}") (auto simp: policy_inv_def)

lemma policy_inv_stop:
  "policy_inv k E a pend p D \<Longrightarrow> (pend \<longrightarrow> \<not> E \<subseteq> {e})
   \<Longrightarrow> policy_inv k (E - {e}) a pend (if E \<subseteq> {e} then None else p) (insert e D)"
  by (cases p; cases pend; cases "E \<subseteq> {e}") (auto simp: policy_inv_def)

lemma policy_inv_resolved:
  "policy_inv k E (Some m) pend p D \<Longrightarrow> E \<noteq> {} \<Longrightarrow> policy_inv k E (Some m) False (Some m) D"
  by (simp add: policy_inv_def)

lemma policy_inv_flushed: "policy_inv k E a pend p D \<Longrightarrow> (pend \<longrightarrow> a = None) \<Longrightarrow> policy_inv k E a pend p {}"
  by (auto simp: policy_inv_def)

lemma sorter_OnUpdate_policy:
  "sorter_OnUpdate tb pb rng (PolicyUpdate k v) poc = UpdatePolicy tb pb rng k (map_option ExtractPolicyMetadata v) poc"
  by (cases v) (simp_all add: sorter_OnUpdate_def)

text \<open>The resolver after a policy update has changed the map of all policies.\<close>

definition with_policy :: "PolicyKey \<Rightarrow> Policy option \<Rightarrow> ('tt, 'pt, 'ep, 'cd, 'cb) PolicyResolver \<Rightarrow> ('tt, 'pt, 'ep, 'cd, 'cb) PolicyResolver" where
  "with_policy k v pr = pr\<lparr>allPolicies := (allPolicies pr)(k := map_option ExtractPolicyMetadata v),
     pendingPolicyUpdates := (if v = None then pendingPolicyUpdates pr - {k} else pendingPolicyUpdates pr)\<rparr>"

lemma OnUpdate_policy:
  "resolver_OnUpdate tb pb rng (PolicyUpdate k v) pr =
     (if \<not> md_ContainsKey k (policyIDToEndpointIDs pr) then Return (with_policy k v pr)
      else run_bind (UpdatePolicy tb pb rng k (map_option ExtractPolicyMetadata v) (policySorter pr)) (\<lambda>(d, poc).
             Return (if d then mark_dirty (matched pr k) ((with_policy k v pr)\<lparr>policySorter := poc\<rparr>)
                     else (with_policy k v pr)\<lparr>policySorter := poc\<rparr>)))"
  by (cases "UpdatePolicy tb pb rng k (map_option ExtractPolicyMetadata v) (policySorter pr)"; cases v)
     (auto simp: resolver_OnUpdate_def with_policy_def sorter_OnUpdate_policy Let_def markEndpointsMatchingPolicyDirty_def)

text \<open>The policies that match something.\<close>

definition matched_policies :: "('tt, 'pt, 'ep, 'cd, 'cb) PolicyResolver \<Rightarrow> PolicyKey \<rightharpoonup> policyMetadata" where
  "matched_policies pr k = (if matched pr k = {} then None else allPolicies pr k)"

text \<open>What a flush leaves as it is.\<close>

definition same_tables ::
  "('tt, 'pt, 'ep, 'cd, 'cb) PolicyResolver \<Rightarrow> ('tt, 'pt, 'ep, 'cd, 'cb) PolicyResolver \<Rightarrow> bool" where
  "same_tables pr pr' \<longleftrightarrow> policyIDToEndpointIDs pr' = policyIDToEndpointIDs pr
     \<and> endpointIDToPolicyIDs pr' = endpointIDToPolicyIDs pr \<and> allPolicies pr' = allPolicies pr
     \<and> endpoints pr' = endpoints pr \<and> endpointComputedData pr' = endpointComputedData pr
     \<and> endpointBGPPeerData pr' = endpointBGPPeerData pr \<and> Callbacks pr' = Callbacks pr
     \<and> InitialSyncCompleted pr' = InitialSyncCompleted pr"

lemma same_tables_refl [simp]: "same_tables pr pr"
  by (simp add: same_tables_def)

lemma same_tables_trans: "same_tables pr pr' \<Longrightarrow> same_tables pr' pr'' \<Longrightarrow> same_tables pr pr''"
  by (simp add: same_tables_def)

lemma same_tables_view: "same_tables pr pr' \<Longrightarrow> same_view pr pr' e"
  by (simp add: same_tables_def same_view_def)

text \<open>The messages of a flush, as the callbacks see them.\<close>

definition seen_update :: "('pt, 'ep, 'cd) endpoint_update \<Rightarrow> ('pt, 'ep, 'cd) endpoint_update option" where
  "seen_update u = (if eu_endpoint u = None then None else Some u)"

lemma tell_all:
  "fold tell (map (\<lambda>cb. (cb, u)) cbs) recv cb e
   = (if cb \<in> set cbs \<and> e = eu_key u then seen_update u else recv cb e)"
  by (induction cbs arbitrary: recv) (auto simp: tell_def seen_update_def)

lemma sendEndpointUpdate_current:
  assumes "map_order order"
  obtains u where "sendEndpointUpdate order pr e = map (\<lambda>cb. (cb, u)) (Callbacks pr)" "eu_key u = e"
    "current_update pr (sortedTierData pr) e (seen_update u)"
proof (cases "endpoints pr e")
  case None
  then show thesis
    by (intro that [of "\<lparr>eu_key = e, eu_endpoint = None, eu_data = [], eu_peer = None, eu_tiers = []\<rparr>"])
       (simp_all add: sendEndpointUpdate_def current_update_def seen_update_def)
next
  case (Some ep)
  then show thesis using assms
    by (intro that [of "\<lparr>eu_key = e, eu_endpoint = Some ep, eu_data = computed_data order pr e,
          eu_peer = peer_data pr e, eu_tiers = applicable_tiers (policies_of pr e) (sortedTierData pr)\<rparr>"])
       (auto simp: sendEndpointUpdate_def current_update_def seen_update_def Let_def)
qed

lemma send_all_current:
  assumes "\<forall>e. map_order (order e)" and "cb \<in> set (Callbacks pr)"
  shows "e \<notin> set es \<Longrightarrow> fold tell (concat (map (\<lambda>e. sendEndpointUpdate (order e) pr e) es)) recv cb e = recv cb e"
    and "e \<in> set es \<Longrightarrow> current_update pr (sortedTierData pr) e
      (fold tell (concat (map (\<lambda>e. sendEndpointUpdate (order e) pr e) es)) recv cb e)"
proof (induction es rule: rev_induct)
  case (snoc x es)
  obtain u where u: "sendEndpointUpdate (order x) pr x = map (\<lambda>cb. (cb, u)) (Callbacks pr)" "eu_key u = x"
      "current_update pr (sortedTierData pr) x (seen_update u)"
    using sendEndpointUpdate_current [of "order x" pr x] assms(1) by blast
  {
    case 1
    then show ?case using snoc(1) u by (simp add: tell_all)
  next
    case 2
    then show ?case using snoc(2) u assms(2) by (auto simp: tell_all)
  }
qed simp_all

context sorter_trees
begin

lemma resolver_inv_parts:
  assumes "resolver_inv pr recv P T"
  shows "sorter_rel (policySorter pr) P T" "tables_inv pr" "policies_inv pr P" "told_inv pr recv"
    "policy_inv k (matched pr k) (allPolicies pr k) (k \<in> pendingPolicyUpdates pr) (P k) (dirtyEndpoints pr)"
    "md_inv (policyIDToEndpointIDs pr)" "md_inv (endpointIDToPolicyIDs pr)"
    "e \<in> matched pr k \<longleftrightarrow> k \<in> policies_of pr e"
  using assms by (auto simp: resolver_inv_def policies_inv_def tables_inv_def)

text \<open>A new state of the sorter does not concern an endpoint whose policies it leaves as they are.\<close>

lemma told_inv_sorter:
  assumes inv: "resolver_inv pr recv P T" and rel: "sorter_rel (policySorter pr') P' T"
    and action: "keeps_action (policySorter pr) (policySorter pr')"
    and "Callbacks pr' = Callbacks pr" "dirtyEndpoints pr \<subseteq> dirtyEndpoints pr'"
    and view: "\<And>e. e \<notin> dirtyEndpoints pr' \<Longrightarrow> same_view pr pr' e"
    and same: "\<And>e k. e \<notin> dirtyEndpoints pr' \<Longrightarrow> k \<in> policies_of pr e \<Longrightarrow> P k = P' k"
  shows "told_inv pr' recv"
proof (rule told_inv_step [OF resolver_inv_parts(4) [OF inv]])
  fix e
  assume e: "e \<notin> dirtyEndpoints pr'"
  have "\<forall>k \<in> policies_of pr e. P k = P' k" using same [OF e] by blast
  from applicable_stable [OF resolver_inv_parts(1) [OF inv] rel this action] view [OF e]
  show "same_view pr pr' e \<and> applicable_tiers (policies_of pr e) (tier_seq (policySorter pr'))
      = applicable_tiers (policies_of pr e) (tier_seq (policySorter pr))" by simp
qed (fact assms)+

lemma policy_update_inv:
  assumes inv: "resolver_inv pr recv P T" and k: "key_ok k" and rng: "range_orders rng"
  shows "\<exists>pr' P'. resolver_OnUpdate tb pb rng (PolicyUpdate k v) pr = Return pr' \<and> resolver_inv pr' recv P' T"
proof -
  define a where "a = map_option ExtractPolicyMetadata v"
  let ?pr1 = "with_policy k v pr"
  note parts = resolver_inv_parts [OF inv]
  have fields: "policySorter ?pr1 = policySorter pr" "policyIDToEndpointIDs ?pr1 = policyIDToEndpointIDs pr"
    "endpointIDToPolicyIDs ?pr1 = endpointIDToPolicyIDs pr" "Callbacks ?pr1 = Callbacks pr"
    "dirtyEndpoints ?pr1 = dirtyEndpoints pr" "allPolicies ?pr1 j = (if j = k then a else allPolicies pr j)"
    "j \<in> pendingPolicyUpdates ?pr1 \<longleftrightarrow> j \<in> pendingPolicyUpdates pr \<and> (j = k \<longrightarrow> v \<noteq> None)" for j
    by (simp_all add: with_policy_def a_def)
  have view: "same_view pr ?pr1 e" for e by (simp add: same_view_def with_policy_def)
  have tables: "tables_inv ?pr1" using parts(2) by (simp add: tables_inv_def fields) (simp add: with_policy_def)
  show ?thesis
  proof (cases "matched pr k = {}")
    case True
    then have k0: "P k = None" "k \<notin> pendingPolicyUpdates pr" using parts(5) [of k] by (auto simp: policy_inv_def)
    have "policies_inv ?pr1 P"
      unfolding policies_inv_def fields using parts(5) k0 True by (auto simp: policy_inv_unmatched)
    moreover have "told_inv ?pr1 recv"
      by (rule told_inv_sorter [OF inv]) (use parts(1) view in \<open>auto simp: fields\<close>)
    ultimately have "resolver_inv ?pr1 recv P T" using parts(1) tables by (simp add: resolver_inv_def fields)
    moreover have "resolver_OnUpdate tb pb rng (PolicyUpdate k v) pr = Return ?pr1"
      using True by (simp add: OnUpdate_policy md_ContainsKey_iff [OF parts(6)])
    ultimately show ?thesis by blast
  next
    case False
    obtain poc where poc: "UpdatePolicy tb pb rng k a (policySorter pr) = Return (P k \<noteq> a, poc)"
        "sorter_rel poc (P(k := a)) T" "keeps_action (policySorter pr) poc"
      using UpdatePolicy_rel [OF parts(1) k rng] by blast
    define pr2 where "pr2 = (if P k \<noteq> a then mark_dirty (matched pr k) (?pr1\<lparr>policySorter := poc\<rparr>) else ?pr1\<lparr>policySorter := poc\<rparr>)"
    have run: "resolver_OnUpdate tb pb rng (PolicyUpdate k v) pr = Return pr2"
      using False poc(1) by (simp add: OnUpdate_policy md_ContainsKey_iff [OF parts(6)] a_def pr2_def)
    have f2: "policySorter pr2 = poc" "policyIDToEndpointIDs pr2 = policyIDToEndpointIDs pr"
      "endpointIDToPolicyIDs pr2 = endpointIDToPolicyIDs pr" "Callbacks pr2 = Callbacks pr"
      "allPolicies pr2 = allPolicies ?pr1" "pendingPolicyUpdates pr2 = pendingPolicyUpdates ?pr1"
      "dirtyEndpoints pr2 = dirtyEndpoints pr \<union> (if P k \<noteq> a then matched pr k else {})"
      by (simp_all add: pr2_def mark_dirty_def fields)
    have view2: "same_view pr pr2 e" for e
      using view [of e] by (simp add: same_view_def pr2_def mark_dirty_def)
    have "told_inv pr2 recv"
    proof (rule told_inv_sorter [OF inv, where P' = "P(k := a)"])
      fix e j
      assume "e \<notin> dirtyEndpoints pr2" "j \<in> policies_of pr e"
      then show "P j = (P(k := a)) j" using parts(8) [of e j] by (auto simp: f2 split: if_splits)
    qed (use poc view2 in \<open>auto simp: f2\<close>)
    moreover have "policies_inv pr2 (P(k := a))"
      unfolding policies_inv_def
    proof
      fix j
      show "policy_inv j (matched pr2 j) (allPolicies pr2 j) (j \<in> pendingPolicyUpdates pr2) ((P(k := a)) j) (dirtyEndpoints pr2)"
      proof (cases "j = k")
        case True
        then show ?thesis using False k by (auto simp: f2 fields a_def intro!: policy_inv_sorted)
      next
        case neq: False
        then show ?thesis using policy_inv_mono [OF parts(5) [of j]] by (simp add: f2 fields)
      qed
    qed
    moreover have "tables_inv pr2"
      using tables md_finite(2) [OF parts(6), of k] by (simp add: tables_inv_def f2 fields)
    ultimately have "resolver_inv pr2 recv (P(k := a)) T" using poc(2) by (simp add: resolver_inv_def f2)
    then show ?thesis using run by blast
  qed
qed

lemma tier_update_inv:
  fixes pr :: "('tt, 'pt, 'ep, 'cd, 'cb) PolicyResolver"
  assumes inv: "resolver_inv pr recv P T" and rng: "range_orders rng"
  shows "\<exists>pr'. resolver_OnUpdate tb pb rng (TierUpdate n v) pr = Return pr' \<and> resolver_inv pr' recv P (T(n := v))"
proof -
  note parts = resolver_inv_parts [OF inv]
  obtain d poc where poc: "sorter_OnUpdate tb pb rng (TierUpdate n v :: 'ep update) (policySorter pr) = Return (d, poc)"
      "sorter_rel poc P (T(n := v))"
    using sorter_OnUpdate_rel [OF parts(1) _ rng, of "TierUpdate n v :: 'ep update"] by auto
  define pr' where "pr' = markAllEndpointsDirty (pr\<lparr>policySorter := poc\<rparr>)"
  have dirty: "dirtyEndpoints pr' = dirtyEndpoints pr \<union> dom (endpointIDToPolicyIDs pr)"
    by (simp add: pr'_def markAllEndpointsDirty_def mark_dirty_def)
  have none: "policies_of pr e = {}" if "e \<notin> dirtyEndpoints pr'" for e
    using that md_dom_iff [OF parts(7), of e] by (auto simp: dirty)
  have f: "policySorter pr' = poc" "policyIDToEndpointIDs pr' = policyIDToEndpointIDs pr"
    "endpointIDToPolicyIDs pr' = endpointIDToPolicyIDs pr" "Callbacks pr' = Callbacks pr"
    "allPolicies pr' = allPolicies pr" "pendingPolicyUpdates pr' = pendingPolicyUpdates pr" "same_view pr pr' e" for e
    by (simp_all add: pr'_def markAllEndpointsDirty_def mark_dirty_def same_view_def)
  have "told_inv pr' recv"
    by (rule told_inv_step [OF parts(4)]) (use none in \<open>simp_all add: f dirty applicable_none\<close>)
  moreover have "policies_inv pr' P"
    unfolding policies_inv_def f dirty using policy_inv_mono [OF parts(5)] by blast
  moreover have "tables_inv pr'"
    using parts(2) md_finite(1) [OF parts(7)] by (simp add: tables_inv_def f dirty)
  ultimately have "resolver_inv pr' recv P (T(n := v))"
    using poc(2) by (simp add: resolver_inv_def f)
  moreover have "resolver_OnUpdate tb pb rng (TierUpdate n v) pr = Return pr'"
    using poc(1) by (simp add: resolver_OnUpdate_def pr'_def)
  ultimately show ?thesis by blast
qed

lemma match_inv:
  assumes inv: "resolver_inv pr recv P T" and k: "key_ok k" and rng: "range_orders rng"
  shows "resolver_inv (OnPolicyMatch rng k e pr) recv P T"
proof -
  note parts = resolver_inv_parts [OF inv]
  let ?pr = "OnPolicyMatch rng k e pr"
  have "set (rng 0 (dom (tiers (policySorter pr)))) = dom (tiers (policySorter pr))"
    using rng sorter_rel_finite [OF parts(1)] by (simp add: range_orders_def)
  then have has: "HasPolicy k (rng 0 (dom (tiers (policySorter pr)))) (policySorter pr) \<longleftrightarrow> P k \<noteq> None"
    by (rule HasPolicy_iff [OF parts(1)])
  have f: "policySorter ?pr = policySorter pr" "policyIDToEndpointIDs ?pr = md_Put k e (policyIDToEndpointIDs pr)"
    "endpointIDToPolicyIDs ?pr = md_Put e k (endpointIDToPolicyIDs pr)" "Callbacks ?pr = Callbacks pr"
    "allPolicies ?pr = allPolicies pr" "dirtyEndpoints ?pr = dirtyEndpoints pr \<union> {e}"
    "pendingPolicyUpdates ?pr = (if P k = None then insert k (pendingPolicyUpdates pr) else pendingPolicyUpdates pr)"
    by (simp_all add: OnPolicyMatch_def mark_dirty_def Let_def has)
  have view: "same_view pr ?pr e'" if "e' \<noteq> e" for e'
    using that by (simp add: same_view_def f) (simp add: OnPolicyMatch_def mark_dirty_def Let_def)
  have "told_inv ?pr recv"
  proof (rule told_inv_step [OF parts(4)])
    fix e'
    assume "e' \<notin> dirtyEndpoints ?pr"
    then have "e' \<noteq> e" by (simp add: f)
    then show "same_view pr ?pr e' \<and> applicable_tiers (policies_of pr e') (tier_seq (policySorter ?pr))
        = applicable_tiers (policies_of pr e') (tier_seq (policySorter pr))" using view by (simp add: f(1))
  qed (simp_all add: f subset_insertI)
  moreover have "policies_inv ?pr P"
    unfolding policies_inv_def
  proof
    fix j
    show "policy_inv j (matched ?pr j) (allPolicies ?pr j) (j \<in> pendingPolicyUpdates ?pr) (P j) (dirtyEndpoints ?pr)"
    proof (cases "j = k")
      case True
      have "(k \<in> pendingPolicyUpdates ?pr) = (k \<in> pendingPolicyUpdates pr \<or> P k = None)" by (auto simp: f)
      then show ?thesis using policy_inv_match [OF parts(5) [of k] k] True by (simp add: f)
    next
      case False
      then show ?thesis using policy_inv_mono [OF parts(5) [of j] subset_insertI] by (simp add: f)
    qed
  qed
  moreover have "tables_inv ?pr"
    using parts(2) by (auto simp: tables_inv_def f)
  ultimately show ?thesis using parts(1) by (simp add: resolver_inv_def f)
qed

lemma stop_inv:
  assumes inv: "resolver_inv pr recv P T" and k: "key_ok k" and rng: "range_orders rng"
    and guard: "k \<in> pendingPolicyUpdates pr \<longrightarrow> \<not> matched pr k \<subseteq> {e}"
  shows "\<exists>pr' P'. OnPolicyMatchStopped tb pb rng k e pr = Return pr' \<and> resolver_inv pr' recv P' T"
proof -
  note parts = resolver_inv_parts [OF inv]
  define P' where "P' = (if matched pr k \<subseteq> {e} then P(k := None) else P)"
  define pr1 where "pr1 = pr\<lparr>policyIDToEndpointIDs := md_Discard k e (policyIDToEndpointIDs pr),
      endpointIDToPolicyIDs := md_Discard e k (endpointIDToPolicyIDs pr)\<rparr>"
  have contains: "md_ContainsKey k (policyIDToEndpointIDs pr1) \<longleftrightarrow> \<not> matched pr k \<subseteq> {e}"
    using md_ContainsKey_iff [of "md_Discard k e (policyIDToEndpointIDs pr)" k] parts(6) by (auto simp: pr1_def)
  obtain poc where poc: "UpdatePolicy tb pb rng k None (policySorter pr) = Return (P k \<noteq> None, poc)"
      "sorter_rel poc (P(k := None)) T" "keeps_action (policySorter pr) poc"
    using UpdatePolicy_rel [OF parts(1) k rng] by blast
  define poc' where "poc' = (if matched pr k \<subseteq> {e} then poc else policySorter pr)"
  define pr' where "pr' = mark_dirty {e} (pr1\<lparr>policySorter := poc'\<rparr>)"
  have run: "OnPolicyMatchStopped tb pb rng k e pr = Return pr'"
    using poc(1) contains
    by (simp add: OnPolicyMatchStopped_def Let_def pr1_def [symmetric] pr'_def poc'_def) (simp add: pr1_def)
  have rel: "sorter_rel poc' P' T" "keeps_action (policySorter pr) poc'"
    using poc(2,3) parts(1) by (simp_all add: poc'_def P'_def)
  have f: "policySorter pr' = poc'" "policyIDToEndpointIDs pr' = md_Discard k e (policyIDToEndpointIDs pr)"
    "endpointIDToPolicyIDs pr' = md_Discard e k (endpointIDToPolicyIDs pr)" "Callbacks pr' = Callbacks pr"
    "allPolicies pr' = allPolicies pr" "dirtyEndpoints pr' = dirtyEndpoints pr \<union> {e}"
    "pendingPolicyUpdates pr' = pendingPolicyUpdates pr"
    by (simp_all add: pr'_def pr1_def mark_dirty_def)
  have view: "same_view pr pr' e'" if "e' \<noteq> e" for e'
    using that by (simp add: same_view_def f) (simp add: pr'_def pr1_def mark_dirty_def)
  have "told_inv pr' recv"
  proof (rule told_inv_sorter [OF inv, where P' = P'])
    fix e' j
    assume "e' \<notin> dirtyEndpoints pr'" "j \<in> policies_of pr e'"
    then show "P j = P' j" using parts(8) [of e' j] by (auto simp: P'_def f)
  qed (use rel view in \<open>simp_all add: f subset_insertI\<close>)
  moreover have "policies_inv pr' P'"
    unfolding policies_inv_def
  proof
    fix j
    show "policy_inv j (matched pr' j) (allPolicies pr' j) (j \<in> pendingPolicyUpdates pr') (P' j) (dirtyEndpoints pr')"
    proof (cases "j = k")
      case True
      have "P' k = (if matched pr k \<subseteq> {e} then None else P k)" by (simp add: P'_def)
      then show ?thesis using policy_inv_stop [OF parts(5) [of k] guard] True by (simp add: f)
    next
      case False
      then have "P' j = P j" by (simp add: P'_def)
      then show ?thesis using False policy_inv_mono [OF parts(5) [of j] subset_insertI] by (simp add: f)
    qed
  qed
  moreover have "tables_inv pr'"
    using parts(2) by (auto simp: tables_inv_def f)
  ultimately have "resolver_inv pr' recv P' T" using rel(1) by (simp add: resolver_inv_def f)
  then show ?thesis using run by blast
qed

section \<open>Flush\<close>

lemma resolve_pending_inv:
  assumes inv: "resolver_inv pr recv P T" and k: "k \<in> pendingPolicyUpdates pr" and rng: "\<forall>k. range_orders (rng k)"
  shows "\<exists>pr' P'. resolve_pending tb pb rng k pr = Return pr' \<and> resolver_inv pr' recv P' T
    \<and> pendingPolicyUpdates pr' = (if allPolicies pr k = None then pendingPolicyUpdates pr else pendingPolicyUpdates pr - {k})
    \<and> same_tables pr pr' \<and> dirtyEndpoints pr' = dirtyEndpoints pr"
proof (cases "allPolicies pr k")
  case None
  then show ?thesis using inv by (auto simp: resolve_pending_def)
next
  case (Some m)
  note parts = resolver_inv_parts [OF inv]
  have E: "matched pr k \<noteq> {}" "key_ok k" using parts(5) [of k] k by (auto simp: policy_inv_def)
  obtain poc where poc: "UpdatePolicy tb pb (rng k) k (Some m) (policySorter pr) = Return (P k \<noteq> Some m, poc)"
      "sorter_rel poc (P(k \<mapsto> m)) T" "keeps_action (policySorter pr) poc"
    using UpdatePolicy_rel [OF parts(1) E(2)] rng by blast
  define pr' where "pr' = pr\<lparr>policySorter := poc, pendingPolicyUpdates := pendingPolicyUpdates pr - {k}\<rparr>"
  have "told_inv pr' recv"
  proof (rule told_inv_sorter [OF inv, where P' = "P(k \<mapsto> m)"])
    fix e j
    assume e: "e \<notin> dirtyEndpoints pr'" "j \<in> policies_of pr e"
    then have "P k = Some m" if "j = k"
      using parts(5) [of k] parts(8) [of e k] k Some that by (cases "P k") (auto simp: policy_inv_def pr'_def)
    then show "P j = (P(k \<mapsto> m)) j" by auto
  qed (use poc in \<open>simp_all add: pr'_def same_view_def\<close>)
  moreover have "policies_inv pr' (P(k \<mapsto> m))"
    unfolding policies_inv_def
  proof
    fix j
    show "policy_inv j (matched pr' j) (allPolicies pr' j) (j \<in> pendingPolicyUpdates pr') ((P(k \<mapsto> m)) j) (dirtyEndpoints pr')"
    proof (cases "j = k")
      case True
      then show ?thesis using policy_inv_resolved [OF parts(5) [of k, unfolded Some] E(1)] Some by (simp add: pr'_def)
    next
      case False
      then show ?thesis using parts(5) [of j] by (simp add: pr'_def)
    qed
  qed
  moreover have "tables_inv pr'" using parts(2) by (simp add: tables_inv_def pr'_def)
  ultimately have "resolver_inv pr' recv (P(k \<mapsto> m)) T" using poc(2) by (simp add: resolver_inv_def pr'_def)
  moreover have "resolve_pending tb pb rng k pr = Return pr'"
    using Some poc(1) by (simp add: resolve_pending_def pr'_def)
  moreover have "same_tables pr pr'" by (simp add: pr'_def same_tables_def)
  ultimately show ?thesis using Some by (auto simp: pr'_def)
qed

lemma resolve_all_inv:
  assumes "resolver_inv pr recv P T" and "distinct ks" "set ks \<subseteq> pendingPolicyUpdates pr" and "\<forall>k. range_orders (rng k)"
  shows "\<exists>pr' P'. run_fold (resolve_pending tb pb rng) ks pr = Return pr' \<and> resolver_inv pr' recv P' T
    \<and> pendingPolicyUpdates pr' = {k \<in> pendingPolicyUpdates pr. k \<in> set ks \<longrightarrow> allPolicies pr k = None}
    \<and> same_tables pr pr' \<and> dirtyEndpoints pr' = dirtyEndpoints pr"
  using assms(1-3)
proof (induction ks arbitrary: pr P)
  case (Cons k ks)
  have "k \<in> pendingPolicyUpdates pr" using Cons.prems(3) by simp
  from resolve_pending_inv [OF Cons.prems(1) this assms(4)]
  obtain pr1 P1 where p1: "resolve_pending tb pb rng k pr = Return pr1" "resolver_inv pr1 recv P1 T"
      "pendingPolicyUpdates pr1 = (if allPolicies pr k = None then pendingPolicyUpdates pr else pendingPolicyUpdates pr - {k})"
      and same: "same_tables pr pr1" "dirtyEndpoints pr1 = dirtyEndpoints pr"
    by blast
  have "set ks \<subseteq> pendingPolicyUpdates pr1" using Cons.prems(2,3) p1(3) by auto
  with Cons.IH [OF p1(2)] Cons.prems(2)
  obtain pr' P' where p2: "run_fold (resolve_pending tb pb rng) ks pr1 = Return pr'" "resolver_inv pr' recv P' T"
      "pendingPolicyUpdates pr' = {k \<in> pendingPolicyUpdates pr1. k \<in> set ks \<longrightarrow> allPolicies pr1 k = None}"
      "same_tables pr1 pr'" "dirtyEndpoints pr' = dirtyEndpoints pr1"
    by auto
  have "allPolicies pr1 = allPolicies pr" using same(1) by (simp add: same_tables_def)
  then have "pendingPolicyUpdates pr' = {j \<in> pendingPolicyUpdates pr. j \<in> set (k # ks) \<longrightarrow> allPolicies pr j = None}"
    using p2(3) p1(3) Cons.prems(2) by auto
  then show ?case
    using p1(1) p2(1,2,5) same same_tables_trans [OF same(1) p2(4)] by auto
qed auto

text \<open>When no policy with metadata is pending, the sorter has exactly the policies that match something.\<close>

lemma sorter_has_matched:
  assumes "policies_inv pr P" and "\<forall>k \<in> pendingPolicyUpdates pr. allPolicies pr k = None"
  shows "P = matched_policies pr"
proof
  fix k
  have "policy_inv k (matched pr k) (allPolicies pr k) (k \<in> pendingPolicyUpdates pr) (P k) (dirtyEndpoints pr)"
    using assms(1) by (simp add: policies_inv_def)
  then show "P k = matched_policies pr k"
    using assms(2) by (cases "P k"; cases "k \<in> pendingPolicyUpdates pr") (auto simp: policy_inv_def matched_policies_def)
qed

lemma Flush_inv:
  assumes inv: "resolver_inv pr recv P T" and fo: "flush_ok fo" and sync: "InitialSyncCompleted pr"
  shows "\<exists>pr' msgs. resolver_Flush tb pb fo pr = Return (pr', msgs)
    \<and> resolver_inv pr' (fold tell msgs recv) (matched_policies pr') T \<and> same_tables pr pr' \<and> dirtyEndpoints pr' = {}"
proof -
  let ?ks = "fo_pending fo (pendingPolicyUpdates pr)"
  have ord: "map_order (fo_pending fo)" "map_order (fo_dirty fo)" "\<forall>e. map_order (fo_data fo e)" "\<forall>k. range_orders (fo_tiers fo k)"
    using fo by (simp_all add: flush_ok_def)
  have ks: "distinct ?ks" "set ?ks = pendingPolicyUpdates pr"
    using ord(1) resolver_inv_parts(2) [OF inv] by (simp_all add: map_order_def tables_inv_def)
  from resolve_all_inv [OF inv ks(1) _ ord(4)] ks(2)
  obtain pr1 P1 where p1: "run_fold (resolve_pending tb pb (fo_tiers fo)) ?ks pr = Return pr1" "resolver_inv pr1 recv P1 T"
      "pendingPolicyUpdates pr1 = {k \<in> pendingPolicyUpdates pr. k \<in> set ?ks \<longrightarrow> allPolicies pr k = None}"
      "same_tables pr pr1" "dirtyEndpoints pr1 = dirtyEndpoints pr"
    by auto
  note parts = resolver_inv_parts [OF p1(2)]
  have pend: "\<forall>k \<in> pendingPolicyUpdates pr1. allPolicies pr1 k = None"
    using p1(3,4) ks(2) by (auto simp: same_tables_def)
  then have P1: "P1 = matched_policies pr1" by (rule sorter_has_matched [OF parts(3)])
  obtain poc where poc: "Sorted tb pb (policySorter pr1) = Return (tier_seq (policySorter pr1), poc)"
      "sorter_rel poc P1 T" "tier_seq poc = tier_seq (policySorter pr1)"
    using Sorted_rel [OF parts(1)] by blast
  define pr2 where "pr2 = pr1\<lparr>sortedTierData := tier_seq poc, policySorter := poc\<rparr>"
  define msgs where "msgs = concat (map (\<lambda>e. sendEndpointUpdate (fo_data fo e) pr2 e) (fo_dirty fo (dirtyEndpoints pr2)))"
  let ?pr = "pr2\<lparr>dirtyEndpoints := {}\<rparr>"
  have run: "resolver_Flush tb pb fo pr = Return (?pr, msgs)"
    using sync p1(1) poc(1,3) by (simp add: resolver_Flush_def Let_def pr2_def msgs_def)
  have same: "same_tables pr1 ?pr" by (simp add: same_tables_def pr2_def)
  have es: "set (fo_dirty fo (dirtyEndpoints pr2)) = dirtyEndpoints pr1"
    using ord(2) parts(2) by (simp add: pr2_def map_order_def tables_inv_def)
  have "told_inv ?pr (fold tell msgs recv)"
    unfolding told_inv_def
  proof (intro allI impI)
    fix cb e
    assume "cb \<in> set (Callbacks ?pr)"
    then have cb: "cb \<in> set (Callbacks pr2)" "cb \<in> set (Callbacks pr1)" by (simp_all add: pr2_def)
    note send = send_all_current [OF ord(3) cb(1), where es = "fo_dirty fo (dirtyEndpoints pr2)" and recv = recv, folded msgs_def, unfolded es]
    have "current_update pr2 (tier_seq poc) e (fold tell msgs recv cb e)"
    proof (cases "e \<in> dirtyEndpoints pr1")
      case True
      then show ?thesis using send(2) [of e] by (simp add: pr2_def)
    next
      case False
      then have "current_update pr1 (tier_seq poc) e (recv cb e)"
        using parts(4) cb(2) poc(3) by (simp add: told_inv_def)
      moreover have "same_view pr1 pr2 e" by (simp add: same_view_def pr2_def)
      ultimately show ?thesis using send(1) [OF False] current_update_cong [of pr1 pr2 e] by simp
    qed
    moreover have "same_view pr2 ?pr e" by (simp add: same_view_def)
    ultimately show "current_update ?pr (tier_seq (policySorter ?pr)) e (fold tell msgs recv cb e)"
      using current_update_cong [of pr2 ?pr e] by (simp add: pr2_def)
  qed
  moreover have "tables_inv ?pr" using parts(2) by (simp add: tables_inv_def pr2_def)
  moreover have "P1 = matched_policies ?pr"
    using P1 by (simp add: matched_policies_def pr2_def fun_eq_iff)
  moreover have "policies_inv ?pr P1"
    using policy_inv_flushed [OF parts(5)] pend by (simp add: policies_inv_def pr2_def)
  ultimately have "resolver_inv ?pr (fold tell msgs recv) (matched_policies ?pr) T"
    using poc(2) by (simp add: resolver_inv_def pr2_def)
  then show ?thesis using run same_tables_trans [OF p1(4) same] by auto
qed

end

end
