(* ===== verification/Resolver_Properties.thy ===== *)
theory Resolver_Properties
  imports Resolver_Steps
begin

text \<open>
  The contract of the policy resolver over whole sequences of calls: a specification that only collects
  what the datastore and the matching said last, and that every flush brings the callbacks up to it. The
  last property shows the sequence of calls that the contract has to exclude.
\<close>

section \<open>Specification\<close>

record ('ep, 'cd) resolver_inputs =
  in_policies :: "PolicyKey \<rightharpoonup> policyMetadata"
  in_tiers :: "string \<rightharpoonup> Tier"
  in_endpoints :: "EndpointKey \<rightharpoonup> 'ep"
  in_matches :: "(PolicyKey \<times> EndpointKey) set"
  in_data :: "EndpointKey \<Rightarrow> string \<rightharpoonup> 'cd"
  in_peers :: "EndpointKey \<rightharpoonup> EndpointBGPPeer"
  in_sync :: bool

definition no_inputs :: "('ep, 'cd) resolver_inputs" where
  "no_inputs = \<lparr>in_policies = Map.empty, in_tiers = Map.empty, in_endpoints = Map.empty, in_matches = {},
     in_data = (\<lambda>_. Map.empty), in_peers = Map.empty, in_sync = False\<rparr>"

fun input_update :: "'ep update \<Rightarrow> ('ep, 'cd) resolver_inputs \<Rightarrow> ('ep, 'cd) resolver_inputs" where
  "input_update (TierUpdate n v) d = d\<lparr>in_tiers := (in_tiers d)(n := v)\<rparr>"
| "input_update (PolicyUpdate k v) d = d\<lparr>in_policies := (in_policies d)(k := map_option ExtractPolicyMetadata v)\<rparr>"
| "input_update (EndpointUpdate e v) d = d\<lparr>in_endpoints := (in_endpoints d)(e := v),
     in_data := (if v = None \<and> is_workload e then (in_data d)(e := Map.empty) else in_data d)\<rparr>"
| "input_update OtherUpdate d = d"

fun input_call :: "('ep, 'cd) resolver_call \<Rightarrow> ('ep, 'cd) resolver_inputs \<Rightarrow> ('ep, 'cd) resolver_inputs" where
  "input_call (CallUpdate rng u) d = input_update u d"
| "input_call (CallMatch rng k e) d = d\<lparr>in_matches := insert (k, e) (in_matches d)\<rparr>"
| "input_call (CallMatchStopped rng k e) d = d\<lparr>in_matches := in_matches d - {(k, e)}\<rparr>"
| "input_call (CallComputedData e kind v) d = d\<lparr>in_data := (in_data d)(e := (in_data d e)(kind := v))\<rparr>"
| "input_call (CallPeerData e p) d = d\<lparr>in_peers := (in_peers d)(e := p)\<rparr>"
| "input_call (CallStatus s) d = d\<lparr>in_sync := (in_sync d \<or> s)\<rparr>"
| "input_call (CallFlush fo) d = d"

text \<open>The policies that match some endpoint, and what an endpoint should have been sent when \<open>ts\<close> are the
  tiers in order.\<close>

definition active_policies :: "('ep, 'cd) resolver_inputs \<Rightarrow> PolicyKey \<rightharpoonup> policyMetadata" where
  "active_policies d k = (if k \<in> fst ` in_matches d then in_policies d k else None)"

definition wanted_update ::
  "('ep, 'cd) resolver_inputs \<Rightarrow> 'pt TierInfo list \<Rightarrow> EndpointKey \<Rightarrow> ('pt, 'ep, 'cd) endpoint_update option \<Rightarrow> bool" where
  "wanted_update d ts e u \<longleftrightarrow>
     (case in_endpoints d e of
        None \<Rightarrow> u = None
      | Some ep \<Rightarrow> (\<exists>order. map_order order \<and> u = Some \<lparr>eu_key = e, eu_endpoint = Some ep,
          eu_data = (if is_workload e then map (\<lambda>kind. the (in_data d e kind)) (order (dom (in_data d e))) else []),
          eu_peer = (if is_workload e \<and> \<not> EndpointBGPPeer_Empty (in_peers d e) then in_peers d e else None),
          eu_tiers = applicable_tiers {k. (k, e) \<in> in_matches d} ts\<rparr>))"

section \<open>The resolver keeps the inputs\<close>

text \<open>The computed data of an endpoint, empty when there is no entry.\<close>

abbreviation (input) data_of :: "('tt, 'pt, 'ep, 'cd, 'cb) PolicyResolver \<Rightarrow> EndpointKey \<Rightarrow> string \<rightharpoonup> 'cd" where
  "data_of pr e \<equiv> case_option Map.empty id (endpointComputedData pr e)"

definition keeps_inputs :: "('tt, 'pt, 'ep, 'cd, 'cb) PolicyResolver \<Rightarrow> ('ep, 'cd) resolver_inputs \<Rightarrow> bool" where
  "keeps_inputs pr d \<longleftrightarrow> allPolicies pr = in_policies d \<and> endpoints pr = in_endpoints d
     \<and> (\<forall>k. matched pr k = {e. (k, e) \<in> in_matches d}) \<and> (\<forall>e. policies_of pr e = {k. (k, e) \<in> in_matches d})
     \<and> (\<forall>e. data_of pr e = in_data d e)
     \<and> endpointBGPPeerData pr = in_peers d \<and> InitialSyncCompleted pr = in_sync d"

lemma keeps_inputs_tables: "keeps_inputs pr d \<Longrightarrow> same_tables pr pr' \<Longrightarrow> keeps_inputs pr' d"
  by (simp add: keeps_inputs_def same_tables_def)

lemma keeps_inputs_cong:
  "keeps_inputs pr d \<Longrightarrow> same_tables pr' (pr\<lparr>policySorter := poc, dirtyEndpoints := D, pendingPolicyUpdates := U\<rparr>)
   \<Longrightarrow> keeps_inputs pr' d"
  by (simp add: keeps_inputs_def same_tables_def)

lemma matched_active: "keeps_inputs pr d \<Longrightarrow> matched_policies pr = active_policies d"
  by (rule ext) (auto simp: keeps_inputs_def matched_policies_def active_policies_def image_iff)

lemma current_wanted:
  assumes "keeps_inputs pr d" and "current_update pr ts e u"
  shows "wanted_update d ts e u"
proof -
  have *: "computed_data order pr e
      = (if is_workload e then map (\<lambda>kind. the (in_data d e kind)) (order (dom (in_data d e))) else [])" if "map_order order" for order
  proof -
    have "set (order {}) = {}" using that by (simp add: map_order_def)
    moreover have "in_data d e = data_of pr e" using assms(1) by (simp add: keeps_inputs_def)
    ultimately show ?thesis by (simp add: computed_data_def split: option.split)
  qed
  have "endpoints pr = in_endpoints d" "policies_of pr e = {k. (k, e) \<in> in_matches d}" "endpointBGPPeerData pr = in_peers d"
    using assms(1) by (simp_all add: keeps_inputs_def)
  then show ?thesis
    using assms(2) * by (auto simp: current_update_def wanted_update_def peer_data_def split: option.splits)
qed

lemma on_endpoint_keeps:
  assumes "keeps_inputs pr d"
  shows "keeps_inputs (on_endpoint e v pr) (input_update (EndpointUpdate e v) d)"
proof -
  let ?pr = "on_endpoint e v pr"
  have "data_of ?pr e' = (if e' = e \<and> v = None \<and> is_workload e then Map.empty else data_of pr e')" for e'
    by (simp add: on_endpoint_def mark_dirty_def Let_def split: option.split)
  moreover have "endpoints ?pr = (endpoints pr)(e := v)" "allPolicies ?pr = allPolicies pr"
    "policyIDToEndpointIDs ?pr = policyIDToEndpointIDs pr" "endpointIDToPolicyIDs ?pr = endpointIDToPolicyIDs pr"
    "endpointBGPPeerData ?pr = endpointBGPPeerData pr" "InitialSyncCompleted ?pr = InitialSyncCompleted pr"
    by (simp_all add: on_endpoint_def mark_dirty_def Let_def split: option.split)
  ultimately show ?thesis using assms by (cases v) (simp_all add: keeps_inputs_def)
qed

lemma OnUpdate_keeps:
  assumes "keeps_inputs pr d" and "resolver_OnUpdate tb pb rng u pr = Return pr'"
  shows "keeps_inputs pr' (input_update u d)"
proof (cases u)
  case (PolicyUpdate k v)
  have "keeps_inputs (with_policy k v pr) (input_update u d)"
    using assms(1) PolicyUpdate by (simp add: keeps_inputs_def with_policy_def)
  moreover have "same_tables (with_policy k v pr) pr'"
    using assms(2) PolicyUpdate
    by (cases "UpdatePolicy tb pb rng k (map_option ExtractPolicyMetadata v) (policySorter pr)")
       (auto simp: OnUpdate_policy same_tables_def mark_dirty_def split: if_splits prod.splits)
  ultimately show ?thesis by (rule keeps_inputs_tables)
next
  case (TierUpdate n v)
  then have "same_tables pr pr'"
    using assms(2) by (cases "sorter_OnUpdate tb pb rng u (policySorter pr)")
      (auto simp: resolver_OnUpdate_def same_tables_def mark_dirty_def markAllEndpointsDirty_def)
  then have "keeps_inputs pr' d" by (rule keeps_inputs_tables [OF assms(1)])
  then show ?thesis using TierUpdate by (simp add: keeps_inputs_def)
next
  case (EndpointUpdate e v)
  then have "pr' = on_endpoint e v pr" using assms(2) by (simp add: resolver_OnUpdate_def)
  then show ?thesis using on_endpoint_keeps [OF assms(1)] EndpointUpdate by simp
qed (use assms in \<open>simp add: resolver_OnUpdate_def\<close>)

lemma OnEndpointComputedDataUpdate_keeps:
  assumes "keeps_inputs pr d"
  shows "keeps_inputs (OnEndpointComputedDataUpdate e kind v pr) (input_call (CallComputedData e kind v) d)"
proof -
  let ?pr = "OnEndpointComputedDataUpdate e kind v pr"
  have "data_of ?pr e' = (if e' = e then (data_of pr e)(kind := v) else data_of pr e')" for e'
    by (auto simp: OnEndpointComputedDataUpdate_def mark_dirty_def Let_def fun_upd_idem split: option.splits)
  moreover have "endpoints ?pr = endpoints pr" "allPolicies ?pr = allPolicies pr"
    "policyIDToEndpointIDs ?pr = policyIDToEndpointIDs pr" "endpointIDToPolicyIDs ?pr = endpointIDToPolicyIDs pr"
    "endpointBGPPeerData ?pr = endpointBGPPeerData pr" "InitialSyncCompleted ?pr = InitialSyncCompleted pr"
    by (simp_all add: OnEndpointComputedDataUpdate_def mark_dirty_def Let_def split: option.split)
  ultimately show ?thesis using assms by (simp add: keeps_inputs_def)
qed

lemma OnPolicyMatch_keeps:
  "keeps_inputs pr d \<Longrightarrow> keeps_inputs (OnPolicyMatch rng k e pr) (input_call (CallMatch rng k e) d)"
  by (auto simp: keeps_inputs_def OnPolicyMatch_def mark_dirty_def Let_def)

lemma OnPolicyMatchStopped_keeps:
  assumes "keeps_inputs pr d" and "OnPolicyMatchStopped tb pb rng k e pr = Return pr'"
  shows "keeps_inputs pr' (input_call (CallMatchStopped rng k e) d)"
proof -
  let ?pr = "pr\<lparr>policyIDToEndpointIDs := md_Discard k e (policyIDToEndpointIDs pr),
      endpointIDToPolicyIDs := md_Discard e k (endpointIDToPolicyIDs pr)\<rparr>"
  have "keeps_inputs ?pr (input_call (CallMatchStopped rng k e) d)" using assms(1) by (auto simp: keeps_inputs_def)
  moreover have "same_tables ?pr pr'"
    using assms(2) by (cases "UpdatePolicy tb pb rng k None (policySorter pr)")
      (auto simp: OnPolicyMatchStopped_def same_tables_def mark_dirty_def Let_def split: if_splits)
  ultimately show ?thesis by (rule keeps_inputs_tables)
qed

lemma OnUpdate_callbacks:
  assumes "resolver_OnUpdate tb pb rng u pr = Return pr'"
  shows "Callbacks pr' = Callbacks pr"
proof (cases u)
  case (TierUpdate n v)
  then show ?thesis using assms
    by (cases "sorter_OnUpdate tb pb rng u (policySorter pr)")
       (auto simp: resolver_OnUpdate_def mark_dirty_def markAllEndpointsDirty_def)
next
  case (PolicyUpdate k v)
  then show ?thesis using assms
    by (cases "UpdatePolicy tb pb rng k (map_option ExtractPolicyMetadata v) (policySorter pr)")
       (auto simp: OnUpdate_policy mark_dirty_def with_policy_def split: if_splits prod.splits)
next
  case (EndpointUpdate e v)
  then show ?thesis using assms
    by (auto simp: resolver_OnUpdate_def on_endpoint_def mark_dirty_def Let_def split: option.splits)
qed (use assms in \<open>simp add: resolver_OnUpdate_def\<close>)

lemma OnPolicyMatchStopped_callbacks:
  "OnPolicyMatchStopped tb pb rng k e pr = Return pr' \<Longrightarrow> Callbacks pr' = Callbacks pr"
  by (cases "UpdatePolicy tb pb rng k None (policySorter pr)")
     (auto simp: OnPolicyMatchStopped_def mark_dirty_def Let_def split: if_splits)

lemma callbacks_kept:
  "Callbacks (OnPolicyMatch rng k e pr) = Callbacks pr"
  "Callbacks (OnEndpointComputedDataUpdate e kind v pr) = Callbacks pr"
  "Callbacks (OnEndpointBGPPeerDataUpdate e p pr) = Callbacks pr"
  "Callbacks (OnDatamodelStatus s pr) = Callbacks pr"
  by (simp_all add: OnPolicyMatch_def OnEndpointComputedDataUpdate_def OnEndpointBGPPeerDataUpdate_def OnDatamodelStatus_def
      mark_dirty_def Let_def split: option.split)

lemma registered:
  "fold RegisterCallback cbs pr = pr\<lparr>Callbacks := Callbacks pr @ cbs\<rparr>"
  by (induction cbs arbitrary: pr) (simp_all add: RegisterCallback_def)

text \<open>A policy whose only match ends before the first flush stays in the sorter.\<close>

definition quiet_resolver ::
  "'cb list \<Rightarrow> EndpointKey \<Rightarrow> 'ep \<Rightarrow> PolicyKey \<Rightarrow> policyMetadata \<Rightarrow> ('tt, 'pt) PolicySorter \<Rightarrow> 'pt TierInfo list
   \<Rightarrow> ('tt, 'pt, 'ep, 'cd, 'cb) PolicyResolver" where
  "quiet_resolver cbs e ep k m poc ts =
     \<lparr>policyIDToEndpointIDs = md_New, endpointIDToPolicyIDs = md_New, allPolicies = [k \<mapsto> m], sortedTierData = ts,
      endpoints = [e \<mapsto> ep], dirtyEndpoints = {}, endpointComputedData = Map.empty, policySorter = poc, Callbacks = cbs,
      InitialSyncCompleted = True, endpointBGPPeerData = Map.empty, pendingPolicyUpdates = {}\<rparr>"

lemma no_order: "map_order order \<Longrightarrow> order {} = []"
  unfolding map_order_def by (metis finite.emptyI set_empty)

lemma one_order:
  assumes "map_order order"
  shows "order {x} = [x]"
proof -
  have "distinct (order {x})" "set (order {x}) = {x}" using assms by (simp_all add: map_order_def)
  then show ?thesis by (cases "order {x}") (auto simp: insert_eq_iff subset_singleton_iff)
qed

context sorter_trees
begin

definition resolver_state ::
  "('tt, 'pt, 'ep, 'cd, 'cb) PolicyResolver \<Rightarrow> ('pt, 'ep, 'cd, 'cb) told \<Rightarrow> ('ep, 'cd) resolver_inputs \<Rightarrow> bool" where
  "resolver_state pr recv d \<longleftrightarrow> keeps_inputs pr d \<and> (\<exists>P. resolver_inv pr recv P (in_tiers d))"

lemma OnUpdate_state:
  assumes "resolver_state pr recv d" and "range_orders rng" and "update_ok u"
  shows "\<exists>pr'. resolver_OnUpdate tb pb rng u pr = Return pr' \<and> resolver_state pr' recv (input_update u d)"
proof -
  obtain P where inv: "keeps_inputs pr d" "resolver_inv pr recv P (in_tiers d)"
    using assms(1) by (auto simp: resolver_state_def)
  have "\<exists>pr' P'. resolver_OnUpdate tb pb rng u pr = Return pr' \<and> resolver_inv pr' recv P' (in_tiers (input_update u d))"
  proof (cases u)
    case (TierUpdate n v)
    then show ?thesis using tier_update_inv [OF inv(2) assms(2), of n v] by auto
  next
    case (PolicyUpdate k v)
    then show ?thesis using policy_update_inv [OF inv(2) _ assms(2), of k v] assms(3) by auto
  next
    case (EndpointUpdate e v)
    then show ?thesis using on_endpoint_inv [OF inv(2), of e v] by (auto simp: resolver_OnUpdate_def)
  qed (use inv(2) in \<open>auto simp: resolver_OnUpdate_def\<close>)
  then show ?thesis using OnUpdate_keeps [OF inv(1)] by (auto simp: resolver_state_def)
qed

lemma make_call_state:
  assumes st: "resolver_state pr recv d" and ok: "resolver_call_ok c pr"
  shows "\<exists>pr' recv'. make_call tb pb c (pr, recv) = Return (pr', recv') \<and> resolver_state pr' recv' (input_call c d)
    \<and> Callbacks pr' = Callbacks pr"
proof -
  obtain P where inv: "keeps_inputs pr d" "resolver_inv pr recv P (in_tiers d)"
    using st by (auto simp: resolver_state_def)
  show ?thesis
  proof (cases c)
    case (CallUpdate rng u)
    then show ?thesis using OnUpdate_state [OF st, of rng u] ok OnUpdate_callbacks [of tb pb rng u pr] by auto
  next
    case (CallMatch rng k e)
    then show ?thesis
      using match_inv [OF inv(2), of k rng e] OnPolicyMatch_keeps [OF inv(1), of rng k e] ok
      by (auto simp: resolver_state_def callbacks_kept)
  next
    case (CallMatchStopped rng k e)
    then obtain pr' P' where p: "OnPolicyMatchStopped tb pb rng k e pr = Return pr'" "resolver_inv pr' recv P' (in_tiers d)"
      using stop_inv [OF inv(2), of k rng e] ok by auto
    then show ?thesis
      using CallMatchStopped OnPolicyMatchStopped_keeps [OF inv(1) p(1)] OnPolicyMatchStopped_callbacks [OF p(1)]
      by (auto simp: resolver_state_def)
  next
    case (CallComputedData e kind v)
    then show ?thesis
      using computed_data_inv [OF inv(2), of e kind v] OnEndpointComputedDataUpdate_keeps [OF inv(1), of e kind v]
      by (auto simp: resolver_state_def callbacks_kept)
  next
    case (CallPeerData e p)
    have "keeps_inputs (OnEndpointBGPPeerDataUpdate e p pr) (input_call c d)"
      using inv(1) CallPeerData by (simp add: keeps_inputs_def OnEndpointBGPPeerDataUpdate_def mark_dirty_def)
    then show ?thesis
      using CallPeerData peer_data_inv [OF inv(2), of e p] by (auto simp: resolver_state_def callbacks_kept)
  next
    case (CallStatus s)
    have "keeps_inputs (OnDatamodelStatus s pr) (input_call c d)"
      using inv(1) CallStatus by (auto simp: keeps_inputs_def OnDatamodelStatus_def)
    then show ?thesis
      using CallStatus status_inv [OF inv(2), of s] by (auto simp: resolver_state_def callbacks_kept)
  next
    case (CallFlush fo)
    show ?thesis
    proof (cases "InitialSyncCompleted pr")
      case True
      have "flush_ok fo" using ok CallFlush by simp
      from Flush_inv [OF inv(2) this True]
      obtain pr' msgs where "resolver_Flush tb pb fo pr = Return (pr', msgs)" "same_tables pr pr'"
          "resolver_inv pr' (fold tell msgs recv) (matched_policies pr') (in_tiers d)"
        by blast
      then show ?thesis
        using CallFlush keeps_inputs_tables [OF inv(1)] by (auto simp: resolver_state_def same_tables_def)
    next
      case False
      then show ?thesis using CallFlush st by (simp add: resolver_Flush_def)
    qed
  qed
qed

lemma make_calls_state:
  assumes "resolver_state pr recv d" and "calls_ok tb pb cs (pr, recv)"
  shows "\<exists>pr' recv'. run_fold (make_call tb pb) cs (pr, recv) = Return (pr', recv')
    \<and> resolver_state pr' recv' (fold input_call cs d) \<and> Callbacks pr' = Callbacks pr"
  using assms
proof (induction cs arbitrary: pr recv d)
  case (Cons c cs)
  then obtain pr1 recv1 where p: "make_call tb pb c (pr, recv) = Return (pr1, recv1)"
      "resolver_state pr1 recv1 (input_call c d)" "Callbacks pr1 = Callbacks pr"
    using make_call_state [of pr recv d c] by auto
  then show ?case using Cons.IH [OF p(2)] Cons.prems(2) by auto
qed simp

lemma resolver_state_new: "resolver_state (fold RegisterCallback cbs (NewPolicyResolver tb)) (\<lambda>_. Map.empty) no_inputs"
proof -
  let ?pr = "fold RegisterCallback cbs (NewPolicyResolver tb)"
  have pr: "policyIDToEndpointIDs ?pr = md_New" "endpointIDToPolicyIDs ?pr = md_New" "allPolicies ?pr = Map.empty"
    "endpoints ?pr = Map.empty" "dirtyEndpoints ?pr = {}" "endpointComputedData ?pr = Map.empty"
    "policySorter ?pr = NewPolicySorter tb" "\<not> InitialSyncCompleted ?pr" "endpointBGPPeerData ?pr = Map.empty"
    "pendingPolicyUpdates ?pr = {}"
    by (simp_all add: registered NewPolicyResolver_def)
  have "keeps_inputs ?pr no_inputs" by (simp add: keeps_inputs_def pr no_inputs_def)
  moreover have "tables_inv ?pr" by (simp add: tables_inv_def pr)
  moreover have "policies_inv ?pr Map.empty" by (simp add: policies_inv_def policy_inv_def pr)
  moreover have "told_inv ?pr (\<lambda>_. Map.empty)" by (simp add: told_inv_def current_update_def pr)
  ultimately show ?thesis
    using sorter_rel_new by (auto simp: resolver_state_def resolver_inv_def pr no_inputs_def)
qed

lemma Flush_state:
  assumes "resolver_state pr recv d" and "flush_ok fo" and "in_sync d"
  shows "\<exists>pr' recv' ts. make_call tb pb (CallFlush fo) (pr, recv) = Return (pr', recv') \<and> dirtyEndpoints pr' = {}
    \<and> sorted_tiers (active_policies d) (in_tiers d) ts
    \<and> (\<forall>cb e. cb \<in> set (Callbacks pr) \<longrightarrow> wanted_update d ts e (recv' cb e))"
proof -
  obtain P where inv: "keeps_inputs pr d" "resolver_inv pr recv P (in_tiers d)"
    using assms(1) by (auto simp: resolver_state_def)
  then have "InitialSyncCompleted pr" using assms(3) by (simp add: keeps_inputs_def)
  from Flush_inv [OF inv(2) assms(2) this]
  obtain pr' msgs where p: "resolver_Flush tb pb fo pr = Return (pr', msgs)" "same_tables pr pr'" "dirtyEndpoints pr' = {}"
      "resolver_inv pr' (fold tell msgs recv) (matched_policies pr') (in_tiers d)"
    by blast
  have keeps: "keeps_inputs pr' d" by (rule keeps_inputs_tables [OF inv(1) p(2)])
  have "sorted_tiers (active_policies d) (in_tiers d) (tier_seq (policySorter pr'))"
    using tier_seq_sorted [OF resolver_inv_parts(1) [OF p(4)]] matched_active [OF keeps] by simp
  moreover have "wanted_update d (tier_seq (policySorter pr')) e (fold tell msgs recv cb e)" if "cb \<in> set (Callbacks pr)" for cb e
    using resolver_inv_parts(4) [OF p(4)] that p(2,3) by (intro current_wanted [OF keeps]) (simp add: told_inv_def same_tables_def)
  ultimately show ?thesis using p(1,3) by auto
qed

lemma has_policy_order:
  assumes "sorter_rel poc P T" and "range_orders rng"
  shows "HasPolicy k (rng i (dom (tiers poc))) poc \<longleftrightarrow> P k \<noteq> None"
  using HasPolicy_iff [OF assms(1)] assms(2) sorter_rel_finite [OF assms(1)] by (simp add: range_orders_def)

lemma match_stop_flush:
  assumes k: "key_ok k" and rng: "range_orders rng" and fo: "flush_ok fo"
  shows "\<exists>poc ts recv. run_fold (make_call tb pb) [CallStatus True, CallUpdate rng (EndpointUpdate e (Some ep)),
      CallUpdate rng (PolicyUpdate k (Some p)), CallMatch rng k e, CallMatchStopped rng k e, CallFlush fo]
      (fold RegisterCallback cbs (NewPolicyResolver tb), \<lambda>_. Map.empty)
    = Return (quiet_resolver cbs e ep k (ExtractPolicyMetadata p) poc ts, recv)
    \<and> sorter_rel poc [k \<mapsto> ExtractPolicyMetadata p] Map.empty"
proof -
  let ?m = "ExtractPolicyMetadata p"
  have ord: "fo_pending fo {k} = [k]" "fo_dirty fo {e} = [e]" "range_orders (fo_tiers fo k)"
    using fo by (simp_all add: flush_ok_def one_order)
  obtain poc1 where u1: "UpdatePolicy tb pb rng k None (NewPolicySorter tb) = Return (False, poc1)" "sorter_rel poc1 Map.empty Map.empty"
    using UpdatePolicy_rel [OF sorter_rel_new k rng, of None] by auto
  obtain poc2 where u2: "UpdatePolicy tb pb (fo_tiers fo k) k (Some ?m) poc1 = Return (True, poc2)" "sorter_rel poc2 [k \<mapsto> ?m] Map.empty"
    using UpdatePolicy_rel [OF u1(2) k ord(3), of "Some ?m"] by auto
  obtain poc3 where u3: "Sorted tb pb poc2 = Return (tier_seq poc2, poc3)" "sorter_rel poc3 [k \<mapsto> ?m] Map.empty"
    using Sorted_rel [OF u2(2)] by blast
  have md: "md_Discard a b (md_Put a b md_New) = md_New" for a :: 'x and b :: 'y
    by (simp add: md_Discard_def md_Put_def md_New_def fun_eq_iff)
  note has = has_policy_order [OF sorter_rel_new rng, of k 0]
  have "\<exists>recv. run_fold (make_call tb pb) [CallStatus True, CallUpdate rng (EndpointUpdate e (Some ep)),
      CallUpdate rng (PolicyUpdate k (Some p)), CallMatch rng k e, CallMatchStopped rng k e, CallFlush fo]
      (fold RegisterCallback cbs (NewPolicyResolver tb), \<lambda>_. Map.empty)
    = Return (quiet_resolver cbs e ep k ?m poc3 (tier_seq poc2), recv)"
    using has u1(1) u2(1) u3(1)
    by (simp add: registered NewPolicyResolver_def OnDatamodelStatus_def resolver_OnUpdate_def on_endpoint_def mark_dirty_def
        Let_def md_ContainsKey_def md_New_def OnPolicyMatch_def OnPolicyMatchStopped_def md [unfolded md_New_def] resolver_Flush_def ord(1,2)
        resolve_pending_def quiet_resolver_def)
  then show ?thesis using u3(2) by blast
qed

lemma rematch_flush:
  assumes k: "key_ok k" and rng: "range_orders rng" and fo: "flush_ok fo" and rel: "sorter_rel poc [k \<mapsto> m] Map.empty"
    and cb: "cb \<in> set cbs"
  shows "\<exists>pr recv' ts'. run_fold (make_call tb pb) [CallUpdate rng (PolicyUpdate k (Some p)), CallMatch rng k e, CallFlush fo]
      (quiet_resolver cbs e ep k m poc ts, recv) = Return (pr, recv')
    \<and> dirtyEndpoints pr = {} \<and> sorted_tiers [k \<mapsto> m] Map.empty ts'
    \<and> recv' cb e = Some \<lparr>eu_key = e, eu_endpoint = Some ep, eu_data = [], eu_peer = None, eu_tiers = applicable_tiers {k} ts'\<rparr>"
proof -
  let ?m = "ExtractPolicyMetadata p"
  have ord: "fo_pending fo {} = []" "fo_dirty fo {e} = [e]"
    using fo by (simp_all add: flush_ok_def one_order no_order)
  obtain poc1 where u: "Sorted tb pb poc = Return (tier_seq poc, poc1)" "sorted_tiers [k \<mapsto> m] Map.empty (tier_seq poc)"
    using Sorted_rel [OF rel] tier_seq_sorted [OF rel] by blast
  have has: "HasPolicy k (rng 0 (dom (tiers poc))) poc" using has_policy_order [OF rel rng] by simp
  let ?u = "\<lparr>eu_key = e, eu_endpoint = Some ep, eu_data = [], eu_peer = None, eu_tiers = applicable_tiers {k} (tier_seq poc)\<rparr>"
  have "\<exists>pr. run_fold (make_call tb pb) [CallUpdate rng (PolicyUpdate k (Some p)), CallMatch rng k e, CallFlush fo]
      (quiet_resolver cbs e ep k m poc ts, recv) = Return (pr, fold tell (map (\<lambda>cb. (cb, ?u)) cbs) recv) \<and> dirtyEndpoints pr = {}"
    using has u(1)
    by (simp add: quiet_resolver_def resolver_OnUpdate_def mark_dirty_def Let_def md_ContainsKey_def md_New_def [THEN fun_cong]
        OnPolicyMatch_def resolver_Flush_def ord sendEndpointUpdate_def computed_data_def peer_data_def EndpointBGPPeer_Empty_def)
  moreover have "fold tell (map (\<lambda>cb. (cb, ?u)) cbs) recv cb e = Some ?u"
    using cb tell_all [of ?u cbs recv] by (simp add: seen_update_def)
  ultimately show ?thesis using u(2) by blast
qed

end

section \<open>Properties\<close>

lemma calls_ok_append:
  "calls_ok tb pb (cs @ cs') st \<longleftrightarrow> calls_ok tb pb cs st
     \<and> (case run_fold (make_call tb pb) cs st of Return st' \<Rightarrow> calls_ok tb pb cs' st' | _ \<Rightarrow> True)"
  by (induction cs arbitrary: st) (auto split: run.splits)

lemma calls_ok_static:
  fixes st :: "('tt, 'pt, 'ep, 'cd, 'cb) PolicyResolver \<times> ('pt, 'ep, 'cd, 'cb) told"
  assumes "\<And>c (pr :: ('tt, 'pt, 'ep, 'cd, 'cb) PolicyResolver). c \<in> set cs \<Longrightarrow> resolver_call_ok c pr"
  shows "calls_ok tb pb cs st"
  using assms by (induction cs arbitrary: st) (simp_all split: run.split)

text \<open>C33. The policy resolver keeps its callbacks up to date. After any sequence of updates, matches, ends of
  matches, computed data, peer data, sync states and flushes that ends with a flush after the datastore is in
  sync, no endpoint is left dirty, and what each callback was told last of each endpoint is right for what the
  sequence said last, whether or not this flush sent it: nothing for an endpoint that does not exist, and
  otherwise the endpoint with its computed data, its peer, and the tiers and policies that match it, each
  policy with its last metadata, in the order of the sorted tiers. Policy keys have no slash, and the last
  match of a policy does not end while the policy waits for a flush to take it into the sorter.\<close>

theorem resolver_sends_current:
  fixes tb :: "(tierInfoKey, 'tt) btree" and pb :: "(PolKV, 'pt) btree" and cbs :: "'cb list"
    and cs :: "('ep, 'cd) resolver_call list"
  assumes "ordered_tree (\<lambda>_. True) TierLess tb" and "ordered_tree polkv_ok PolKVLess pb"
    and "calls_ok tb pb (cs @ [CallFlush fo]) (fold RegisterCallback cbs (NewPolicyResolver tb), \<lambda>_. Map.empty)"
    and "fold input_call cs no_inputs = d" and "in_sync d"
  shows "\<exists>pr recv ts. run_fold (make_call tb pb) (cs @ [CallFlush fo]) (fold RegisterCallback cbs (NewPolicyResolver tb), \<lambda>_. Map.empty)
      = Return (pr, recv)
    \<and> dirtyEndpoints pr = {} \<and> sorted_tiers (active_policies d) (in_tiers d) ts
    \<and> (\<forall>cb e. cb \<in> set cbs \<longrightarrow> wanted_update d ts e (recv cb e))"
proof -
  have st: "sorter_trees tb pb" using assms(1,2) by (rule sorter_treesI)
  let ?pr = "fold RegisterCallback cbs (NewPolicyResolver tb)"
  have "calls_ok tb pb cs (?pr, \<lambda>_. Map.empty)" using assms(3) by (simp add: calls_ok_append)
  from sorter_trees.make_calls_state [OF st sorter_trees.resolver_state_new [OF st] this]
  obtain pr1 recv1 where run: "run_fold (make_call tb pb) cs (?pr, \<lambda>_. Map.empty) = Return (pr1, recv1)"
      and state: "sorter_trees.resolver_state tb pb pr1 recv1 d" and cbs: "Callbacks pr1 = cbs"
    by (auto simp: assms(4) registered NewPolicyResolver_def)
  have "flush_ok fo" using assms(3) run by (simp add: calls_ok_append)
  from sorter_trees.Flush_state [OF st state this assms(5)]
  show ?thesis by (auto simp: run_fold_append run cbs)
qed

text \<open>C35. A policy can be sent with old metadata. The only match of a policy ends before a flush: the next
  flush takes the policy into the sorter although nothing matches it. An update of the policy is then not
  passed to the sorter, as nothing matches the policy, and when it matches again the sorter already has it.
  The endpoint is sent the tiers in which the policy has the metadata from before the update.\<close>

theorem resolver_sends_stale_policy:
  fixes tb :: "(tierInfoKey, 'tt) btree" and pb :: "(PolKV, 'pt) btree" and ep :: 'ep
  assumes "ordered_tree (\<lambda>_. True) TierLess tb" and "ordered_tree polkv_ok PolKVLess pb"
    and "key_ok k" and "range_orders rng" and "flush_ok fo" and "flush_ok fo'" and "cb \<in> set cbs"
    and "cs = [CallStatus True, CallUpdate rng (EndpointUpdate e (Some ep)), CallUpdate rng (PolicyUpdate k (Some p)),
      CallMatch rng k e, CallMatchStopped rng k e, CallFlush fo,
      CallUpdate rng (PolicyUpdate k (Some p')), CallMatch rng k e, CallFlush fo']"
  shows "\<exists>pr recv ts. run_fold (make_call tb pb) cs (fold RegisterCallback cbs (NewPolicyResolver tb), \<lambda>_. Map.empty) = Return (pr, recv)
    \<and> active_policies (fold input_call cs (no_inputs :: ('ep, 'cd) resolver_inputs)) = [k \<mapsto> ExtractPolicyMetadata p']
    \<and> dirtyEndpoints pr = {} \<and> sorted_tiers [k \<mapsto> ExtractPolicyMetadata p] Map.empty ts
    \<and> recv cb e = Some \<lparr>eu_key = e, eu_endpoint = Some ep, eu_data = [] :: 'cd list, eu_peer = None,
        eu_tiers = applicable_tiers {k} ts\<rparr>"
proof -
  have st: "sorter_trees tb pb" using assms(1,2) by (rule sorter_treesI)
  define cs1 where "cs1 = [CallStatus True, CallUpdate rng (EndpointUpdate e (Some ep)), CallUpdate rng (PolicyUpdate k (Some p)),
    CallMatch rng k e, CallMatchStopped rng k e, CallFlush fo :: ('ep, 'cd) resolver_call]"
  define cs2 where "cs2 = [CallUpdate rng (PolicyUpdate k (Some p')), CallMatch rng k e, CallFlush fo' :: ('ep, 'cd) resolver_call]"
  have cs: "cs = cs1 @ cs2" by (simp add: assms(8) cs1_def cs2_def)
  have "\<exists>poc ts recv. run_fold (make_call tb pb) cs1 (fold RegisterCallback cbs (NewPolicyResolver tb), \<lambda>_. Map.empty)
      = Return (quiet_resolver cbs e ep k (ExtractPolicyMetadata p) poc ts, recv)
    \<and> sorter_trees.sorter_rel tb pb poc [k \<mapsto> ExtractPolicyMetadata p] Map.empty"
    unfolding cs1_def by (rule sorter_trees.match_stop_flush [OF st assms(3-5)])
  then obtain poc ts recv where run: "run_fold (make_call tb pb) cs1 (fold RegisterCallback cbs (NewPolicyResolver tb), \<lambda>_. Map.empty)
      = Return (quiet_resolver cbs e ep k (ExtractPolicyMetadata p) poc ts, recv)"
      "sorter_trees.sorter_rel tb pb poc [k \<mapsto> ExtractPolicyMetadata p] Map.empty"
    by blast
  have "active_policies (fold input_call cs (no_inputs :: ('ep, 'cd) resolver_inputs)) = [k \<mapsto> ExtractPolicyMetadata p']"
    by (rule ext) (simp add: assms(8) active_policies_def no_inputs_def)
  with sorter_trees.rematch_flush [OF st assms(3,4,6) run(2) assms(7), of p' e ep ts recv, folded cs2_def]
  show ?thesis unfolding cs run_fold_append run(1) by auto
qed

section \<open>Witnesses\<close>

text \<open>Orders that sort the keys by their fields.\<close>

definition order_by :: "('a \<Rightarrow> string list) \<Rightarrow> (string list \<Rightarrow> 'a) \<Rightarrow> 'a set \<Rightarrow> 'a list" where
  "order_by f g S = map g (sorted_list_of_set (f ` S))"

lemma order_by_ok: "(\<And>x. g (f x) = x) \<Longrightarrow> map_order (order_by f g)"
  by (auto simp: map_order_def order_by_def distinct_map inj_on_def image_image)

fun policy_fields :: "PolicyKey \<Rightarrow> string list" where
  "policy_fields k = [pk_Name k, pk_Namespace k, pk_Kind k]"

fun policy_of_fields :: "string list \<Rightarrow> PolicyKey" where
  "policy_of_fields xs = \<lparr>pk_Name = xs ! 0, pk_Namespace = xs ! 1, pk_Kind = xs ! 2\<rparr>"

fun endpoint_fields :: "EndpointKey \<Rightarrow> string list" where
  "endpoint_fields (WorkloadEndpointKey a b c d) = [a, b, c, d]"
| "endpoint_fields (HostEndpointKey a b) = [a, b]"

fun endpoint_of_fields :: "string list \<Rightarrow> EndpointKey" where
  "endpoint_of_fields xs =
     (if length xs = 2 then HostEndpointKey (xs ! 0) (xs ! 1) else WorkloadEndpointKey (xs ! 0) (xs ! 1) (xs ! 2) (xs ! 3))"

definition wit_orders :: flush_orders where
  "wit_orders = \<lparr>fo_pending = order_by policy_fields policy_of_fields, fo_dirty = order_by endpoint_fields endpoint_of_fields,
     fo_data = (\<lambda>_. sorted_list_of_set), fo_tiers = (\<lambda>_. wit_rng)\<rparr>"

lemma wit_orders_ok: "flush_ok wit_orders" "range_orders wit_rng"
proof -
  have "endpoint_of_fields (endpoint_fields x) = x" for x by (cases x) simp_all
  then show "flush_ok wit_orders"
    by (simp add: flush_ok_def wit_orders_def wit_rng_def range_orders_def order_by_ok) (simp add: map_order_def)
  show "range_orders wit_rng" by (simp add: range_orders_def wit_rng_def)
qed

definition wit_resolver_calls :: "(nat, nat) resolver_call list" where
  "wit_resolver_calls = [CallUpdate wit_rng (PolicyUpdate (wit_key ''a'') (Some (wit_policy ''t'' 2))),
     CallUpdate wit_rng (EndpointUpdate (HostEndpointKey ''h'' ''eth0'') (Some 5)),
     CallMatch wit_rng (wit_key ''a'') (HostEndpointKey ''h'' ''eth0''), CallStatus True, CallFlush wit_orders,
     CallUpdate wit_rng (PolicyUpdate (wit_key ''a'') (Some (wit_policy ''u'' 1)))]"

theorem resolver_sends_current_witness:
  "\<exists>pr recv ts. run_fold (make_call (list_tree TierLess) (list_tree PolKVLess)) (wit_resolver_calls @ [CallFlush wit_orders])
      (fold RegisterCallback [''cb''] (NewPolicyResolver (list_tree TierLess)), \<lambda>_. Map.empty) = Return (pr, recv)
    \<and> dirtyEndpoints pr = {} \<and> sorted_tiers [wit_key ''a'' \<mapsto> ExtractPolicyMetadata (wit_policy ''u'' 1)] Map.empty ts
    \<and> map_option eu_tiers (recv ''cb'' (HostEndpointKey ''h'' ''eth0'')) = Some (applicable_tiers {wit_key ''a''} ts)"
proof -
  let ?d = "fold input_call wit_resolver_calls no_inputs"
  have ok: "calls_ok (list_tree TierLess) (list_tree PolKVLess) (wit_resolver_calls @ [CallFlush wit_orders])
      (fold RegisterCallback [''cb''] (NewPolicyResolver (list_tree TierLess)), \<lambda>_. Map.empty)"
    by (rule calls_ok_static) (auto simp: wit_resolver_calls_def wit_orders_ok wit_key_def key_ok_def)
  have d: "in_sync ?d" "in_tiers ?d = Map.empty" "active_policies ?d = [wit_key ''a'' \<mapsto> ExtractPolicyMetadata (wit_policy ''u'' 1)]"
    "in_endpoints ?d (HostEndpointKey ''h'' ''eth0'') = Some 5" "{k. (k, HostEndpointKey ''h'' ''eth0'') \<in> in_matches ?d} = {wit_key ''a''}"
    by (auto simp: wit_resolver_calls_def no_inputs_def active_policies_def)
  from resolver_sends_current [OF tier_tree.ordered_tree_axioms pol_tree.ordered_tree_axioms ok refl d(1)]
  obtain pr recv ts where "run_fold (make_call (list_tree TierLess) (list_tree PolKVLess)) (wit_resolver_calls @ [CallFlush wit_orders])
      (fold RegisterCallback [''cb''] (NewPolicyResolver (list_tree TierLess)), \<lambda>_. Map.empty) = Return (pr, recv)"
      "dirtyEndpoints pr = {}" "sorted_tiers (active_policies ?d) (in_tiers ?d) ts"
      "wanted_update ?d ts (HostEndpointKey ''h'' ''eth0'') (recv ''cb'' (HostEndpointKey ''h'' ''eth0''))"
    by (metis list.set_intros(1))
  moreover from this(4) have "map_option eu_tiers (recv ''cb'' (HostEndpointKey ''h'' ''eth0'')) = Some (applicable_tiers {wit_key ''a''} ts)"
    by (auto simp: wanted_update_def d)
  ultimately show ?thesis unfolding d by blast
qed

definition wit_stale :: "(nat, nat) resolver_call list" where
  "wit_stale = [CallStatus True, CallUpdate wit_rng (EndpointUpdate (HostEndpointKey ''h'' ''eth0'') (Some 5)),
     CallUpdate wit_rng (PolicyUpdate (wit_key ''a'') (Some (wit_policy ''t'' 2))),
     CallMatch wit_rng (wit_key ''a'') (HostEndpointKey ''h'' ''eth0''),
     CallMatchStopped wit_rng (wit_key ''a'') (HostEndpointKey ''h'' ''eth0''), CallFlush wit_orders,
     CallUpdate wit_rng (PolicyUpdate (wit_key ''a'') (Some (wit_policy ''u'' 1))),
     CallMatch wit_rng (wit_key ''a'') (HostEndpointKey ''h'' ''eth0''), CallFlush wit_orders]"

theorem resolver_sends_stale_policy_witness:
  "\<exists>pr recv ts. run_fold (make_call (list_tree TierLess) (list_tree PolKVLess)) wit_stale
      (fold RegisterCallback [''cb''] (NewPolicyResolver (list_tree TierLess)), \<lambda>_. Map.empty) = Return (pr, recv)
    \<and> active_policies (fold input_call wit_stale no_inputs) = [wit_key ''a'' \<mapsto> ExtractPolicyMetadata (wit_policy ''u'' 1)]
    \<and> dirtyEndpoints pr = {} \<and> sorted_tiers [wit_key ''a'' \<mapsto> ExtractPolicyMetadata (wit_policy ''t'' 2)] Map.empty ts
    \<and> recv ''cb'' (HostEndpointKey ''h'' ''eth0'') = Some \<lparr>eu_key = HostEndpointKey ''h'' ''eth0'', eu_endpoint = Some 5,
        eu_data = [], eu_peer = None, eu_tiers = applicable_tiers {wit_key ''a''} ts\<rparr>"
  by (rule resolver_sends_stale_policy [OF tier_tree.ordered_tree_axioms pol_tree.ordered_tree_axioms _ wit_orders_ok(2)
        wit_orders_ok(1) wit_orders_ok(1) _ wit_stale_def])
     (simp_all add: wit_key_def key_ok_def)

end
