(* ===== verification/Go_Set.thy ===== *)
theory Go_Set
  imports Calico_Base "HOL-Library.Multiset"
begin

text \<open>
  The sets of \<^verbatim>\<open>libcalico-go/lib/set\<close>: the interface \<^verbatim>\<open>Set\<close> with its two
  implementations, \<^verbatim>\<open>Typed\<close> (a Go map) and \<^verbatim>\<open>Adaptive\<close> (nothing, an array of
  at most 16 entries, or a map, behind one unsafe pointer), and the functions over several sets. The
  locale \<open>set_impl\<close> states what the interface promises; both implementations are interpretations
  of it, and the methods that are written in terms of the others are proved once inside it.
\<close>

section \<open>The interface\<close>

text \<open>What a visitor answers: to stop, to remove the visited item, to go on, or another error.\<close>

datatype iter_answer = StopIteration | RemoveItem | NoError | OtherError

text \<open>The methods of a \<^verbatim>\<open>Set\<close> value that do not change it. \<open>view_All\<close> is the sequence of
  items that its iterator yields.\<close>

record 'a set_view =
  view_Len :: nat
  view_Contains :: "'a \<Rightarrow> bool"
  view_All :: "'a list"

definition view_ok :: "'a set_view \<Rightarrow> bool" where
  "view_ok s \<longleftrightarrow> distinct (view_All s) \<and> view_Len s = length (view_All s)
     \<and> (\<forall>x. view_Contains s x \<longleftrightarrow> x \<in> set (view_All s))"

section \<open>The map-based set\<close>

text \<open>A \<^verbatim>\<open>Typed\<close> set is a Go map; \<open>None\<close> is the nil map that \<^verbatim>\<open>Empty\<close> returns. The
  order in which a loop over the map visits its items is an argument.\<close>

type_synonym 'a Typed = "'a set option"

definition typed_New :: "'a Typed" where
  "typed_New = Some {}"

definition typed_Empty :: "'a Typed" where
  "typed_Empty = None"

definition typed_items :: "'a Typed \<Rightarrow> 'a set" where
  "typed_items s = (case s of None \<Rightarrow> {} | Some S \<Rightarrow> S)"

definition typed_Len :: "'a Typed \<Rightarrow> nat" where
  "typed_Len s = card (typed_items s)"

definition typed_Add :: "'a \<Rightarrow> 'a Typed \<Rightarrow> 'a Typed run" where
  "typed_Add item s = (case s of None \<Rightarrow> Panic | Some S \<Rightarrow> Return (Some (insert item S)))"

definition typed_AddAll :: "'a list \<Rightarrow> 'a Typed \<Rightarrow> 'a Typed run" where
  "typed_AddAll = run_fold typed_Add"

definition typed_AddSet :: "'a set_view \<Rightarrow> 'a Typed \<Rightarrow> 'a Typed run" where
  "typed_AddSet other s = run_fold typed_Add (view_All other) s"

definition typed_FromArray :: "'a list \<Rightarrow> 'a Typed run" where
  "typed_FromArray membersArray = typed_AddAll membersArray typed_New"

definition typed_Discard :: "'a \<Rightarrow> 'a Typed \<Rightarrow> 'a Typed" where
  "typed_Discard item s = map_option (\<lambda>S. S - {item}) s"

definition typed_Clear :: "'a Typed \<Rightarrow> 'a Typed" where
  "typed_Clear s = map_option (\<lambda>_. {}) s"

definition typed_Contains :: "'a \<Rightarrow> 'a Typed \<Rightarrow> bool" where
  "typed_Contains item s \<longleftrightarrow> item \<in> typed_items s"

fun typed_Iter ::
  "('a \<Rightarrow> 's \<Rightarrow> iter_answer \<times> 's) \<Rightarrow> 'a list \<Rightarrow> 'a Typed \<Rightarrow> 's \<Rightarrow> ('a Typed \<times> 's) run" where
  "typed_Iter visitor [] s st = Return (s, st)"
| "typed_Iter visitor (item # rest) s st =
     (case visitor item st of
        (StopIteration, st) \<Rightarrow> Return (s, st)
      | (RemoveItem, st) \<Rightarrow> typed_Iter visitor rest (typed_Discard item s) st
      | (NoError, st) \<Rightarrow> typed_Iter visitor rest s st
      | (OtherError, st) \<Rightarrow> Panic)"

definition typed_Copy :: "'a list \<Rightarrow> 'a Typed run" where
  "typed_Copy order = run_fold typed_Add order typed_New"

definition typed_Slice :: "'a list \<Rightarrow> 'a list" where
  "typed_Slice order = fold (\<lambda>item s. s @ [item]) order []"

definition typed_Equals :: "'a list \<Rightarrow> 'a Typed \<Rightarrow> 'a set_view \<Rightarrow> bool" where
  "typed_Equals order s other =
     (if typed_Len s \<noteq> view_Len other then False
      else list_all (view_Contains other) order)"

definition typed_ContainsAll :: "'a Typed \<Rightarrow> 'a set_view \<Rightarrow> bool" where
  "typed_ContainsAll s other =
     (if view_Len other > typed_Len s then False
      else list_all (\<lambda>item. typed_Contains item s) (view_All other))"

section \<open>The adaptive set\<close>

text \<open>
  The unsafe pointer is nil, points at an array, or points at a map; \<open>ad_size\<close> tells which. An array
  has a length, and entries past the size hold the zero value \<open>zeroT\<close> of the element type. Reading
  memory that is not what the size says is undefined in Go and a panic here.
\<close>

datatype 'a storage = NilP | ArrayP "'a list" | MapP "'a set"

record 'a Adaptive =
  ad_size :: int
  ad_p :: "'a storage"

definition adaptiveSetArrayLimit :: int where
  "adaptiveSetArrayLimit = 16"

definition sizeStoredInMap :: int where
  "sizeStoredInMap = - 1"

definition arrCapForSize :: "nat list" where
  "arrCapForSize = [0, 1, 2, 4, 4, 8, 8, 8, 8, 16, 16, 16, 16, 16, 16, 16, 16]"

definition cap_for :: "int \<Rightarrow> nat" where
  "cap_for n = arrCapForSize ! nat n"

definition NewAdaptive :: "'a Adaptive" where
  "NewAdaptive = \<lparr>ad_size = 0, ad_p = NilP\<rparr>"

text \<open>The backing array, and the slice of it: its first \<open>ad_size\<close> entries.\<close>

definition backing :: "'a Adaptive \<Rightarrow> 'a list run" where
  "backing a =
     (if ad_size a < 1 \<or> ad_size a > adaptiveSetArrayLimit then Panic
      else case ad_p a of
             ArrayP arr \<Rightarrow> if length arr < cap_for (ad_size a) then Panic else Return arr
           | _ \<Rightarrow> Panic)"

definition loadSliceFromPointer :: "'a Adaptive \<Rightarrow> 'a list run" where
  "loadSliceFromPointer a = run_bind (backing a) (\<lambda>arr. Return (take (nat (ad_size a)) arr))"

definition loadMapFromPointer :: "'a Adaptive \<Rightarrow> 'a set run" where
  "loadMapFromPointer a =
     (if ad_size a \<noteq> sizeStoredInMap then Panic
      else case ad_p a of MapP m \<Rightarrow> Return m | _ \<Rightarrow> Panic)"

definition adaptive_Len :: "'a Adaptive \<Rightarrow> int run" where
  "adaptive_Len a =
     (if ad_size a = sizeStoredInMap
      then (case ad_p a of MapP m \<Rightarrow> Return (int (card m)) | _ \<Rightarrow> Panic)
      else Return (ad_size a))"

definition growSliceCap :: "'a \<Rightarrow> 'a list \<Rightarrow> nat \<Rightarrow> 'a list" where
  "growSliceCap zeroT xs newCap = xs @ replicate (newCap - length xs) zeroT"

definition adaptive_Add :: "'a \<Rightarrow> 'a \<Rightarrow> 'a Adaptive \<Rightarrow> 'a Adaptive run" where
  "adaptive_Add zeroT item a =
     (if ad_size a = 0 then Return \<lparr>ad_size = 1, ad_p = ArrayP [item]\<rparr>
      else if ad_size a = sizeStoredInMap
      then run_bind (loadMapFromPointer a) (\<lambda>m. Return (a\<lparr>ad_p := MapP (insert item m)\<rparr>))
      else run_bind (backing a) (\<lambda>arr. run_bind (loadSliceFromPointer a) (\<lambda>tSlice.
        if item \<in> set tSlice then Return a
        else if ad_size a < adaptiveSetArrayLimit
        then (let arr = (if length tSlice = cap_for (ad_size a)
                         then growSliceCap zeroT tSlice (cap_for (ad_size a + 1)) else arr)
              in Return \<lparr>ad_size = ad_size a + 1, ad_p = ArrayP (arr[length tSlice := item])\<rparr>)
        else Return \<lparr>ad_size = sizeStoredInMap, ad_p = MapP (insert item (set tSlice))\<rparr>)))"

definition adaptive_AddAll :: "'a \<Rightarrow> 'a list \<Rightarrow> 'a Adaptive \<Rightarrow> 'a Adaptive run" where
  "adaptive_AddAll zeroT = run_fold (adaptive_Add zeroT)"

definition AdaptiveFromArray :: "'a \<Rightarrow> 'a list \<Rightarrow> 'a Adaptive run" where
  "AdaptiveFromArray zeroT items = adaptive_AddAll zeroT items NewAdaptive"

definition adaptive_AddSet :: "'a \<Rightarrow> 'a set_view \<Rightarrow> 'a Adaptive \<Rightarrow> 'a Adaptive run" where
  "adaptive_AddSet zeroT other a = run_fold (adaptive_Add zeroT) (view_All other) a"

text \<open>The array after the item at index \<open>i\<close> of the slice is removed: a smaller array, or the same
  one with the last item moved to the slot of the removed one.\<close>

definition array_without :: "'a \<Rightarrow> nat \<Rightarrow> nat \<Rightarrow> 'a list \<Rightarrow> 'a list \<Rightarrow> 'a list" where
  "array_without zeroT i newSize arr tSlice =
     (if arrCapForSize ! newSize < cap_for (int (length tSlice))
      then growSliceCap zeroT (take i tSlice @ drop (i + 1) tSlice) (arrCapForSize ! newSize)
      else arr[i := tSlice ! newSize, newSize := zeroT])"

definition index_of :: "'a \<Rightarrow> 'a list \<Rightarrow> nat option" where
  "index_of item xs = List.find (\<lambda>i. xs ! i = item) [0..<length xs]"

text \<open>\<open>order\<close> is the order in which the loop over a map that becomes an array visits it.\<close>

definition adaptive_Discard :: "'a \<Rightarrow> ('a set \<Rightarrow> 'a list) \<Rightarrow> 'a \<Rightarrow> 'a Adaptive \<Rightarrow> 'a Adaptive run" where
  "adaptive_Discard zeroT order item a =
     (if ad_size a = 0 then Return a
      else if ad_size a = 1
      then (case ad_p a of
              ArrayP (theOne # _) \<Rightarrow>
                if theOne = item then Return \<lparr>ad_size = 0, ad_p = NilP\<rparr> else Return a
            | _ \<Rightarrow> Panic)
      else if ad_size a = sizeStoredInMap
      then run_bind (loadMapFromPointer a) (\<lambda>m.
             let m = m - {item} in
             if int (card m) \<le> adaptiveSetArrayLimit
             then (case order m of
                     [] \<Rightarrow> Panic
                   | s \<Rightarrow> Return \<lparr>ad_size = int (card m),
                              ad_p = ArrayP (growSliceCap zeroT s (arrCapForSize ! card m))\<rparr>)
             else Return (a\<lparr>ad_p := MapP m\<rparr>))
      else run_bind (backing a) (\<lambda>arr. run_bind (loadSliceFromPointer a) (\<lambda>tSlice.
             case index_of item tSlice of
               None \<Rightarrow> Return a
             | Some i \<Rightarrow>
                 Return \<lparr>ad_size = ad_size a - 1,
                   ad_p = ArrayP (array_without zeroT i (length tSlice - 1) arr tSlice)\<rparr>)))"

definition adaptive_Clear :: "'a Adaptive \<Rightarrow> 'a Adaptive" where
  "adaptive_Clear a = \<lparr>ad_size = 0, ad_p = NilP\<rparr>"

definition adaptive_Contains :: "'a \<Rightarrow> 'a Adaptive \<Rightarrow> bool run" where
  "adaptive_Contains t a =
     (if ad_size a = 0 then Return False
      else if ad_size a = sizeStoredInMap
      then run_bind (loadMapFromPointer a) (\<lambda>m. Return (t \<in> m))
      else run_bind (loadSliceFromPointer a) (\<lambda>tSlice. Return (t \<in> set tSlice)))"

text \<open>The items that \<^verbatim>\<open>All\<close> and \<^verbatim>\<open>Iter\<close> visit: the map in an unspecified order, or
  a copy of the slice.\<close>

definition adaptive_All :: "('a set \<Rightarrow> 'a list) \<Rightarrow> 'a Adaptive \<Rightarrow> 'a list run" where
  "adaptive_All order a =
     (if ad_size a = 0 then Return []
      else if ad_size a = sizeStoredInMap
      then run_bind (loadMapFromPointer a) (\<lambda>m. Return (order m))
      else loadSliceFromPointer a)"

fun adaptive_visit ::
  "'a \<Rightarrow> ('a set \<Rightarrow> 'a list) \<Rightarrow> ('a \<Rightarrow> 's \<Rightarrow> iter_answer \<times> 's) \<Rightarrow> 'a list \<Rightarrow> 'a Adaptive \<Rightarrow> 's
   \<Rightarrow> ('a Adaptive \<times> 's) run" where
  "adaptive_visit zeroT order f [] a st = Return (a, st)"
| "adaptive_visit zeroT order f (v # rest) a st =
     (case f v st of
        (StopIteration, st) \<Rightarrow> Return (a, st)
      | (RemoveItem, st) \<Rightarrow>
          run_bind (adaptive_Discard zeroT order v a) (\<lambda>a. adaptive_visit zeroT order f rest a st)
      | (_, st) \<Rightarrow> adaptive_visit zeroT order f rest a st)"

definition adaptive_Iter ::
  "'a \<Rightarrow> ('a set \<Rightarrow> 'a list) \<Rightarrow> ('a \<Rightarrow> 's \<Rightarrow> iter_answer \<times> 's) \<Rightarrow> 'a Adaptive \<Rightarrow> 's
   \<Rightarrow> ('a Adaptive \<times> 's) run" where
  "adaptive_Iter zeroT order f a st =
     run_bind (adaptive_All order a) (\<lambda>items. adaptive_visit zeroT order f items a st)"

definition adaptive_Copy :: "'a \<Rightarrow> ('a set \<Rightarrow> 'a list) \<Rightarrow> 'a Adaptive \<Rightarrow> 'a Adaptive run" where
  "adaptive_Copy zeroT order a =
     run_bind (adaptive_All order a) (\<lambda>items. run_fold (adaptive_Add zeroT) items NewAdaptive)"

definition adaptive_Equals :: "('a set \<Rightarrow> 'a list) \<Rightarrow> 'a Adaptive \<Rightarrow> 'a set_view \<Rightarrow> bool run" where
  "adaptive_Equals order a s =
     run_bind (adaptive_Len a) (\<lambda>len.
       if len \<noteq> int (view_Len s) then Return False
       else run_bind (adaptive_All order a) (\<lambda>items. Return (list_all (view_Contains s) items)))"

definition adaptive_ContainsAll :: "'a Adaptive \<Rightarrow> 'a set_view \<Rightarrow> bool run" where
  "adaptive_ContainsAll a s =
     run_bind (adaptive_Len a) (\<lambda>len.
       if int (view_Len s) > len then Return False
       else run_fold (\<lambda>item seenAll. if seenAll then adaptive_Contains item a else Return False)
              (view_All s) True)"

definition adaptive_Slice :: "('a set \<Rightarrow> 'a list) \<Rightarrow> 'a Adaptive \<Rightarrow> 'a list run" where
  "adaptive_Slice order a =
     run_bind (adaptive_All order a) (\<lambda>items. Return (fold (\<lambda>item s. s @ [item]) items []))"

section \<open>Functions over several sets\<close>

text \<open>A loop over items: an item for which \<open>skip\<close> holds is passed over, and the loop ends when \<open>f\<close>
  answers false. The first result tells whether it was ended.\<close>

fun scan :: "('a \<Rightarrow> bool) \<Rightarrow> ('a \<Rightarrow> 's \<Rightarrow> bool \<times> 's) \<Rightarrow> 'a list \<Rightarrow> 's \<Rightarrow> bool \<times> 's" where
  "scan skip f [] s = (False, s)"
| "scan skip f (item # rest) s =
     (if skip item then scan skip f rest s
      else case f item s of
             (False, s) \<Rightarrow> (True, s)
           | (True, s) \<Rightarrow> scan skip f rest s)"

fun union_few ::
  "('a \<Rightarrow> 's \<Rightarrow> bool \<times> 's) \<Rightarrow> 'a set_view list \<Rightarrow> 'a set_view list \<Rightarrow> 's \<Rightarrow> 's" where
  "union_few f scanned [] s = s"
| "union_few f scanned (s1 # sets) s =
     (case scan (\<lambda>item. list_ex (\<lambda>sj. view_Contains sj item) scanned) f (view_All s1) s of
        (True, s) \<Rightarrow> s
      | (False, s) \<Rightarrow> union_few f (scanned @ [s1]) sets s)"

fun scan_seen ::
  "bool \<Rightarrow> bool \<Rightarrow> ('a \<Rightarrow> 's \<Rightarrow> bool \<times> 's) \<Rightarrow> 'a list \<Rightarrow> 'a set \<Rightarrow> 's \<Rightarrow> bool \<times> 'a set \<times> 's" where
  "scan_seen first lastSet f [] seen s = (False, seen, s)"
| "scan_seen first lastSet f (item # rest) seen s =
     (if \<not> first \<and> item \<in> seen then scan_seen first lastSet f rest seen s
      else case f item s of
             (False, s) \<Rightarrow> (True, seen, s)
           | (True, s) \<Rightarrow> scan_seen first lastSet f rest (if lastSet then seen else insert item seen) s)"

fun union_many ::
  "bool \<Rightarrow> ('a \<Rightarrow> 's \<Rightarrow> bool \<times> 's) \<Rightarrow> 'a set_view list \<Rightarrow> 'a set \<Rightarrow> 's \<Rightarrow> 's" where
  "union_many first f [] seen s = s"
| "union_many first f (s1 # sets) seen s =
     (case scan_seen first (sets = []) f (view_All s1) seen s of
        (True, seen, s) \<Rightarrow> s
      | (False, seen, s) \<Rightarrow> union_many False f sets seen s)"

text \<open>\<open>sortSlice\<close> stands for \<^verbatim>\<open>sort.Slice\<close> with the comparison of the source, which puts bigger
  sets first; it is not stable, so the order of sets of one size is left open.\<close>

definition IterUnion ::
  "('a set_view list \<Rightarrow> 'a set_view list) \<Rightarrow> 'a set_view list \<Rightarrow> ('a \<Rightarrow> 's \<Rightarrow> bool \<times> 's) \<Rightarrow> 's \<Rightarrow> 's" where
  "IterUnion sortSlice sets f s =
     (if length sets = 0 then s
      else if length sets = 1 then snd (scan (\<lambda>_. False) f (view_All (hd sets)) s)
      else if length sets < 5 then union_few f [] (sortSlice sets) s
      else union_many True f sets {} s)"

definition IterDifferences ::
  "('a \<Rightarrow> 's \<Rightarrow> iter_answer \<times> 's) \<Rightarrow> ('a \<Rightarrow> 's \<Rightarrow> iter_answer \<times> 's) \<Rightarrow> 'a list \<Rightarrow> 'a list
   \<Rightarrow> 'a Typed \<Rightarrow> 'a Typed \<Rightarrow> 's \<Rightarrow> ('a Typed \<times> 'a Typed \<times> 's) run" where
  "IterDifferences aNotB bNotA orderA orderB a b s =
     run_bind (typed_Iter (\<lambda>item s. if \<not> typed_Contains item b then aNotB item s else (NoError, s)) orderA a s)
       (\<lambda>(a, s).
          run_bind (typed_Iter (\<lambda>item s. if \<not> typed_Contains item a then bNotA item s else (NoError, s)) orderB b s)
            (\<lambda>(b, s). Return (a, b, s)))"

section \<open>The contract of the interface\<close>

datatype 'a go_set_call = CallAdd 'a | CallDiscard 'a | CallClear

fun go_set_step :: "'a go_set_call \<Rightarrow> 'a set \<Rightarrow> 'a set" where
  "go_set_step (CallAdd x) S = insert x S"
| "go_set_step (CallDiscard x) S = S - {x}"
| "go_set_step CallClear S = {}"

text \<open>The calls made on an implementation.\<close>

fun go_set_run ::
  "('a \<Rightarrow> 's \<Rightarrow> 's run) \<Rightarrow> ('a \<Rightarrow> 's \<Rightarrow> 's run) \<Rightarrow> ('s \<Rightarrow> 's) \<Rightarrow> 'a go_set_call \<Rightarrow> 's \<Rightarrow> 's run" where
  "go_set_run Add Discard Clear (CallAdd x) s = Add x s"
| "go_set_run Add Discard Clear (CallDiscard x) s = Discard x s"
| "go_set_run Add Discard Clear CallClear s = Return (Clear s)"

locale set_impl =
  fixes inv :: "'s \<Rightarrow> bool" and items :: "'s \<Rightarrow> 'a set"
    and Add :: "'a \<Rightarrow> 's \<Rightarrow> 's run" and Discard :: "'a \<Rightarrow> 's \<Rightarrow> 's run" and Clear :: "'s \<Rightarrow> 's"
    and Contains :: "'a \<Rightarrow> 's \<Rightarrow> bool run" and Len :: "'s \<Rightarrow> int run" and All :: "'s \<Rightarrow> 'a list run"
  assumes Add: "inv s \<Longrightarrow> \<exists>s'. Add x s = Return s' \<and> inv s' \<and> items s' = insert x (items s)"
    and Discard: "inv s \<Longrightarrow> \<exists>s'. Discard x s = Return s' \<and> inv s' \<and> items s' = items s - {x}"
    and Clear: "inv s \<Longrightarrow> inv (Clear s) \<and> items (Clear s) = {}"
    and Contains: "inv s \<Longrightarrow> Contains x s = Return (x \<in> items s)"
    and Len: "inv s \<Longrightarrow> Len s = Return (int (card (items s)))"
    and All: "inv s \<Longrightarrow> \<exists>xs. All s = Return xs \<and> distinct xs \<and> set xs = items s"
begin

lemma add_items:
  "inv s \<Longrightarrow> \<exists>s'. run_fold Add xs s = Return s' \<and> inv s' \<and> items s' = items s \<union> set xs"
proof (induction xs arbitrary: s)
  case (Cons x xs)
  obtain s1 where s1: "Add x s = Return s1" "inv s1" "items s1 = insert x (items s)"
    using Add [OF Cons.prems] by blast
  with Cons.IH [OF s1(2)] show ?case by auto
qed simp

lemma finite_items: "inv s \<Longrightarrow> finite (items s)"
  using All by (metis List.finite_set)

text \<open>Comparing the lengths and then looking up the items of one side decides equality, and
  inclusion, whatever the other implementation is.\<close>

lemma equals_iff:
  assumes "inv s" and "view_ok v" and "set xs = items s"
  shows "(card (items s) = view_Len v \<and> list_all (view_Contains v) xs) \<longleftrightarrow> items s = set (view_All v)"
proof -
  have len: "view_Len v = card (set (view_All v))"
    using assms(2) by (simp add: view_ok_def distinct_card)
  have "list_all (view_Contains v) xs \<longleftrightarrow> items s \<subseteq> set (view_All v)"
    using assms(2,3) by (auto simp: list_all_iff view_ok_def)
  then show ?thesis unfolding len by (metis List.finite_set card_subset_eq order_refl)
qed

lemma contains_all_iff:
  assumes "inv s" and "view_ok v"
  shows "(view_Len v \<le> card (items s) \<and> set (view_All v) \<subseteq> items s) \<longleftrightarrow> set (view_All v) \<subseteq> items s"
proof -
  have "view_Len v = card (set (view_All v))"
    using assms(2) by (simp add: view_ok_def distinct_card)
  then show ?thesis using card_mono [OF finite_items [OF assms(1)]] by metis
qed

lemma call_step: "inv s \<Longrightarrow> \<exists>s'. go_set_run Add Discard Clear c s = Return s' \<and> inv s' \<and> items s' = go_set_step c (items s)"
  using Add Discard Clear by (cases c) auto

lemma calls: "inv s \<Longrightarrow> \<exists>s'. run_fold (go_set_run Add Discard Clear) cs s = Return s' \<and> inv s' \<and> items s' = fold go_set_step cs (items s)"
proof (induction cs arbitrary: s)
  case (Cons c cs)
  obtain s1 where "go_set_run Add Discard Clear c s = Return s1" "inv s1" "items s1 = go_set_step c (items s)"
    using call_step [OF Cons.prems] by blast
  with Cons.IH [of s1] show ?case by auto
qed simp

end
section \<open>The map-based set keeps the contract\<close>

definition typed_inv :: "'a Typed \<Rightarrow> bool" where
  "typed_inv s \<longleftrightarrow> s \<noteq> None \<and> finite (typed_items s)"

locale some_order =
  fixes order :: "'a set \<Rightarrow> 'a list"
  assumes order: "map_order order"
begin

lemma order_items: "finite S \<Longrightarrow> distinct (order S) \<and> set (order S) = S"
  using order by (simp add: map_order_def)

lemma order_length: "finite S \<Longrightarrow> length (order S) = card S"
  using order_items distinct_card by metis

end

definition any_order :: "'a set \<Rightarrow> 'a list" where
  "any_order S = (SOME xs. set xs = S \<and> distinct xs)"

lemma any_order_items: "finite S \<Longrightarrow> distinct (any_order S) \<and> set (any_order S) = S"
  using someI_ex [OF finite_distinct_list [of S]] by (auto simp: any_order_def)

interpretation any: some_order any_order
  by unfold_locales (simp add: map_order_def any_order_items)

lemma typed_ops:
  assumes "typed_inv s"
  shows "\<exists>s'. typed_Add x s = Return s' \<and> typed_inv s' \<and> typed_items s' = insert x (typed_items s)"
    and "typed_inv (typed_Discard x s)" and "typed_items (typed_Discard x s) = typed_items s - {x}"
    and "typed_inv (typed_Clear s)" and "typed_items (typed_Clear s) = {}" and "finite (typed_items s)"
  using assms
  by (auto simp: typed_Add_def typed_inv_def typed_items_def typed_Discard_def typed_Clear_def)

sublocale some_order \<subseteq> typed: set_impl typed_inv typed_items typed_Add "\<lambda>x s. Return (typed_Discard x s)"
  typed_Clear "\<lambda>x s. Return (typed_Contains x s)" "\<lambda>s. Return (int (typed_Len s))"
  "\<lambda>s. Return (order (typed_items s))"
  by unfold_locales
     (simp_all add: typed_ops order_items typed_Contains_def typed_Len_def)

section \<open>The adaptive set keeps the contract\<close>

text \<open>The size and the pointer agree: an empty set has a nil pointer, up to 16 items are in an array
  of exactly the capacity of their number, and a map has more than 16 items.\<close>

definition adaptive_inv :: "'a Adaptive \<Rightarrow> bool" where
  "adaptive_inv a \<longleftrightarrow>
     (case ad_p a of
        NilP \<Rightarrow> ad_size a = 0
      | ArrayP arr \<Rightarrow> 1 \<le> ad_size a \<and> ad_size a \<le> adaptiveSetArrayLimit \<and> length arr = cap_for (ad_size a)
          \<and> distinct (take (nat (ad_size a)) arr)
      | MapP m \<Rightarrow> ad_size a = sizeStoredInMap \<and> finite m \<and> adaptiveSetArrayLimit < int (card m))"

definition adaptive_items :: "'a Adaptive \<Rightarrow> 'a set" where
  "adaptive_items a =
     (case ad_p a of NilP \<Rightarrow> {} | ArrayP arr \<Rightarrow> set (take (nat (ad_size a)) arr) | MapP m \<Rightarrow> m)"

lemma cap_table: "n \<le> 16 \<Longrightarrow> n \<le> arrCapForSize ! n \<and> (n < 16 \<longrightarrow> arrCapForSize ! n \<le> arrCapForSize ! Suc n
    \<and> (n < arrCapForSize ! n \<longrightarrow> arrCapForSize ! Suc n = arrCapForSize ! n))"
proof -
  have "list_all (\<lambda>n. n \<le> arrCapForSize ! n \<and> (n < 16 \<longrightarrow> arrCapForSize ! n \<le> arrCapForSize ! Suc n
    \<and> (n < arrCapForSize ! n \<longrightarrow> arrCapForSize ! Suc n = arrCapForSize ! n))) [0..<17]"
    by code_simp
  then show "n \<le> 16 \<Longrightarrow> ?thesis" by (simp add: list_all_iff)
qed

text \<open>The three shapes of a consistent set.\<close>

definition array_set :: "'a list \<Rightarrow> 'a list \<Rightarrow> 'a Adaptive" where
  "array_set xs pad = \<lparr>ad_size = int (length xs), ad_p = ArrayP (xs @ pad)\<rparr>"

definition map_set :: "'a set \<Rightarrow> 'a Adaptive" where
  "map_set m = \<lparr>ad_size = sizeStoredInMap, ad_p = MapP m\<rparr>"

lemmas adaptive_shapes = array_set_def map_set_def NewAdaptive_def

lemma array_set_inv [simp]:
  "adaptive_inv (array_set xs pad) \<longleftrightarrow>
     xs \<noteq> [] \<and> length xs \<le> 16 \<and> distinct xs \<and> length xs + length pad = arrCapForSize ! length xs"
  by (auto simp: adaptive_inv_def array_set_def adaptiveSetArrayLimit_def cap_for_def Suc_le_eq)

lemma map_set_inv [simp]: "adaptive_inv (map_set m) \<longleftrightarrow> finite m \<and> 16 < card m"
  by (auto simp: adaptive_inv_def map_set_def adaptiveSetArrayLimit_def)

lemma empty_inv [simp]: "adaptive_inv NewAdaptive"
  by (simp add: adaptive_inv_def NewAdaptive_def)

lemma shape_items [simp]:
  "adaptive_items (array_set xs pad) = set xs" "adaptive_items (map_set m) = m" "adaptive_items NewAdaptive = {}"
  by (simp_all add: adaptive_items_def adaptive_shapes)

lemma adaptive_shape:
  assumes "adaptive_inv a"
  obtains (empty) "a = NewAdaptive"
    | (array) xs pad where "a = array_set xs pad" "adaptive_inv (array_set xs pad)"
    | (map) m where "a = map_set m" "adaptive_inv (map_set m)"
proof (cases "ad_p a")
  case NilP
  then have "a = NewAdaptive" using assms by (simp add: adaptive_inv_def NewAdaptive_def)
  then show ?thesis by (rule empty)
next
  case (ArrayP arr)
  define n where "n = nat (ad_size a)"
  have "n \<le> 16" "ad_size a = int n" "length arr = arrCapForSize ! n"
    using assms ArrayP by (auto simp: adaptive_inv_def n_def adaptiveSetArrayLimit_def cap_for_def)
  then have "length (take n arr) = n" using cap_table [of n] by simp
  then have "a = array_set (take n arr) (drop n arr)"
    using ArrayP \<open>ad_size a = int n\<close> by (simp add: array_set_def)
  then show ?thesis using array assms by metis
next
  case (MapP m)
  then have "a = map_set m" using assms by (simp add: adaptive_inv_def map_set_def)
  then show ?thesis using map assms by metis
qed

lemma array_sizes [simp]:
  "ad_size (array_set xs pad) = int (length xs)" "ad_size (map_set m) = sizeStoredInMap"
  "ad_size NewAdaptive = 0" "ad_p (map_set m) = MapP m" "int n \<noteq> sizeStoredInMap" "sizeStoredInMap \<noteq> 0"
  by (simp_all add: adaptive_shapes sizeStoredInMap_def)

lemma array_set_load:
  assumes "adaptive_inv (array_set xs pad)"
  shows "backing (array_set xs pad) = Return (xs @ pad)" "loadSliceFromPointer (array_set xs pad) = Return xs"
  using assms [unfolded array_set_inv]
  by (simp_all add: backing_def loadSliceFromPointer_def array_set_def adaptiveSetArrayLimit_def cap_for_def Suc_le_eq not_less)

lemma map_set_load [simp]: "loadMapFromPointer (map_set m) = Return m"
  by (simp add: loadMapFromPointer_def map_set_def)

lemma adaptive_Add_empty: "adaptive_Add zeroT x NewAdaptive = Return (array_set [x] [])"
  by (simp add: adaptive_Add_def adaptive_shapes)

lemma adaptive_Add_map: "adaptive_Add zeroT x (map_set m) = Return (map_set (insert x m))"
  by (simp add: adaptive_Add_def loadMapFromPointer_def map_set_def sizeStoredInMap_def)

lemma adaptive_Add_array:
  assumes inv: "adaptive_inv (array_set xs pad)"
  shows "\<exists>a. adaptive_Add zeroT x (array_set xs pad) = Return a \<and> adaptive_inv a \<and> adaptive_items a = insert x (set xs)"
proof -
  let ?a = "array_set xs pad"
  have sz: "ad_size ?a \<noteq> 0" "ad_size ?a \<noteq> sizeStoredInMap" "ad_size ?a = int (length xs)"
    using inv [unfolded array_set_inv] by (auto simp: array_set_def sizeStoredInMap_def)
  have add: "adaptive_Add zeroT x ?a =
      (if x \<in> set xs then Return ?a
       else if length xs < 16
       then Return (\<lparr>ad_size = int (length xs) + 1,
              ad_p = ArrayP ((if length xs = arrCapForSize ! length xs
                 then growSliceCap zeroT xs (arrCapForSize ! Suc (length xs)) else xs @ pad)[length xs := x])\<rparr>)
       else Return (map_set (insert x (set xs))))"
    using sz array_set_load [OF inv]
    by (simp add: adaptive_Add_def map_set_def adaptiveSetArrayLimit_def cap_for_def Let_def nat_add_distrib)
  show ?thesis
  proof (cases "x \<in> set xs \<or> 16 \<le> length xs")
    case True
    then show ?thesis using inv distinct_card [of xs] by (auto simp: add card_insert_if)
  next
    case False
    then have new: "x \<notin> set xs" and len: "length xs < 16" by auto
    have cap: "length xs \<le> arrCapForSize ! length xs" "Suc (length xs) \<le> arrCapForSize ! Suc (length xs)"
      using cap_table [of "length xs"] cap_table [of "Suc (length xs)"] len by auto
    obtain pad' where pad': "(if length xs = arrCapForSize ! length xs
        then growSliceCap zeroT xs (arrCapForSize ! Suc (length xs)) else xs @ pad)[length xs := x] = xs @ x # pad'"
        "Suc (length xs) + length pad' = arrCapForSize ! Suc (length xs)"
    proof (cases "length xs = arrCapForSize ! length xs")
      case True
      define k where "k = arrCapForSize ! Suc (length xs) - Suc (length xs)"
      have "growSliceCap zeroT xs (arrCapForSize ! Suc (length xs)) = xs @ zeroT # replicate k zeroT"
        using cap(2) by (simp add: growSliceCap_def k_def flip: replicate_Suc)
      then show ?thesis using True cap(2) by (intro that [of "replicate k zeroT"]) (simp_all add: k_def)
    next
      case False
      then have "length xs < arrCapForSize ! length xs" using cap(1) by simp
      then have "arrCapForSize ! Suc (length xs) = arrCapForSize ! length xs" "pad \<noteq> []"
        using cap_table [of "length xs"] len inv by auto
      then show ?thesis using False inv by (intro that [of "tl pad"]) (cases pad; simp)+
    qed
    have "adaptive_Add zeroT x ?a = Return (array_set (xs @ [x]) pad')"
      unfolding add using new len pad'(1) by (simp add: array_set_def)
    then show ?thesis using inv new len pad'(2) by simp
  qed
qed

lemma index_of_None: "index_of x xs = None \<longleftrightarrow> x \<notin> set xs"
  by (auto simp: index_of_def find_None_iff in_set_conv_nth)

lemma index_of_Some: "index_of x xs = Some i \<Longrightarrow> i < length xs \<and> xs ! i = x"
  by (auto simp: index_of_def find_Some_iff)

text \<open>Removing index \<open>i\<close> leaves an array of the right capacity that starts with the other items.\<close>

lemma array_without_shape:
  assumes "length (ys @ x # zs) + length pad = arrCapForSize ! length (ys @ x # zs)"
    and "length (ys @ x # zs) \<le> 16" and "distinct (ys @ x # zs)" and "ys @ zs \<noteq> []"
  shows "\<exists>xs' pad'. array_without zeroT (length ys) (length ys + length zs) ((ys @ x # zs) @ pad) (ys @ x # zs) = xs' @ pad'
    \<and> adaptive_inv (array_set xs' pad') \<and> set xs' = set (ys @ zs) \<and> length xs' = length ys + length zs"
    (is "\<exists>xs' pad'. ?arr = xs' @ pad' \<and> _")
proof -
  let ?n = "length ys + length zs"
  have cap: "cap_for (int (length (ys @ x # zs))) = arrCapForSize ! Suc ?n" by (simp add: cap_for_def nat_add_distrib)
  have n: "?n < 16" using assms(2) by simp
  have d: "distinct (ys @ zs)" using assms(3) by simp
  show ?thesis
  proof (cases "arrCapForSize ! ?n < arrCapForSize ! Suc ?n")
    case True
    have "?arr = (ys @ zs) @ replicate (arrCapForSize ! ?n - ?n) zeroT"
      unfolding array_without_def cap using True by (simp add: growSliceCap_def)
    moreover have "?n \<le> arrCapForSize ! ?n" using cap_table [of ?n] n by simp
    then have "adaptive_inv (array_set (ys @ zs) (replicate (arrCapForSize ! ?n - ?n) zeroT))"
      unfolding array_set_inv using n d assms(4) by simp
    ultimately show ?thesis by (metis length_append)
  next
    case False
    then have same: "arrCapForSize ! ?n = arrCapForSize ! Suc ?n" using cap_table [of ?n] n by simp
    obtain xs' where xs': "((ys @ x # zs) @ pad)[length ys := (ys @ x # zs) ! ?n, ?n := zeroT] = xs' @ zeroT # pad"
        "length xs' = ?n" "set xs' = set (ys @ zs)" "distinct xs'"
    proof (cases zs rule: rev_cases)
      case Nil
      then show ?thesis using d by (intro that [of ys]) simp_all
    next
      case (snoc ws w)
      then show ?thesis using d by (intro that [of "ys @ w # ws"]) (auto simp: list_update_append nth_append)
    qed
    moreover have "?arr = ((ys @ x # zs) @ pad)[length ys := (ys @ x # zs) ! ?n, ?n := zeroT]"
      unfolding array_without_def cap using False by simp
    moreover have "adaptive_inv (array_set xs' (zeroT # pad))"
      unfolding array_set_inv using xs' n same assms(1,4) by auto
    ultimately show ?thesis by metis
  qed
qed

lemma adaptive_Discard_array:
  assumes inv: "adaptive_inv (array_set xs pad)"
  shows "\<exists>a. adaptive_Discard zeroT order x (array_set xs pad) = Return a \<and> adaptive_inv a \<and> adaptive_items a = set xs - {x}"
proof (cases "length xs = 1")
  case True
  then obtain y where y: "xs = [y]" by (metis One_nat_def length_0_conv length_Suc_conv)
  have "adaptive_Discard zeroT order x (array_set [y] pad)
      = Return (if y = x then NewAdaptive else array_set [y] pad)"
    by (simp add: adaptive_Discard_def array_set_def NewAdaptive_def)
  then show ?thesis using inv y by auto
next
  case False
  have sz: "ad_size (array_set xs pad) = int (length xs)" "length xs \<noteq> 0"
    using inv [unfolded array_set_inv] by (auto simp: array_set_def)
  have D: "adaptive_Discard zeroT order x (array_set xs pad) =
      (case index_of x xs of
         None \<Rightarrow> Return (array_set xs pad)
       | Some i \<Rightarrow> Return \<lparr>ad_size = int (length xs) - 1,
                     ad_p = ArrayP (array_without zeroT i (length xs - 1) (xs @ pad) xs)\<rparr>)"
    using False sz array_set_load [OF inv] by (simp add: adaptive_Discard_def sizeStoredInMap_def cong: option.case_cong)
  show ?thesis
  proof (cases "index_of x xs")
    case None
    then show ?thesis using inv by (simp add: D) (simp add: index_of_None)
  next
    case (Some i)
    define ys zs where "ys = take i xs" and "zs = drop (Suc i) xs"
    have xs: "xs = ys @ x # zs" and i: "i = length ys"
      using index_of_Some [OF Some] id_take_nth_drop [of i xs] by (auto simp: ys_def zs_def)
    obtain xs' pad' where s: "array_without zeroT i (length xs - 1) (xs @ pad) xs = xs' @ pad'"
        "adaptive_inv (array_set xs' pad')" "set xs' = set (ys @ zs)" "length xs' = length ys + length zs"
      using array_without_shape [of ys x zs pad zeroT] inv [unfolded array_set_inv] False by (auto simp: xs i)
    have "adaptive_Discard zeroT order x (array_set xs pad) = Return (array_set xs' pad')"
      unfolding D Some option.case s(1) using s(4) by (simp add: array_set_def xs)
    moreover have "set (ys @ zs) = set xs - {x}" using inv [unfolded array_set_inv] by (auto simp: xs)
    ultimately show ?thesis using s(2,3) by (metis shape_items(1))
  qed
qed

context some_order
begin

lemma adaptive_Discard_map:
  assumes inv: "adaptive_inv (map_set m)"
  shows "\<exists>a. adaptive_Discard zeroT order x (map_set m) = Return a \<and> adaptive_inv a \<and> adaptive_items a = m - {x}"
proof -
  let ?m = "m - {x}"
  have fin: "finite ?m" and big: "16 \<le> card ?m"
    using inv [unfolded map_set_inv] by (auto simp: card_Diff_singleton_if)
  have D: "adaptive_Discard zeroT order x (map_set m) =
      (if int (card ?m) \<le> 16
       then (case order ?m of
               [] \<Rightarrow> Panic
             | s \<Rightarrow> Return \<lparr>ad_size = int (card ?m), ad_p = ArrayP (growSliceCap zeroT s (arrCapForSize ! card ?m))\<rparr>)
       else Return (map_set ?m))"
    by (simp add: adaptive_Discard_def loadMapFromPointer_def map_set_def sizeStoredInMap_def
        adaptiveSetArrayLimit_def Let_def)
  show ?thesis
  proof (cases "card ?m = 16")
    case True
    have len: "length (order ?m) = 16" using order_length [OF fin] True by simp
    define pad where "pad = replicate (arrCapForSize ! 16 - 16) zeroT"
    have "adaptive_Discard zeroT order x (map_set m) = Return (array_set (order ?m) pad)"
      unfolding D using len True by (cases "order ?m") (simp_all add: array_set_def growSliceCap_def pad_def)
    moreover have items: "distinct (order ?m)" "set (order ?m) = ?m"
      using order_items [OF fin] by blast+
    moreover have "adaptive_inv (array_set (order ?m) pad)"
      unfolding array_set_inv len using items(1) len by (auto simp: pad_def arrCapForSize_def)
    ultimately show ?thesis by (metis shape_items(1))
  next
    case False
    then show ?thesis unfolding D using fin big by simp
  qed
qed

end

text \<open>Each operation on a consistent set, by the shape of the set.\<close>

lemma adaptive_Add_ok:
  assumes "adaptive_inv a"
  shows "\<exists>a'. adaptive_Add zeroT x a = Return a' \<and> adaptive_inv a' \<and> adaptive_items a' = insert x (adaptive_items a)"
  using assms
proof (cases a rule: adaptive_shape)
  case empty
  then show ?thesis by (simp add: adaptive_Add_empty arrCapForSize_def)
next
  case (array xs pad)
  then show ?thesis using adaptive_Add_array [of xs pad zeroT x] by simp
next
  case (map m)
  then show ?thesis by (simp add: adaptive_Add_map card_insert_if)
qed

lemma adaptive_Clear_ok: "adaptive_inv (adaptive_Clear a) \<and> adaptive_items (adaptive_Clear a) = {}"
  using empty_inv shape_items(3) by (simp add: adaptive_Clear_def NewAdaptive_def)

lemma adaptive_reads:
  assumes "adaptive_inv a"
  shows "adaptive_Contains x a = Return (x \<in> adaptive_items a)"
    and "adaptive_Len a = Return (int (card (adaptive_items a)))"
    and "finite (adaptive_items a)"
  using assms
  by (cases a rule: adaptive_shape;
      simp add: adaptive_Contains_def adaptive_Len_def array_set_load distinct_card)+

context some_order
begin

lemma adaptive_Discard_ok:
  assumes "adaptive_inv a"
  shows "\<exists>a'. adaptive_Discard zeroT order x a = Return a' \<and> adaptive_inv a' \<and> adaptive_items a' = adaptive_items a - {x}"
  using assms
proof (cases a rule: adaptive_shape)
  case empty
  then show ?thesis by (simp add: adaptive_Discard_def)
next
  case (array xs pad)
  then show ?thesis using adaptive_Discard_array [of xs pad zeroT order x] by simp
next
  case (map m)
  then show ?thesis using adaptive_Discard_map [of m zeroT x] by simp
qed

lemma adaptive_All_ok:
  assumes "adaptive_inv a"
  shows "\<exists>xs. adaptive_All order a = Return xs \<and> distinct xs \<and> set xs = adaptive_items a"
  using assms
  by (cases a rule: adaptive_shape) (simp_all add: adaptive_All_def array_set_load order_items)

end

text \<open>For every zero value and every map order the adaptive set is an implementation of the interface.\<close>

sublocale some_order \<subseteq> adaptive: set_impl adaptive_inv adaptive_items "adaptive_Add zeroT"
  "adaptive_Discard zeroT order" adaptive_Clear adaptive_Contains adaptive_Len "adaptive_All order" for zeroT
  by unfold_locales
     (simp_all add: adaptive_Add_ok adaptive_Discard_ok adaptive_Clear_ok adaptive_reads adaptive_All_ok)

text \<open>Iterating over an adaptive set, with removals, does what iterating over the map-based set with
  the same items in the same order does.\<close>

context some_order
begin

lemma adaptive_calls:
  "adaptive_inv a \<Longrightarrow>
     \<exists>a'. run_fold (go_set_run (adaptive_Add zeroT) (adaptive_Discard zeroT order) adaptive_Clear) cs a = Return a'
       \<and> adaptive_inv a' \<and> adaptive_items a' = fold go_set_step cs (adaptive_items a)"
  by (rule adaptive.calls)

lemma adaptive_visit_typed:
  assumes "adaptive_inv a" and "\<And>x st. fst (f x st) \<noteq> OtherError"
  shows "\<exists>a' st'. adaptive_visit zeroT order f xs a st = Return (a', st') \<and> adaptive_inv a'
    \<and> typed_Iter f xs (Some (adaptive_items a)) st = Return (Some (adaptive_items a'), st')"
  using assms(1)
proof (induction xs arbitrary: a st)
  case (Cons x xs)
  obtain ans st1 where f: "f x st = (ans, st1)" by (cases "f x st")
  then have "ans \<noteq> OtherError" using assms(2) [of x st] by simp
  then consider "ans = StopIteration" | "ans = NoError" | "ans = RemoveItem" by (cases ans) auto
  then show ?case
  proof cases
    case 1
    then show ?thesis using f Cons.prems by simp
  next
    case 2
    then show ?thesis using f Cons.IH [OF Cons.prems, of st1] by simp
  next
    case 3
    obtain a1 where a1: "adaptive_Discard zeroT order x a = Return a1" "adaptive_inv a1"
        "adaptive_items a1 = adaptive_items a - {x}"
      using adaptive_Discard_ok [OF Cons.prems] by blast
    then show ?thesis using f 3 Cons.IH [OF a1(2), of st1] by (simp add: typed_Discard_def)
  qed
qed simp

end

section \<open>Iterating over a union\<close>

text \<open>The items that a union visits: of each set those that no earlier set has.\<close>

fun union_items :: "'a set \<Rightarrow> 'a set_view list \<Rightarrow> 'a list" where
  "union_items D [] = []"
| "union_items D (s1 # sets) = filter (\<lambda>x. x \<notin> D) (view_All s1) @ union_items (D \<union> set (view_All s1)) sets"

lemma set_union_items: "set (union_items D sets) = (\<Union>s \<in> set sets. set (view_All s)) - D"
  by (induction sets arbitrary: D) auto

lemma distinct_union_items: "list_all view_ok sets \<Longrightarrow> distinct (union_items D sets)"
  by (induction sets arbitrary: D) (auto simp: set_union_items view_ok_def)

lemma scan_filter: "scan skip f xs s = scan (\<lambda>_. False) f (filter (\<lambda>x. \<not> skip x) xs) s"
  by (induction xs arbitrary: s) (auto split: prod.split bool.split)

lemma scan_cong: "(\<And>x. x \<in> set xs \<Longrightarrow> skip x = skip' x) \<Longrightarrow> scan skip f xs s = scan skip' f xs s"
  by (induction xs arbitrary: s) (auto split: prod.split bool.split)

lemma scan_append:
  "scan skip f (xs @ ys) s = (case scan skip f xs s of (True, s) \<Rightarrow> (True, s) | (False, s) \<Rightarrow> scan skip f ys s)"
  by (induction xs arbitrary: s) (auto split: prod.split bool.split)

lemma union_few_items:
  assumes "list_all view_ok scanned" and "list_all view_ok sets"
  shows "union_few f scanned sets s =
    snd (scan (\<lambda>_. False) f (union_items (\<Union>v \<in> set scanned. set (view_All v)) sets) s)"
  using assms
proof (induction f scanned sets s rule: union_few.induct)
  case (2 f scanned s1 sets s)
  have skip: "scan (\<lambda>item. list_ex (\<lambda>sj. view_Contains sj item) scanned) f (view_All s1) s
      = scan (\<lambda>_. False) f (filter (\<lambda>x. x \<notin> (\<Union>v \<in> set scanned. set (view_All v))) (view_All s1)) s"
    using "2.prems"(1) by (subst scan_filter) (auto simp: list_ex_iff list_all_iff view_ok_def)
  show ?case
    using 2 by (auto simp: skip scan_append Un_commute split: prod.split bool.split)
qed simp

lemma scan_seen_scan:
  assumes "distinct xs" and "first \<longrightarrow> seen \<inter> set xs = {}"
    and "scan (\<lambda>x. x \<in> seen) f xs s = (stop, s')"
  shows "\<exists>seen'. scan_seen first lastSet f xs seen s = (stop, seen', s')
    \<and> (\<not> stop \<longrightarrow> seen' = (if lastSet then seen else seen \<union> set xs))"
  using assms
proof (induction xs arbitrary: seen s)
  case (Cons x xs)
  show ?case
  proof (cases "x \<in> seen")
    case True
    then have "insert x (seen \<union> set xs) = seen \<union> set xs" by auto
    then show ?thesis using True Cons.IH [of seen s] Cons.prems by auto
  next
    case False
    obtain go s1 where f: "f x s = (go, s1)" by (cases "f x s")
    show ?thesis
    proof (cases go)
      case True
      let ?seen = "if lastSet then seen else insert x seen"
      have "scan (\<lambda>y. y \<in> ?seen) f xs s1 = scan (\<lambda>y. y \<in> seen) f xs s1"
        using Cons.prems(1) by (intro scan_cong) auto
      with Cons.IH [of ?seen s1] Cons.prems False f True show ?thesis by auto
    next
      case go: False
      then show ?thesis using Cons.prems False f by simp
    qed
  qed
qed simp

lemma union_many_items:
  assumes "list_all view_ok sets" and "first \<longrightarrow> seen = {}"
  shows "union_many first f sets seen s = snd (scan (\<lambda>_. False) f (union_items seen sets) s)"
  using assms
proof (induction sets arbitrary: first seen s)
  case (Cons s1 sets)
  obtain stop s' where sc: "scan (\<lambda>x. x \<in> seen) f (view_All s1) s = (stop, s')"
    by (cases "scan (\<lambda>x. x \<in> seen) f (view_All s1) s")
  have "distinct (view_All s1)" using Cons.prems(1) by (simp add: view_ok_def)
  then obtain seen' where seen': "scan_seen first (sets = []) f (view_All s1) seen s = (stop, seen', s')"
      "\<not> stop \<longrightarrow> seen' = (if sets = [] then seen else seen \<union> set (view_All s1))"
    using scan_seen_scan [OF _ _ sc, of first "sets = []"] Cons.prems(2) by auto
  have sc': "scan (\<lambda>_. False) f (filter (\<lambda>x. x \<notin> seen) (view_All s1)) s = (stop, s')"
    using sc scan_filter by metis
  show ?case
  proof (cases stop)
    case True
    then show ?thesis using seen'(1) sc' by (simp add: scan_append)
  next
    case False
    have "union_many False f sets seen' s' = snd (scan (\<lambda>_. False) f (union_items (seen \<union> set (view_All s1)) sets) s')"
      using Cons.IH [of False seen' s'] Cons.prems(1) seen'(2) False by (cases "sets = []") simp_all
    then show ?thesis using seen'(1) sc' False by (simp add: scan_append)
  qed
qed simp

section \<open>Properties\<close>

text \<open>C36. Any sequence of additions, removals and clearings on a new adaptive set returns, with the size,
  the pointer and the capacity of the array consistent, and the set then answers every question as the
  plain set does: membership, size, the items of an iteration, and an iteration that removes items.\<close>

theorem adaptive_refines_set:
  assumes "map_order order" and "\<And>x st. fst (f x st) \<noteq> OtherError"
  shows "\<exists>a. run_fold (go_set_run (adaptive_Add zeroT) (adaptive_Discard zeroT order) adaptive_Clear) cs NewAdaptive = Return a
    \<and> adaptive_inv a
    \<and> adaptive_Contains x a = Return (x \<in> fold go_set_step cs {})
    \<and> adaptive_Len a = Return (int (card (fold go_set_step cs {})))
    \<and> (\<exists>xs a' st'. adaptive_All order a = Return xs \<and> distinct xs \<and> set xs = fold go_set_step cs {}
        \<and> adaptive_Iter zeroT order f a st = Return (a', st') \<and> adaptive_inv a'
        \<and> typed_Iter f xs (Some (fold go_set_step cs {})) st = Return (Some (adaptive_items a'), st'))"
proof -
  have so: "some_order order" using assms(1) by (rule some_order.intro)
  obtain a where a: "run_fold (go_set_run (adaptive_Add zeroT) (adaptive_Discard zeroT order) adaptive_Clear) cs NewAdaptive
        = Return a" "adaptive_inv a" "adaptive_items a = fold go_set_step cs {}"
    using some_order.adaptive_calls [OF so empty_inv, of zeroT cs] by auto
  obtain xs where xs: "adaptive_All order a = Return xs" "distinct xs" "set xs = adaptive_items a"
    using some_order.adaptive_All_ok [OF so a(2)] by blast
  with some_order.adaptive_visit_typed [OF so a(2) assms(2), where zeroT = zeroT and xs = xs and st = st] a show ?thesis
    by (auto simp: adaptive_Iter_def adaptive_reads [OF a(2)])
qed

theorem adaptive_refines_set_witness:
  "\<exists>a. run_fold (go_set_run (adaptive_Add 0) (adaptive_Discard 0 sorted_list_of_set) adaptive_Clear)
        (map CallAdd [1..<18] @ [CallDiscard 3, CallDiscard (17 :: nat)]) NewAdaptive = Return a
    \<and> adaptive_inv a
    \<and> adaptive_Contains 3 a = Return False
    \<and> adaptive_Len a = Return 15
    \<and> (\<exists>xs a' st'. adaptive_All sorted_list_of_set a = Return xs \<and> distinct xs \<and> set xs = {1..<17} - {3}
        \<and> adaptive_Iter 0 sorted_list_of_set (\<lambda>x st. (RemoveItem, st + x)) a 0 = Return (a', st') \<and> adaptive_inv a'
        \<and> typed_Iter (\<lambda>x st. (RemoveItem, st + x)) xs (Some ({1..<17} - {3})) 0 = Return (Some (adaptive_items a'), st'))"
proof -
  have add: "fold go_set_step (map CallAdd xs) S = S \<union> set xs" for xs :: "nat list" and S
    by (induction xs arbitrary: S) auto
  have S: "fold go_set_step (map CallAdd [1..<18] @ [CallDiscard 3, CallDiscard (17 :: nat)]) {} = {1..<17} - {3}"
    by (auto simp: add)
  have c: "card ({1..<17} - {3 :: nat}) = 15" by simp
  have "map_order (sorted_list_of_set :: nat set \<Rightarrow> nat list)" by (simp add: map_order_def)
  from adaptive_refines_set [OF this, of "\<lambda>x st. (RemoveItem, st + x)" 0
      "map CallAdd [1..<18] @ [CallDiscard 3, CallDiscard (17 :: nat)]" 3 "0 :: nat"]
  show ?thesis unfolding S c by simp
qed

text \<open>C37. Iterating over a union visits every item of the union exactly once, whichever of the three
  strategies the number of sets selects: the visits are a scan of one list without repetition that
  does not depend on the callback, and that the callback can end early.\<close>

theorem iter_union_visits_once:
  assumes "list_all view_ok sets" and "mset (sortSlice sets) = mset sets"
  shows "\<exists>xs. distinct xs \<and> set xs = (\<Union>v \<in> set sets. set (view_All v))
    \<and> (\<forall>f (s :: 's). IterUnion sortSlice sets f s = snd (scan (\<lambda>_. False) f xs s))"
proof -
  define ys where "ys = (if length sets = 1 then [hd sets] else if length sets < 5 then sortSlice sets else sets)"
  consider "sets = []" | "length sets = 1" | "1 < length sets" "length sets < 5" | "5 \<le> length sets"
    by (cases "length sets" rule: nat.exhaust) force+
  then have "set ys = set sets \<and> (\<forall>f (s :: 's). IterUnion sortSlice sets f s = snd (scan (\<lambda>_. False) f (union_items {} ys) s))"
  proof cases
    case 1
    then show ?thesis using assms(2) by (simp add: ys_def IterUnion_def)
  next
    case 2
    then show ?thesis by (cases sets) (simp_all add: ys_def IterUnion_def)
  next
    case 3
    have s: "set (sortSlice sets) = set sets" using assms(2) by (rule mset_eq_setD)
    then have "list_all view_ok (sortSlice sets)" using assms(1) by (simp add: list_all_iff)
    moreover have "sets \<noteq> []" using 3 by auto
    ultimately show ?thesis using 3 s by (simp add: ys_def IterUnion_def union_few_items)
  next
    case 4
    then show ?thesis using assms(1) by (simp add: ys_def IterUnion_def union_many_items)
  qed
  moreover then have "distinct (union_items {} ys)"
    using assms(1) by (intro distinct_union_items) (simp add: list_all_iff)
  ultimately show ?thesis by (intro exI [of _ "union_items {} ys"]) (simp add: set_union_items)
qed

definition wit_view :: "nat list \<Rightarrow> nat set_view" where
  "wit_view xs = \<lparr>view_Len = length xs, view_Contains = (\<lambda>x. x \<in> set xs), view_All = xs\<rparr>"

theorem iter_union_visits_once_witness:
  "\<exists>xs. distinct xs \<and> set xs = {1, 2, 3}
    \<and> (\<forall>f (s :: nat). IterUnion (\<lambda>vs. vs) [wit_view [1, 2], wit_view [2, 3]] f s = snd (scan (\<lambda>_. False) f xs s))"
proof -
  have u: "(\<Union>v \<in> set [wit_view [1, 2], wit_view [2, 3]]. set (view_All v)) = {1, 2, 3}"
    by (auto simp: wit_view_def)
  have "list_all view_ok [wit_view [1, 2], wit_view [2, 3]]" by (simp add: view_ok_def wit_view_def)
  from iter_union_visits_once [OF this, of "\<lambda>vs. vs", where 's = nat] show ?thesis unfolding u by simp
qed

end
