(* ===== verification/Spec2Isabelle.thy ===== *)
theory Spec2Isabelle
  imports Delta_Set If_State Libbpf_Batch Selector_RoundTrip IPAM_Properties Resolver_Properties Go_Set
begin

text \<open>
  A verification development for the Calico networking stack.

  Felix, the per-node agent, keeps the state it wants in the kernel (BPF maps, IP sets, routes)
  next to the state it believes the kernel has, and applies the difference.
\<close>

section \<open>Felix: keeping a dataplane map in sync\<close>

text \<open>C1. Applying all changes of a caching map returns, over every backing map that keeps the contract
  of a dataplane map: loading returns its contents, a failed single operation changes nothing, and a batch
  operation has applied exactly the entries at the front of the batch that it counts, also when it fails, and
  at least one when it does not. The cache stays equal to the backing map once it has been loaded; the
  desired map does not change; every key of the backing map has its old or its desired value; and when no
  error is reported the backing map is the desired map and the tracker is in sync.\<close>

theorem apply_all_changes:
  assumes "dataplane_contract dp contents ok" and "cm_inv contents ok c d" and "range_orders ord"
  shows "\<exists>err c' d'. ApplyAllChanges dp ord c d = Return (err, c', d')
    \<and> cm_inv contents ok c' d' \<and> desired c' = desired c
    \<and> moved UNIV (desired c) (contents d) (contents d')
    \<and> (err = None \<longrightarrow> contents d' = desired c \<and> InSync (deltaTracker c'))"
  using dataplane_contract.ApplyAllChanges_spec [OF assms] .

text \<open>The concrete inputs of the witnesses: the typed interface-state map over the in-memory map,
  with one desired entry.\<close>

definition wit_value :: Value where
  "wit_value = NewValue 2 [101, 116, 104, 48] 1 2 3 4 5 6 7 8"

definition wit_caching_map :: "(Key, Value) CachingMap" where
  "wit_caching_map =
     \<lparr>cm_name = ''cali_iface'', deltaTracker = DesiredView_Set (NewKey 7) wit_value empty_tracker,
      cacheLoaded = False\<rparr>"

definition wit_order :: "nat \<Rightarrow> Key set \<Rightarrow> Key list" where
  "wit_order i S = sorted_list_of_set S"

abbreviation wit_contents :: "MockMap \<Rightarrow> Key \<rightharpoonup> Value" where
  "wit_contents \<equiv> typed_contract.typed_contents (ifstate_typed_map sorted_list_of_set False) Contents"

lemma wit_order_ok: "range_orders wit_order"
  by (simp add: range_orders_def wit_order_def)

lemma wit_cm_inv: "cm_inv wit_contents (mock_ok 4 52) wit_caching_map (NewMockMap 4 52)"
  by (simp add: cm_inv_def wit_caching_map_def dt_exact_ops mock_ok_new)

lemma wit_desired: "desired wit_caching_map = [NewKey 7 \<mapsto> wit_value]"
  by (simp add: wit_caching_map_def map_views)

theorem apply_all_changes_witness:
  "\<exists>err c' d'. ApplyAllChanges (typed_dataplane (ifstate_typed_map sorted_list_of_set False)) wit_order
      wit_caching_map (NewMockMap 4 52) = Return (err, c', d')
    \<and> cm_inv wit_contents (mock_ok 4 52) c' d' \<and> desired c' = [NewKey 7 \<mapsto> wit_value]
    \<and> moved UNIV [NewKey 7 \<mapsto> wit_value] (wit_contents (NewMockMap 4 52)) (wit_contents d')
    \<and> (err = None \<longrightarrow> wit_contents d' = [NewKey 7 \<mapsto> wit_value] \<and> InSync (deltaTracker c'))"
  using apply_all_changes [OF ifstate.dp.dataplane_contract_axioms wit_cm_inv wit_order_ok]
  unfolding wit_desired .

text \<open>C2. From the empty tracker, any sequence of the twelve calls that change it acts as the same sequence
  on a pair of plain maps: setting, deleting and clearing on the desired and on the dataplane view, replacing
  the dataplane map by a snapshot or by what an iterator yields, and the four iterations over the pending
  views, single and batched, whose callbacks get the same entries in the same order, act on the same state,
  and panic or return alike. A loop over a map visits each key once, and an iterator yields each key at most
  once.\<close>

theorem tracker_refines_maps:
  fixes cs :: "('k, 'v, 's, 'e) tracker_call list"
  assumes "list_all tracker_call_ok cs"
  shows "run_fold maps_step cs ((Map.empty, Map.empty), s)
      = map_run (\<lambda>(t, s). (tracker_maps t, s)) (run_fold tracker_step cs (empty_tracker, s))
    \<and> (\<forall>t s'. run_fold tracker_step cs (empty_tracker, s) = Return (t, s') \<longrightarrow> dt_inv t)"
  using tracker_run_refines [OF empty_tracker_exact assms, of s] by (simp add: dt_exact_def tracker_maps_def)

text \<open>A sequence of calls for the witnesses: a batch of two updates of which the second fails.\<close>

definition wit_batch :: "nat list \<Rightarrow> int list \<Rightarrow> nat list \<Rightarrow> (nat \<times> unit option) \<times> nat list" where
  "wit_batch ks vs seen = ((1, if length ks = 1 then None else Some ()), seen @ [hd ks])"

definition wit_calls :: "(nat, int, nat list, unit) tracker_call list" where
  "wit_calls = [DesiredSet 2 5, DesiredSet 3 7, ReplaceAllIter [(2, 4), (4, 6)] None sorted_list_of_set,
     UpdatesIterBatched wit_batch sorted_list_of_set]"

lemma wit_calls_ok: "list_all tracker_call_ok wit_calls"
  by (simp add: wit_calls_def map_order_def)

lemma wit_calls_maps:
  "run_fold maps_step wit_calls ((Map.empty, Map.empty), []) = Return (([2 \<mapsto> 5, 3 \<mapsto> 7], [2 \<mapsto> 5, 4 \<mapsto> 6]), [2])"
proof -
  have "dom (map_updates (=) [2 :: nat \<mapsto> 5 :: int, 3 \<mapsto> 7] [4 \<mapsto> 6, 2 \<mapsto> 4]) = {2, 3}"
    by (auto simp: map_updates_def split: if_splits)
  then have keys: "sorted_list_of_set (dom (map_updates (=) [2 :: nat \<mapsto> 5 :: int, 3 \<mapsto> 7] [4 \<mapsto> 6, 2 \<mapsto> 4])) = [2, 3]"
    by simp
  then show ?thesis
    by (simp add: wit_calls_def keys)
       (simp add: iter_batched_def diff_update_def put_update_def map_updates_def batchSize_def batch_drain.simps
        batch_call_def wit_batch_def Let_def fun_upd_twist)
qed

theorem tracker_refines_maps_witness:
  "\<exists>t. run_fold tracker_step wit_calls (empty_tracker, []) = Return (t, [2])
    \<and> tracker_maps t = ([2 \<mapsto> 5, 3 \<mapsto> 7], [2 \<mapsto> 5, 4 \<mapsto> 6]) \<and> dt_inv t"
  using tracker_refines_maps [OF wit_calls_ok, of "[]"] unfolding wit_calls_maps
  by (cases "run_fold tracker_step wit_calls (empty_tracker, [])") auto

text \<open>C3. In every state that such a sequence reaches, the pending updates and the pending deletions
  are exactly the difference of the two maps, the desired length is the number of desired keys, and
  the tracker says it is in sync exactly when the two maps are equal.\<close>

theorem pending_views_are_the_difference:
  fixes cs :: "('k, 'v, 's, 'e) tracker_call list"
  assumes "list_all tracker_call_ok cs" and "run_fold maps_step cs ((Map.empty, Map.empty), s) = Return ((des, dp), s')"
  shows "\<exists>t. run_fold tracker_step cs (empty_tracker, s) = Return (t, s')
    \<and> PendingUpdatesView_Get t = map_updates (\<lambda>a b. a = b) des dp
    \<and> PendingDeletionsView_Get t = map_deletions des dp
    \<and> DesiredView_Len t = int (card (dom des))
    \<and> (InSync t \<longleftrightarrow> des = dp)"
proof -
  note run = tracker_run_refines [OF empty_tracker_exact assms(1), of s]
  obtain t where t: "run_fold tracker_step cs (empty_tracker, s) = Return (t, s')" "tracker_maps t = (des, dp)"
    using run assms(2) by (cases "run_fold tracker_step cs (empty_tracker, s)") (auto simp: tracker_maps_def)
  have exact: "dt_exact t" and maps: "desired_map t = des" "dataplane_map t = dp"
    using run t by (simp_all add: tracker_maps_def)
  have "PendingUpdatesView_Get t = map_updates (\<lambda>a b. a = b) des dp" "PendingDeletionsView_Get t = map_deletions des dp"
    using pending_maps [OF exact] by (simp_all add: PendingUpdatesView_Get_def PendingDeletionsView_Get_def fun_eq_iff maps)
  moreover have "DesiredView_Len t = int (card (dom des))"
    using dt_len [of t] maps dt_exactD [OF exact] by (simp add: DesiredView_Len_def)
  moreover have "InSync t \<longleftrightarrow> des = dp"
    using InSync_iff_maps [OF exact] maps by simp
  ultimately show ?thesis using t(1) by blast
qed

theorem pending_views_are_the_difference_witness:
  "let des = [2 \<mapsto> 5, 3 \<mapsto> 7]; dp = [2 \<mapsto> 5, 4 \<mapsto> 6]
   in \<exists>t. run_fold tracker_step wit_calls (empty_tracker, []) = Return (t, [2])
    \<and> PendingUpdatesView_Get t = map_updates (\<lambda>a b. a = b) des dp
    \<and> PendingDeletionsView_Get t = map_deletions des dp
    \<and> DesiredView_Len t = int (card (dom des))
    \<and> (InSync t \<longleftrightarrow> des = dp)"
  unfolding Let_def
  by (rule pending_views_are_the_difference [OF wit_calls_ok wit_calls_maps])

text \<open>C4. A resynchronisation from an iterator that yields each key at most once: when the iterator succeeds,
  the dataplane map is replaced by what it produced and the desired map is left alone; when it fails, the
  tracker is left as if each pair produced before the failure had been set one by one.\<close>

theorem replace_all_iter:
  assumes "dt_exact t" and "distinct (map fst kvs)" and "visits ks (inDataplaneAndDesired t)"
  shows "(\<exists>t'. DataplaneView_ReplaceAllIter kvs (None :: 'e option) ks t = (None, t') \<and> dt_exact t'
      \<and> dataplane_map t' = map_of kvs \<and> desired_map t' = desired_map t)
    \<and> DataplaneView_ReplaceAllIter kvs (Some (e :: 'e)) ks t
      = (Some e, fold (\<lambda>(k, v). DataplaneView_Set k v) kvs t)"
proof
  obtain err t' where run: "DataplaneView_ReplaceAllIter kvs (None :: 'e option) ks t = (err, t')"
    by (cases "DataplaneView_ReplaceAllIter kvs (None :: 'e option) ks t")
  have "dom (inDataplaneAndDesired t) \<subseteq> set ks" using assms(3) by (simp add: visits_def)
  from ReplaceAllIter_ok [OF dt_exactD(1) [OF assms(1)] assms(2) this run] assms(1) run
  show "\<exists>t'. DataplaneView_ReplaceAllIter kvs (None :: 'e option) ks t = (None, t') \<and> dt_exact t'
      \<and> dataplane_map t' = map_of kvs \<and> desired_map t' = desired_map t"
    by (auto simp: dt_exact_def)
  show "DataplaneView_ReplaceAllIter kvs (Some e) ks t = (Some e, fold (\<lambda>(k, v). DataplaneView_Set k v) kvs t)"
    using ReplaceAllIter_error [OF dt_exactD(1) [OF assms(1)] assms(2)] .
qed

theorem replace_all_iter_witness:
  "let t = DesiredView_Set 3 9 empty_tracker; kvs = [(1::nat, 5::int), (2, 6)]
   in (\<exists>t'. DataplaneView_ReplaceAllIter kvs (None :: unit option) [] t = (None, t') \<and> dt_exact t'
      \<and> dataplane_map t' = map_of kvs \<and> desired_map t' = desired_map t)
    \<and> DataplaneView_ReplaceAllIter kvs (Some ()) [] t
      = (Some (), fold (\<lambda>(k, v). DataplaneView_Set k v) kvs t)"
  unfolding Let_def
proof (rule replace_all_iter)
  show "dt_exact (DesiredView_Set (3 :: nat) (9 :: int) empty_tracker)"
    by (simp add: dt_exact_ops)
  show "visits [] (inDataplaneAndDesired (DesiredView_Set (3 :: nat) (9 :: int) empty_tracker))"
    by (simp add: visits_def DesiredView_Set_def empty_tracker_def)
qed simp

lemma replace_missing_other:
  "inDataplaneAndDesired t k = None \<Longrightarrow> desiredUpdates (replace_missing ks t) k = desiredUpdates t k"
  by (induction ks t rule: replace_missing.induct) (auto split: option.splits)

text \<open>C5. A resynchronisation from an iterator that yields a desired key twice, with its desired value,
  corrupts the tracker: the key is desired and at the same time pending deletion. Applying the pending
  deletions deletes it, after which the tracker says that the dataplane has it and that no update is pending.\<close>

theorem replace_all_iter_repeated_key:
  assumes "dt_exact t" and "DesiredView_Get t k = Some v" and "visits ks (inDataplaneAndDesired t)"
  shows "\<exists>t' t''. DataplaneView_ReplaceAllIter [(k, v), (k, v)] (None :: 'e option) ks t = (None, t')
    \<and> DesiredView_Get t' k = Some v \<and> PendingDeletionsView_Get t' = [k \<mapsto> v]
    \<and> PendingDeletionsView_Iter (\<lambda>k deleted. (IterActionUpdateDataplane, deleted @ [k])) [k] t' [] = (t'', [k])
    \<and> DesiredView_Get t'' k = Some v \<and> DataplaneView_Get t'' k = Some v
    \<and> PendingUpdatesView_Get t'' k = None \<and> PendingDeletionsView_Get t'' k = None"
proof -
  define u where "u = t\<lparr>desiredUpdates := (desiredUpdates t)(k := None), inDataplaneAndDesired := (inDataplaneAndDesired t)(k := None),
    inDataplaneNotDesired := (inDataplaneNotDesired t)(k := None)\<rparr>"
  have steps: "fold replace_step [(k, v), (k, v)] (t, Map.empty, Map.empty) = (u, [k \<mapsto> v], [k \<mapsto> v])"
    using assms(2) dt_exactD(2) [OF assms(1)] by (simp add: replace_step_def u_def DesiredView_Get_def)
  define t' where "t' = (replace_missing ks u)\<lparr>inDataplaneAndDesired := [k \<mapsto> v], inDataplaneNotDesired := [k \<mapsto> v]\<rparr>"
  have run: "DataplaneView_ReplaceAllIter [(k, v), (k, v)] (None :: 'e option) ks t = (None, t')"
    unfolding DataplaneView_ReplaceAllIter_def steps by (simp add: t'_def)
  have none: "desiredUpdates t' k = None"
    using replace_missing_other [of u k ks] by (simp add: t'_def u_def)
  have "PendingDeletionsView_Iter (\<lambda>k deleted. (IterActionUpdateDataplane, deleted @ [k])) [k] t' [] = (commit_deletion k t', [k])"
    by (simp add: PendingDeletionsView_Iter_def pending_deletion_def t'_def)
  moreover have "DesiredView_Get t' k = Some v" "PendingDeletionsView_Get t' = [k \<mapsto> v]"
    using none by (simp_all add: DesiredView_Get_def PendingDeletionsView_Get_def t'_def fun_eq_iff)
  moreover have "DesiredView_Get (commit_deletion k t') k = Some v" "DataplaneView_Get (commit_deletion k t') k = Some v"
    "PendingUpdatesView_Get (commit_deletion k t') k = None" "PendingDeletionsView_Get (commit_deletion k t') k = None"
    using none by (simp_all add: commit_deletion_def DesiredView_Get_def DataplaneView_Get_def PendingUpdatesView_Get_def
        PendingDeletionsView_Get_def t'_def)
  ultimately show ?thesis using run by blast
qed

theorem replace_all_iter_repeated_key_witness:
  "\<exists>t' t''. DataplaneView_ReplaceAllIter [(1 :: nat, 5 :: int), (1, 5)] (None :: unit option) [] (DesiredView_Set 1 5 empty_tracker) = (None, t')
    \<and> DesiredView_Get t' 1 = Some 5 \<and> PendingDeletionsView_Get t' = [1 \<mapsto> 5]
    \<and> PendingDeletionsView_Iter (\<lambda>k deleted. (IterActionUpdateDataplane, deleted @ [k])) [1] t' [] = (t'', [1])
    \<and> DesiredView_Get t'' 1 = Some 5 \<and> DataplaneView_Get t'' 1 = Some 5
    \<and> PendingUpdatesView_Get t'' 1 = None \<and> PendingDeletionsView_Get t'' 1 = None"
proof (rule replace_all_iter_repeated_key)
  show "dt_exact (DesiredView_Set (1 :: nat) (5 :: int) empty_tracker)" by (simp add: dt_exact_ops)
  show "DesiredView_Get (DesiredView_Set (1 :: nat) (5 :: int) empty_tracker) 1 = Some 5"
    by (simp add: DesiredView_Get_def DesiredView_Set_def empty_tracker_def)
  show "visits [] (inDataplaneAndDesired (DesiredView_Set (1 :: nat) (5 :: int) empty_tracker))"
    by (simp add: visits_def DesiredView_Set_def empty_tracker_def)
qed

text \<open>C7. The batched iteration over the pending updates returns without a panic when the callback
  reports no more entries than it was given, reports an error only for an entry it did not apply,
  and otherwise applies at least one.\<close>

theorem iter_batched_updates_returns:
  fixes applyFn :: "'k list \<Rightarrow> 'v list \<Rightarrow> 's \<Rightarrow> (nat \<times> 'e option) \<times> 's"
  assumes "batch_contract P (\<lambda>xs. applyFn (map fst xs) (map snd xs))" and "P s"
  shows "\<exists>t' s'. PendingUpdatesView_IterBatched applyFn ks t s = Return (t', s')"
  using iter_batched_returns [OF assms, of pending_update commit_update ks t]
  by (simp add: PendingUpdatesView_IterBatched_def)

theorem iter_batched_updates_returns_witness:
  "\<exists>t' s'. PendingUpdatesView_IterBatched (\<lambda>ks vs (s :: nat). ((1, None :: unit option), s + 1)) [1 :: nat, 2]
     (DesiredView_Set 1 (5 :: int) empty_tracker) 0 = Return (t', s')"
proof (rule iter_batched_updates_returns [where P = "\<lambda>_. True"])
  show "batch_contract (\<lambda>_. True) (\<lambda>xs :: (nat \<times> int) list. \<lambda>s :: nat. ((1, None :: unit option), s + 1))"
    by (auto simp: batch_contract_def Suc_le_eq)
qed simp

text \<open>C8. A callback that answers every pending update with the action documented to stop the
  iteration is called for every pending update: the iteration does not stop.\<close>

theorem stop_iteration_does_not_stop:
  "PendingUpdatesView_Iter (\<lambda>k v seen. (IterActionNoOpStopIteration, seen @ [k])) ks t seen
   = (t, seen @ filter (\<lambda>k. PendingUpdatesView_Get t k \<noteq> None) ks)"
  unfolding PendingUpdatesView_Iter_def
  by (induction ks arbitrary: seen)
     (auto simp: pending_update_def PendingUpdatesView_Get_def split: option.split)



text \<open>C10. Every field of an interface-state value is read back as it was written: the flags, the
  integers that fit in 32 bits, and a name of at most 15 bytes that does not end in a NUL.\<close>

theorem ifstate_value_roundtrip:
  fixes x1 x2 x3 x4 x5 x6 x7 x8 :: go_int
  assumes "\<forall>x \<in> {x1, x2, x3, x4, x5, x6, x7, x8}. - (2 ^ 31) \<le> sint x \<and> sint x < 2 ^ 31"
    and "length name \<le> 15" and "name = [] \<or> last name \<noteq> 0"
    and "v = NewValue flags name x1 x2 x3 x4 x5 x6 x7 x8"
  shows "Flags v = flags \<and> IfName v = name
    \<and> XDPPolicyV4 v = x1 \<and> IngressPolicyV4 v = x2 \<and> EgressPolicyV4 v = x3
    \<and> XDPPolicyV6 v = x4 \<and> IngressPolicyV6 v = x5 \<and> EgressPolicyV6 v = x6
    \<and> TcIngressFilter v = x7 \<and> TcEgressFilter v = x8
    \<and> ValueFromBytes (Value_AsBytes v) = v"
  using assms(1-3)
  by (simp add: NewValue_ints [OF refl] scast_ucast_32 assms(4) NewValue_flags NewValue_name
      trim_right_nul_same ValueFromBytes_def Value_AsBytes_def)

theorem ifstate_value_roundtrip_witness:
  "Flags wit_value = 2 \<and> IfName wit_value = [101, 116, 104, 48]
    \<and> XDPPolicyV4 wit_value = 1 \<and> IngressPolicyV4 wit_value = 2 \<and> EgressPolicyV4 wit_value = 3
    \<and> XDPPolicyV6 wit_value = 4 \<and> IngressPolicyV6 wit_value = 5 \<and> EgressPolicyV6 wit_value = 6
    \<and> TcIngressFilter wit_value = 7 \<and> TcEgressFilter wit_value = 8
    \<and> ValueFromBytes (Value_AsBytes wit_value) = wit_value"
  by (rule ifstate_value_roundtrip [OF _ _ _ wit_value_def]) simp_all




end
